(* ===== verification/Prelude.thy ===== *)
theory Prelude
  imports Main "HOL-Library.List_Lexorder" "HOL-Library.Char_ord" "HOL-Library.Word"
begin

text \<open>
  What every component of the development shares: the types that name Go's values, the
  result type of fallible Go functions, the deduplicate-and-sort idiom the code uses
  in three places, and facts on maps and lists.

  A Go \<^verbatim>\<open>string\<close> or \<^verbatim>\<open>[]byte\<close> is a list of bytes, the HOL type \<^typ>\<open>string\<close>; its order
  is the lexicographic order on bytes, as in Go. A Go \<^verbatim>\<open>map\<close> is a partial function. A
  function returning \<^verbatim>\<open>(T, error)\<close> is a value of a sum type: \<^term>\<open>Inl e\<close> for a non-nil
  error, \<^term>\<open>Inr x\<close> for a result. A function returning only an \<^verbatim>\<open>error\<close> is a value of
  an option type, with \<^term>\<open>None\<close> for nil.
\<close>

named_theorems canon \<open>the deduplicate-and-sort idiom\<close>
named_theorems mapsimps \<open>finite maps and their domains\<close>

type_synonym go_string = string
type_synonym byte = "8 word"

section \<open>Results\<close>

definition bindE :: "'e + 'a \<Rightarrow> ('a \<Rightarrow> 'e + 'b) \<Rightarrow> 'e + 'b" where
  "bindE m f = (case m of Inl e \<Rightarrow> Inl e | Inr x \<Rightarrow> f x)"

lemma bindE_simps [simp]:
  "bindE (Inl e) f = Inl e"
  "bindE (Inr x) f = f x"
  by (simp_all add: bindE_def)

lemma bindE_eq_Inr: "bindE m f = Inr y \<longleftrightarrow> (\<exists>x. m = Inr x \<and> f x = Inr y)"
  by (cases m) auto

lemma bindE_eq_Inl: "bindE m f = Inl e \<longleftrightarrow> m = Inl e \<or> (\<exists>x. m = Inr x \<and> f x = Inl e)"
  by (cases m) auto

lemma bindE_cong [fundef_cong]:
  "m = m' \<Longrightarrow> (\<And>x. m' = Inr x \<Longrightarrow> f x = f' x) \<Longrightarrow> bindE m f = bindE m' f'"
  by (cases m') auto

definition guardE :: "bool \<Rightarrow> 'e \<Rightarrow> 'e + unit" where
  "guardE ok e = (if ok then Inr () else Inl e)"

lemma guardE_simps [simp]:
  "guardE ok e = Inr u \<longleftrightarrow> ok"
  "guardE ok e = Inl e' \<longleftrightarrow> \<not> ok \<and> e' = e"
  by (auto simp: guardE_def)

lemma guardE_True [simp]: "guardE True e = Inr ()"
  by (simp add: guardE_def)

lemma guardE_False [simp]: "guardE False e = Inl e"
  by (simp add: guardE_def)

lemma bindE_splits:
  "P (bindE m f) \<longleftrightarrow> (\<forall>e. m = Inl e \<longrightarrow> P (Inl e)) \<and> (\<forall>x. m = Inr x \<longrightarrow> P (f x))"
  by (cases m) auto

section \<open>Deduplicate and sort\<close>

text \<open>
  The loop \<^verbatim>\<open>for _, v := range values { if _, ok := seen[v]; ok { continue }; seen[v] = ...;
  result = append(result, v) }\<close>, with \<^verbatim>\<open>seen\<close> as a set.
\<close>

fun dedup_seen :: "'a set \<Rightarrow> 'a list \<Rightarrow> 'a list" where
  "dedup_seen seen [] = []"
| "dedup_seen seen (v # vs) =
     (if v \<in> seen then dedup_seen seen vs else v # dedup_seen (insert v seen) vs)"

lemma set_dedup_seen [canon]: "set (dedup_seen seen vs) = set vs - seen"
  by (induction vs arbitrary: seen) auto

lemma distinct_dedup_seen [canon]: "distinct (dedup_seen seen vs)"
  by (induction vs arbitrary: seen) (auto simp: set_dedup_seen)

lemma dedup_seen_id [canon]: "distinct vs \<Longrightarrow> set vs \<inter> seen = {} \<Longrightarrow> dedup_seen seen vs = vs"
  by (induction vs arbitrary: seen) auto

text \<open>The idiom depends only on the set of the values.\<close>

lemma sort_dedup_sorted_list_of_set [canon]:
  "sort (dedup_seen {} vs) = sorted_list_of_set (set (vs :: 'a :: linorder list))"
  by (rule sorted_distinct_set_unique)
     (auto simp: set_dedup_seen distinct_dedup_seen)

lemma sort_dedup_cong:
  "set vs = set (ws :: 'a :: linorder list) \<Longrightarrow> sort (dedup_seen {} vs) = sort (dedup_seen {} ws)"
  by (simp add: sort_dedup_sorted_list_of_set)

lemma sort_dedup_idem:
  "sort (dedup_seen {} (sort (dedup_seen {} vs))) = sort (dedup_seen {} (vs :: 'a :: linorder list))"
  by (rule sort_dedup_cong) (simp add: set_dedup_seen)

lemma sorted_distinct_unique_key:
  assumes "sorted (map f xs)" "sorted (map f ys)" "distinct (map f xs)" "distinct (map f ys)"
    and "set xs = set ys"
  shows "xs = ys"
proof -
  have "map f xs = map f ys"
    using assms by (intro sorted_distinct_set_unique) auto
  moreover have "inj_on f (set xs \<union> set ys)"
    using assms(3,5) by (simp add: distinct_map)
  ultimately show ?thesis by (simp add: inj_on_map_eq_map)
qed

section \<open>Maps\<close>

lemma finite_dom_map_upd [mapsimps]: "finite (dom m) \<Longrightarrow> finite (dom (m(k \<mapsto> v)))"
  by simp

lemma map_eqI_dom: "dom m = dom n \<Longrightarrow> (\<And>k. k \<in> dom m \<Longrightarrow> m k = n k) \<Longrightarrow> m = n"
  by (metis domIff ext)

text \<open>
  An iteration order of a Go map: a list of its keys, each once. Go does not specify the
  order, so every function that ranges over a map takes it as an argument.
\<close>

definition range_order :: "('k \<rightharpoonup> 'v) \<Rightarrow> 'k list \<Rightarrow> bool" where
  "range_order m ks \<longleftrightarrow> distinct ks \<and> set ks = dom m"

lemma range_orderI [intro]: "distinct ks \<Longrightarrow> set ks = dom m \<Longrightarrow> range_order m ks"
  by (simp add: range_order_def)

lemma range_orderD:
  "range_order m ks \<Longrightarrow> distinct ks" "range_order m ks \<Longrightarrow> set ks = dom m"
  by (simp_all add: range_order_def)

lemma range_order_exists: "finite (dom m) \<Longrightarrow> \<exists>ks. range_order m ks"
  unfolding range_order_def by (metis finite_distinct_list)

lemma range_order_sorted:
  "finite (dom m) \<Longrightarrow> range_order m (sorted_list_of_set (dom (m :: 'k :: linorder \<rightharpoonup> 'v)))"
  by (simp add: range_order_def)

end
