(* ===== verification/GoErrors.thy ===== *)
theory GoErrors
  imports Prelude
begin

text \<open>
  Go error values. The sentinels are the package-level \<^verbatim>\<open>errors.New\<close> variables of the
  repository and the standard-library ones the code tests for; \<^verbatim>\<open>fmt.Errorf\<close> with a
  \<^verbatim>\<open>%w\<close> verb wraps an error, without one it makes a fresh error; \<^verbatim>\<open>errors.Join\<close> collects
  several. Of a message text only the constant part of its format is kept: the code never
  inspects a message, it only asks \<^verbatim>\<open>errors.Is\<close>.
\<close>

datatype sentinel =
    ErrInvalidStateScopeID
  | ErrInvalidStateScanID
  | ErrStateScanAlreadyExists
  | ErrScanIncomplete
  | ErrPromotionRequiresSuccessfulScan
  | ErrCurrentScanNotFound
  | ErrReconciliationRequiresSuccessfulScan
  | ErrInvalidPersistentServiceRecord
  | ErrServiceIdentityScopeMismatch
  | ErrUnsupportedStateSchemaVersion
  | ErrUnversionedStateSchema
  | ErrInvalidStateSchemaMetadata
  | ErrTargetParse
  | ErrTargetResolution
  | ErrScanCompletionMissing
  | ErrInvalidRuntimeScanID
  | ErrRuntimeScanIDCollisions
  | ContextCanceled
  | ContextDeadlineExceeded
  | IoEOF
  | IoErrUnexpectedEOF
  | IoErrShortWrite
  | BoltErrTxNotWritable
  | BoltErrBucketExists
  | BoltErrBucketNotFound
  | BoltErrBucketNameRequired
  | BoltErrIncompatibleValue
  | BoltErrKeyRequired
  | BoltErrKeyTooLarge
  | BoltErrValueTooLarge

datatype error =
    Sentinel sentinel
  | External string \<comment> \<open>an error value made by the operating system or a library\<close>
  | Errorf string \<comment> \<open>\<^verbatim>\<open>errors.New\<close> or \<^verbatim>\<open>fmt.Errorf\<close> without \<^verbatim>\<open>%w\<close>\<close>
  | Wrapf error string \<comment> \<open>\<^verbatim>\<open>fmt.Errorf\<close> with one \<^verbatim>\<open>%w\<close>\<close>
  | Joined "error list" \<comment> \<open>a non-nil result of \<^verbatim>\<open>errors.Join\<close>\<close>

fun errors_Is :: "error \<Rightarrow> sentinel \<Rightarrow> bool" where
  "errors_Is (Sentinel s) t = (s = t)"
| "errors_Is (External m) t = False"
| "errors_Is (Errorf m) t = False"
| "errors_Is (Wrapf e m) t = errors_Is e t"
| "errors_Is (Joined es) t = (\<exists>e\<in>set es. errors_Is e t)"

definition errors_Join :: "error option list \<Rightarrow> error option" where
  "errors_Join es =
     (let present = List.map_filter (\<lambda>e. e) es in
      if present = [] then None else Some (Joined present))"

lemma errors_Join_None [simp]: "errors_Join es = None \<longleftrightarrow> (\<forall>e\<in>set es. e = None)"
  by (auto simp: errors_Join_def Let_def map_filter_def filter_empty_conv)

lemma errors_Join_Some:
  "errors_Join es = Some e \<Longrightarrow> errors_Is e t \<longleftrightarrow> (\<exists>x. Some x \<in> set es \<and> errors_Is x t)"
  by (force simp: errors_Join_def Let_def map_filter_def split: if_splits)

end
