(* ===== verification/GoStrings.thy ===== *)
theory GoStrings
  imports GoErrors "HOL-Library.Sublist"
begin

text \<open>
  The functions of Go's \<^verbatim>\<open>strings\<close>, \<^verbatim>\<open>strconv\<close>, \<^verbatim>\<open>unicode/utf8\<close> and \<^verbatim>\<open>encoding/hex\<close> the
  program uses, on byte strings. Each follows the library's behaviour on every input,
  invalid UTF-8 included. The one thing taken as an argument is \<^verbatim>\<open>unicode.ToLower\<close>
  beyond ASCII, a table generated from the Unicode data base.
\<close>

abbreviation code :: "char \<Rightarrow> nat" where
  "code c \<equiv> of_char c"

abbreviation chr :: "nat \<Rightarrow> char" where
  "chr n \<equiv> char_of n"

lemma code_less_256 [simp]: "code c < 256"
  by simp

section \<open>Searching and splitting\<close>

definition strings_HasPrefix :: "string \<Rightarrow> string \<Rightarrow> bool" where
  "strings_HasPrefix s p = prefix p s"

definition strings_HasSuffix :: "string \<Rightarrow> string \<Rightarrow> bool" where
  "strings_HasSuffix s p = suffix p s"

fun strings_Contains :: "string \<Rightarrow> string \<Rightarrow> bool" where
  "strings_Contains [] p = (p = [])"
| "strings_Contains (c # cs) p = (prefix p (c # cs) \<or> strings_Contains cs p)"

lemma strings_Contains_sublist: "strings_Contains s p = sublist p s"
  by (induction s) (auto simp: sublist_Cons_right)

lemma strings_Contains_single: "strings_Contains s [c] \<longleftrightarrow> c \<in> set s"
  by (induction s) (auto simp: prefix_Cons)

text \<open>\<^verbatim>\<open>strings.Split\<close> for a one-byte separator.\<close>

fun strings_Split :: "string \<Rightarrow> char \<Rightarrow> string list" where
  "strings_Split [] sep = [[]]"
| "strings_Split (c # cs) sep =
     (if c = sep then [] # strings_Split cs sep
      else case strings_Split cs sep of [] \<Rightarrow> [[c]] | p # ps \<Rightarrow> (c # p) # ps)"

lemma strings_Split_nonempty [simp]: "strings_Split s sep \<noteq> []"
  by (induction s) (auto split: list.splits)

fun strings_Join :: "string list \<Rightarrow> string \<Rightarrow> string" where
  "strings_Join [] sep = []"
| "strings_Join [p] sep = p"
| "strings_Join (p # q # ps) sep = p @ sep @ strings_Join (q # ps) sep"

lemma strings_Split_no_sep: "sep \<notin> set s \<Longrightarrow> strings_Split s sep = [s]"
  by (induction s) auto

lemma strings_Split_append:
  "sep \<notin> set p \<Longrightarrow> strings_Split (p @ sep # s) sep = p # strings_Split s sep"
  by (induction p) auto

lemma strings_Split_Join:
  "ps \<noteq> [] \<Longrightarrow> \<forall>p\<in>set ps. sep \<notin> set p \<Longrightarrow> strings_Split (strings_Join ps [sep]) sep = ps"
proof (induction ps rule: induct_list012)
  case (3 p q ps)
  then show ?case by (simp add: strings_Split_append)
qed (simp_all add: strings_Split_no_sep)

definition strings_TrimSuffix :: "string \<Rightarrow> string \<Rightarrow> string" where
  "strings_TrimSuffix s p = (if suffix p s then take (length s - length p) s else s)"

text \<open>\<^verbatim>\<open>strings.TrimRight\<close> for an ASCII cut set.\<close>

definition strings_TrimRight :: "string \<Rightarrow> string \<Rightarrow> string" where
  "strings_TrimRight s cutset = rev (dropWhile (\<lambda>c. c \<in> set cutset) (rev s))"

lemma strings_TrimRight_prefix: "prefix (strings_TrimRight s cutset) s"
  unfolding strings_TrimRight_def prefix_def
  by (metis rev_append rev_rev_ident takeWhile_dropWhile_id)

lemma length_strings_TrimRight: "length (strings_TrimRight s cutset) \<le> length s"
  using strings_TrimRight_prefix by (rule prefix_length_le)

section \<open>UTF-8\<close>

text \<open>
  \<^verbatim>\<open>utf8.DecodeRuneInString\<close>: the first rune and its width. Invalid encodings (a stray or
  missing continuation byte, an overlong form, a surrogate, a value above U+10FFFF) give
  U+FFFD with width 1.
\<close>

definition runeError :: nat where
  "runeError = 0xFFFD"

definition cont :: "nat \<Rightarrow> nat \<Rightarrow> nat \<Rightarrow> bool" where
  "cont lo hi b \<longleftrightarrow> lo \<le> b \<and> b \<le> hi"

definition decode2 :: "nat \<Rightarrow> string \<Rightarrow> nat \<times> nat" where
  "decode2 b0 s = (case s of
     c1 # _ \<Rightarrow> if cont 0x80 0xBF (code c1)
       then ((b0 - 0xC0) * 64 + (code c1 - 0x80), 2) else (runeError, 1)
   | _ \<Rightarrow> (runeError, 1))"

definition decode3 :: "nat \<Rightarrow> nat \<Rightarrow> nat \<Rightarrow> string \<Rightarrow> nat \<times> nat" where
  "decode3 lo hi b0 s = (case s of
     c1 # c2 # _ \<Rightarrow> if cont lo hi (code c1) \<and> cont 0x80 0xBF (code c2)
       then ((b0 - 0xE0) * 4096 + (code c1 - 0x80) * 64 + (code c2 - 0x80), 3)
       else (runeError, 1)
   | _ \<Rightarrow> (runeError, 1))"

definition decode4 :: "nat \<Rightarrow> nat \<Rightarrow> nat \<Rightarrow> string \<Rightarrow> nat \<times> nat" where
  "decode4 lo hi b0 s = (case s of
     c1 # c2 # c3 # _ \<Rightarrow>
       if cont lo hi (code c1) \<and> cont 0x80 0xBF (code c2) \<and> cont 0x80 0xBF (code c3)
       then ((b0 - 0xF0) * 262144 + (code c1 - 0x80) * 4096 + (code c2 - 0x80) * 64
              + (code c3 - 0x80), 4)
       else (runeError, 1)
   | _ \<Rightarrow> (runeError, 1))"

definition decode_rune :: "char \<Rightarrow> string \<Rightarrow> nat \<times> nat" where
  "decode_rune c s =
     (let b0 = code c in
      if b0 < 0x80 then (b0, 1)
      else if b0 < 0xC2 then (runeError, 1)
      else if b0 < 0xE0 then decode2 b0 s
      else if b0 = 0xE0 then decode3 0xA0 0xBF b0 s
      else if b0 = 0xED then decode3 0x80 0x9F b0 s
      else if b0 < 0xF0 then decode3 0x80 0xBF b0 s
      else if b0 = 0xF0 then decode4 0x90 0xBF b0 s
      else if b0 < 0xF4 then decode4 0x80 0xBF b0 s
      else if b0 = 0xF4 then decode4 0x80 0x8F b0 s
      else (runeError, 1))"

lemma decode_rune_width: "1 \<le> snd (decode_rune c s)" "snd (decode_rune c s) \<le> Suc (length s)"
  by (auto simp: decode_rune_def decode2_def decode3_def decode4_def Let_def split: list.splits)

function decode_runes :: "string \<Rightarrow> nat list" where
  "decode_runes [] = []"
| "decode_runes (c # s) =
     (let (r, w) = decode_rune c s in r # decode_runes (drop (w - 1) s))"
  by pat_completeness auto
termination
  by (relation "measure length") auto

text \<open>\<^verbatim>\<open>utf8.AppendRune\<close>: surrogates and values out of range are written as U+FFFD.\<close>

definition encode_rune :: "nat \<Rightarrow> string" where
  "encode_rune r0 =
     (let r = (if r0 > 0x10FFFF \<or> (0xD800 \<le> r0 \<and> r0 \<le> 0xDFFF) then runeError else r0) in
      if r < 0x80 then [chr r]
      else if r < 0x800 then [chr (0xC0 + r div 64), chr (0x80 + r mod 64)]
      else if r < 0x10000 then
        [chr (0xE0 + r div 4096), chr (0x80 + r div 64 mod 64), chr (0x80 + r mod 64)]
      else [chr (0xF0 + r div 262144), chr (0x80 + r div 4096 mod 64),
            chr (0x80 + r div 64 mod 64), chr (0x80 + r mod 64)])"

definition ascii :: "string \<Rightarrow> bool" where
  "ascii s \<longleftrightarrow> (\<forall>c\<in>set s. code c < 128)"

lemma decode_runes_ascii: "ascii s \<Longrightarrow> decode_runes s = map code s"
  by (induction s) (auto simp: ascii_def decode_rune_def)

lemma encode_rune_ascii: "code c < 128 \<Longrightarrow> encode_rune (code c) = [c]"
  by (simp add: encode_rune_def Let_def)

text \<open>\<^verbatim>\<open>strings.ToLower\<close>, with the Unicode table as its first argument.\<close>

definition ascii_lower :: "nat \<Rightarrow> nat" where
  "ascii_lower r = (if 0x41 \<le> r \<and> r \<le> 0x5A then r + 0x20 else r)"

definition strings_ToLower :: "(nat \<Rightarrow> nat) \<Rightarrow> string \<Rightarrow> string" where
  "strings_ToLower uni s =
     (if ascii s then map (\<lambda>c. chr (ascii_lower (code c))) s
      else concat (map (\<lambda>r. encode_rune (if r < 128 then ascii_lower r else uni r))
                       (decode_runes s)))"

section \<open>Trimming white space\<close>

text \<open>
  \<^verbatim>\<open>strings.TrimSpace\<close> removes the code points with the Unicode White Space property at both
  ends. Their UTF-8 encodings are listed; none is a proper prefix or suffix of another.
\<close>

definition utf8_spaces :: "string list" where
  "utf8_spaces =
     map (\<lambda>b. [chr b]) [0x09, 0x0A, 0x0B, 0x0C, 0x0D, 0x20]
     @ [[chr 0xC2, chr 0x85], [chr 0xC2, chr 0xA0], [chr 0xE1, chr 0x9A, chr 0x80]]
     @ map (\<lambda>b. [chr 0xE2, chr 0x80, chr b])
         [0x80, 0x81, 0x82, 0x83, 0x84, 0x85, 0x86, 0x87, 0x88, 0x89, 0x8A, 0xA8, 0xA9, 0xAF]
     @ [[chr 0xE2, chr 0x81, chr 0x9F], [chr 0xE3, chr 0x80, chr 0x80]]"

function trim_left_by :: "string list \<Rightarrow> string \<Rightarrow> string" where
  "trim_left_by ws s =
     (case find (\<lambda>w. w \<noteq> [] \<and> prefix w s) ws of
        None \<Rightarrow> s
      | Some w \<Rightarrow> trim_left_by ws (drop (length w) s))"
  by pat_completeness auto
termination
  by (relation "measure (\<lambda>(ws, s). length s)")
     (auto simp: find_Some_iff prefix_def)

declare trim_left_by.simps [simp del]

definition strings_TrimSpace :: "string \<Rightarrow> string" where
  "strings_TrimSpace s =
     rev (trim_left_by (map rev utf8_spaces) (rev (trim_left_by utf8_spaces s)))"

definition starts_with_any :: "string list \<Rightarrow> string \<Rightarrow> bool" where
  "starts_with_any ws s \<longleftrightarrow> (\<exists>w\<in>set ws. w \<noteq> [] \<and> prefix w s)"

lemma trim_left_by_id: "\<not> starts_with_any ws s \<Longrightarrow> trim_left_by ws s = s"
  by (subst trim_left_by.simps)
     (auto simp: starts_with_any_def split: option.splits dest!: find_Some_iff [THEN iffD1] nth_mem)

lemma trim_left_by_clean: "\<not> starts_with_any ws (trim_left_by ws s)"
proof (induction ws s rule: trim_left_by.induct)
  case (1 ws s)
  show ?case
  proof (cases "find (\<lambda>w. w \<noteq> [] \<and> prefix w s) ws")
    case None
    then have "trim_left_by ws s = s" by (simp add: trim_left_by.simps [of ws s])
    with None show ?thesis by (auto simp: starts_with_any_def find_None_iff)
  next
    case (Some w)
    with "1.IH" [OF Some] show ?thesis by (subst trim_left_by.simps) simp
  qed
qed

lemma trim_left_by_suffix: "suffix (trim_left_by ws s) s"
proof (induction ws s rule: trim_left_by.induct)
  case (1 ws s)
  show ?case
  proof (cases "find (\<lambda>w. w \<noteq> [] \<and> prefix w s) ws")
    case None
    then show ?thesis by (subst trim_left_by.simps) simp
  next
    case (Some w)
    have "trim_left_by ws s = trim_left_by ws (drop (length w) s)"
      using Some by (subst trim_left_by.simps) simp
    with "1.IH" [OF Some] show ?thesis
      by (metis suffix_drop suffix_order.trans)
  qed
qed

lemma starts_with_any_prefix: "prefix t s \<Longrightarrow> starts_with_any ws t \<Longrightarrow> starts_with_any ws s"
  unfolding starts_with_any_def by (meson prefix_order.trans)

lemma strings_TrimSpace_clean_left: "\<not> starts_with_any utf8_spaces (strings_TrimSpace s)"
proof -
  let ?l = "trim_left_by utf8_spaces s"
  have "prefix (strings_TrimSpace s) ?l"
    unfolding strings_TrimSpace_def
    using trim_left_by_suffix [of "map rev utf8_spaces" "rev ?l"] by (simp add: suffix_to_prefix)
  with trim_left_by_clean show ?thesis using starts_with_any_prefix by blast
qed

lemma strings_TrimSpace_clean_right:
  "\<not> starts_with_any (map rev utf8_spaces) (rev (strings_TrimSpace s))"
  unfolding strings_TrimSpace_def using trim_left_by_clean by simp

lemma strings_TrimSpace_id:
  "\<not> starts_with_any utf8_spaces s \<Longrightarrow> \<not> starts_with_any (map rev utf8_spaces) (rev s)
   \<Longrightarrow> strings_TrimSpace s = s"
  by (simp add: strings_TrimSpace_def trim_left_by_id)

lemma strings_TrimSpace_idem: "strings_TrimSpace (strings_TrimSpace s) = strings_TrimSpace s"
  by (rule strings_TrimSpace_id)
     (rule strings_TrimSpace_clean_left, rule strings_TrimSpace_clean_right)

lemma strings_TrimSpace_Nil [simp]: "strings_TrimSpace [] = []"
  by (rule strings_TrimSpace_id) (auto simp: starts_with_any_def)

lemma set_strings_TrimSpace: "set (strings_TrimSpace s) \<subseteq> set s"
  unfolding strings_TrimSpace_def
  using set_mono_suffix trim_left_by_suffix by (metis set_rev subset_trans)

text \<open>A string of printable ASCII characters other than the space has nothing to trim.\<close>

definition graphic :: "char \<Rightarrow> bool" where
  "graphic c \<longleftrightarrow> 0x21 \<le> code c \<and> code c \<le> 0x7E"

lemma utf8_spaces_ends:
  "w \<in> set utf8_spaces \<Longrightarrow> w \<noteq> [] \<and> \<not> graphic (hd w) \<and> \<not> graphic (last w)"
  by (auto simp: utf8_spaces_def graphic_def)

lemma strings_TrimSpace_graphic:
  assumes "\<forall>c\<in>set s. graphic c"
  shows "strings_TrimSpace s = s"
proof (rule strings_TrimSpace_id)
  show "\<not> starts_with_any utf8_spaces s"
  proof
    assume "starts_with_any utf8_spaces s"
    then obtain w t where w: "w \<in> set utf8_spaces" "s = w @ t"
      by (auto simp: starts_with_any_def prefix_def)
    with utf8_spaces_ends assms show False by (metis hd_in_set in_set_conv_decomp append_assoc UnI1 set_append)
  qed
  show "\<not> starts_with_any (map rev utf8_spaces) (rev s)"
  proof
    assume "starts_with_any (map rev utf8_spaces) (rev s)"
    then obtain w t where w: "w \<in> set utf8_spaces" "rev s = rev w @ t"
      by (auto simp: starts_with_any_def prefix_def)
    then have "set w \<subseteq> set s" by (metis Un_upper1 set_append set_rev)
    with utf8_spaces_ends assms w(1) show False by (metis last_in_set subsetD)
  qed
qed

section \<open>Decimal numbers\<close>

text \<open>Evaluation of the digit and letter codes.\<close>

lemma chr_lits:
  "chr 48 = CHR ''0''"
  "chr 49 = CHR ''1''"
  "chr 50 = CHR ''2''"
  "chr 51 = CHR ''3''"
  "chr 52 = CHR ''4''"
  "chr 53 = CHR ''5''"
  "chr 54 = CHR ''6''"
  "chr 55 = CHR ''7''"
  "chr 56 = CHR ''8''"
  "chr 57 = CHR ''9''"
  "chr 97 = CHR ''a''"
  "chr 98 = CHR ''b''"
  "chr 99 = CHR ''c''"
  "chr 100 = CHR ''d''"
  "chr 101 = CHR ''e''"
  "chr 102 = CHR ''f''"
  "chr 103 = CHR ''g''"
  "chr 104 = CHR ''h''"
  "chr 105 = CHR ''i''"
  "chr 106 = CHR ''j''"
  "chr 107 = CHR ''k''"
  "chr 108 = CHR ''l''"
  "chr 109 = CHR ''m''"
  "chr 110 = CHR ''n''"
  "chr 111 = CHR ''o''"
  "chr 112 = CHR ''p''"
  "chr 113 = CHR ''q''"
  "chr 114 = CHR ''r''"
  "chr 115 = CHR ''s''"
  "chr 116 = CHR ''t''"
  "chr 117 = CHR ''u''"
  "chr 118 = CHR ''v''"
  "chr 119 = CHR ''w''"
  "chr 120 = CHR ''x''"
  "chr 121 = CHR ''y''"
  "chr 122 = CHR ''z''"
  by (code_simp)+

definition is_digit :: "char \<Rightarrow> bool" where
  "is_digit c \<longleftrightarrow> 0x30 \<le> code c \<and> code c \<le> 0x39"

definition digit_val :: "char \<Rightarrow> nat" where
  "digit_val c = code c - 0x30"

fun dec_val :: "nat \<Rightarrow> string \<Rightarrow> nat" where
  "dec_val acc [] = acc"
| "dec_val acc (c # cs) = dec_val (10 * acc + digit_val c) cs"

fun nat_to_dec :: "nat \<Rightarrow> string" where
  "nat_to_dec n =
     (if n < 10 then [chr (0x30 + n)] else nat_to_dec (n div 10) @ [chr (0x30 + n mod 10)])"

declare nat_to_dec.simps [simp del]

definition strconv_Itoa :: "int \<Rightarrow> string" where
  "strconv_Itoa i = (if i < 0 then CHR ''-'' # nat_to_dec (nat (- i)) else nat_to_dec (nat i))"

text \<open>\<^verbatim>\<open>strconv.Atoi\<close> on a 64-bit platform: an optional sign, then decimal digits, in the range
  of \<^verbatim>\<open>int64\<close>.\<close>

definition parse_digits :: "string \<Rightarrow> nat option" where
  "parse_digits s = (if s \<noteq> [] \<and> list_all is_digit s then Some (dec_val 0 s) else None)"

definition strconv_Atoi :: "string \<Rightarrow> error + int" where
  "strconv_Atoi s =
     (let neg = (strings_HasPrefix s ''-'');
          ds = (if neg \<or> strings_HasPrefix s ''+'' then tl s else s)
      in case parse_digits ds of
           None \<Rightarrow> Inl (External ''strconv.Atoi: invalid syntax'')
         | Some n \<Rightarrow>
             (let i = (if neg then - int n else int n) in
              if i < - (2 ^ 63) \<or> 2 ^ 63 - 1 < i
              then Inl (External ''strconv.Atoi: value out of range'') else Inr i))"

lemma dec_val_append: "dec_val acc (s @ t) = dec_val (dec_val acc s) t"
  by (induction s arbitrary: acc) auto

lemma is_digit_chr: "n < 10 \<Longrightarrow> is_digit (chr (0x30 + n))"
  by (simp add: is_digit_def)

lemma nat_to_dec_digits: "nat_to_dec n \<noteq> [] \<and> list_all is_digit (nat_to_dec n)"
proof (induction n rule: nat_to_dec.induct)
  case (1 n)
  then show ?case
    by (subst (1 2) nat_to_dec.simps) (auto simp: is_digit_chr)
qed

lemma dec_val_nat_to_dec: "dec_val 0 (nat_to_dec n) = n"
proof (induction n rule: nat_to_dec.induct)
  case (1 n)
  then show ?case
    by (subst nat_to_dec.simps) (auto simp: dec_val_append digit_val_def)
qed

lemma parse_digits_nat_to_dec: "parse_digits (nat_to_dec n) = Some n"
  by (simp add: parse_digits_def nat_to_dec_digits dec_val_nat_to_dec)

lemma nat_to_dec_inj: "nat_to_dec m = nat_to_dec n \<Longrightarrow> m = n"
  by (metis dec_val_nat_to_dec)

lemma nat_to_dec_no_sign:
  "\<not> prefix ''-'' (nat_to_dec n)" "\<not> prefix ''+'' (nat_to_dec n)"
  using nat_to_dec_digits [of n] by (cases "nat_to_dec n"; auto simp: is_digit_def)+

lemma strconv_Atoi_Itoa:
  assumes "- (2 ^ 63) \<le> i" "i \<le> 2 ^ 63 - 1"
  shows "strconv_Atoi (strconv_Itoa i) = Inr i"
  using assms nat_to_dec_no_sign
  by (auto simp: strconv_Atoi_def strconv_Itoa_def strings_HasPrefix_def parse_digits_nat_to_dec
      Let_def)

lemma nat_to_dec_not_minus [simp]: "CHR ''-'' # s \<noteq> nat_to_dec n" "nat_to_dec n \<noteq> CHR ''-'' # s"
  using nat_to_dec_no_sign(1) [of n] by (metis append_Cons append_Nil prefixI)+

lemma strconv_Itoa_inj: "strconv_Itoa i = strconv_Itoa j \<Longrightarrow> i = j"
  by (auto simp: strconv_Itoa_def dest!: nat_to_dec_inj split: if_splits)

lemma strconv_Itoa_ascii: "c \<in> set (strconv_Itoa i) \<Longrightarrow> is_digit c \<or> c = CHR ''-''"
  using nat_to_dec_digits by (auto simp: strconv_Itoa_def list_all_iff split: if_splits)

section \<open>Hexadecimal\<close>

definition hex_digit :: "nat \<Rightarrow> char" where
  "hex_digit n = (if n < 10 then chr (0x30 + n) else chr (0x57 + n))"

definition hex_EncodeToString :: "string \<Rightarrow> string" where
  "hex_EncodeToString s = concat (map (\<lambda>c. [hex_digit (code c div 16), hex_digit (code c mod 16)]) s)"

text \<open>Both cases of the letters are decoded.\<close>

definition hex_val :: "char \<Rightarrow> nat option" where
  "hex_val c =
     (let b = code c in
      if 0x30 \<le> b \<and> b \<le> 0x39 then Some (b - 0x30)
      else if 0x61 \<le> b \<and> b \<le> 0x66 then Some (b - 0x57)
      else if 0x41 \<le> b \<and> b \<le> 0x46 then Some (b - 0x37)
      else None)"

fun hex_DecodeString :: "string \<Rightarrow> string option" where
  "hex_DecodeString [] = Some []"
| "hex_DecodeString [c] = None"
| "hex_DecodeString (a # b # s) =
     (case (hex_val a, hex_val b, hex_DecodeString s) of
        (Some x, Some y, Some t) \<Rightarrow> Some (chr (16 * x + y) # t)
      | _ \<Rightarrow> None)"

lemma hex_val_digit: "n < 16 \<Longrightarrow> hex_val (hex_digit n) = Some n"
  by (auto simp: hex_val_def hex_digit_def Let_def)

lemma hex_roundtrip: "hex_DecodeString (hex_EncodeToString s) = Some s"
proof (induction s)
  case (Cons c s)
  have "code c div 16 < 16"
    using nat_of_char_less_256 [of c] by (simp add: less_mult_imp_div_less)
  with Cons show ?case by (simp add: hex_EncodeToString_def hex_val_digit)
qed (simp add: hex_EncodeToString_def)

lemma length_hex_EncodeToString: "length (hex_EncodeToString s) = 2 * length s"
  by (induction s) (auto simp: hex_EncodeToString_def)

lemma hex_EncodeToString_inj: "hex_EncodeToString s = hex_EncodeToString t \<Longrightarrow> s = t"
  by (metis hex_roundtrip option.inject)

definition is_lower_hex :: "char \<Rightarrow> bool" where
  "is_lower_hex c \<longleftrightarrow> (0x30 \<le> code c \<and> code c \<le> 0x39) \<or> (0x61 \<le> code c \<and> code c \<le> 0x66)"

lemma is_lower_hex_digit: "n < 16 \<Longrightarrow> is_lower_hex (hex_digit n)"
  by (auto simp: is_lower_hex_def hex_digit_def)

lemma hex_EncodeToString_lower: "list_all is_lower_hex (hex_EncodeToString s)"
proof (induction s)
  case (Cons c s)
  have "code c div 16 < 16"
    using nat_of_char_less_256 [of c] by (simp add: less_mult_imp_div_less)
  with Cons show ?case by (simp add: hex_EncodeToString_def is_lower_hex_digit)
qed (simp add: hex_EncodeToString_def)

lemma hex_digit_val:
  "is_lower_hex c \<Longrightarrow> \<exists>n. hex_val c = Some n \<and> n < 16 \<and> hex_digit n = c"
  by (auto simp: is_lower_hex_def hex_val_def hex_digit_def Let_def)

text \<open>The test \<^verbatim>\<open>hex.EncodeToString(decoded) == s\<close> accepts exactly the lower-case strings of
  even length.\<close>

definition canonical_hex :: "string \<Rightarrow> bool" where
  "canonical_hex s =
     (case hex_DecodeString s of None \<Rightarrow> False | Some d \<Rightarrow> hex_EncodeToString d = s)"

lemma canonical_hex_encode [simp]: "canonical_hex (hex_EncodeToString s)"
  by (simp add: canonical_hex_def hex_roundtrip)

lemma canonical_hexD:
  "canonical_hex s \<Longrightarrow> \<exists>d. s = hex_EncodeToString d"
  by (auto simp: canonical_hex_def split: option.splits)

lemma canonical_hex_iff: "canonical_hex s \<longleftrightarrow> even (length s) \<and> list_all is_lower_hex s"
proof (induction s rule: hex_DecodeString.induct)
  case (3 a b s)
  show ?case
  proof (cases "is_lower_hex a \<and> is_lower_hex b \<and> canonical_hex s")
    case True
    then obtain x y d where "hex_val a = Some x" "x < 16" "hex_digit x = a"
      "hex_val b = Some y" "y < 16" "hex_digit y = b" "hex_DecodeString s = Some d"
      "hex_EncodeToString d = s"
      using hex_digit_val [of a] hex_digit_val [of b]
      by (auto simp: canonical_hex_def split: option.splits)
    moreover from this have "(16 * x + y) mod 256 = 16 * x + y" by simp
    ultimately have "canonical_hex (a # b # s)"
      by (simp add: canonical_hex_def hex_EncodeToString_def)
    with True "3" show ?thesis by auto
  next
    case False
    have "\<not> canonical_hex (a # b # s)"
    proof
      assume "canonical_hex (a # b # s)"
      then obtain d where d: "a # b # s = hex_EncodeToString d" by (blast dest: canonical_hexD)
      then obtain c d' where "d = c # d'" by (cases d) (auto simp: hex_EncodeToString_def)
      with d have "s = hex_EncodeToString d'" "list_all is_lower_hex (a # b # s)"
        using hex_EncodeToString_lower [of d] by (auto simp: hex_EncodeToString_def)
      with False show False by simp
    qed
    with False "3" show ?thesis by auto
  qed
qed (auto simp: canonical_hex_def hex_EncodeToString_def)

section \<open>Line scanning\<close>

text \<open>
  \<^verbatim>\<open>bufio.Scanner\<close> with its default \<^verbatim>\<open>ScanLines\<close>: the text read from the source is cut at
  newlines, a final empty piece is dropped, one trailing carriage return is removed from
  each line, and scanning stops with \<^verbatim>\<open>ErrTooLong\<close> at a line of 64 KiB or more. A read
  error of the source is reported after the lines read before it.
\<close>

definition max_token_size :: nat where
  "max_token_size = 65536"

definition drop_cr :: "string \<Rightarrow> string" where
  "drop_cr l = (if l \<noteq> [] \<and> last l = chr 0x0D then butlast l else l)"

fun scan_pieces :: "string list \<Rightarrow> string list \<times> bool" where
  "scan_pieces [] = ([], False)"
| "scan_pieces (p # ps) =
     (if ps = [] \<and> p = [] then ([], False)
      else if max_token_size \<le> length p then ([], True)
      else (case scan_pieces ps of (ls, too_long) \<Rightarrow> (drop_cr p # ls, too_long)))"

definition scanner_Lines :: "string \<Rightarrow> error option \<Rightarrow> string list \<times> error option" where
  "scanner_Lines text read_err =
     (case scan_pieces (strings_Split text (chr 0x0A)) of
        (ls, too_long) \<Rightarrow>
          (ls, if too_long then Some (External ''bufio.Scanner: token too long'') else read_err))"

end
