(* ===== verification/NetAddr.thy ===== *)
theory NetAddr
  imports GoStrings
begin

unbundle bit_operations_syntax

text \<open>
  The part of Go's \<^verbatim>\<open>net/netip\<close> and \<^verbatim>\<open>net\<close> the program uses: parsing and printing of
  addresses, prefixes, prefix containment, and the byte-slice addresses of package \<^verbatim>\<open>net\<close>
  with their masks. Parsing accepts exactly what the library accepts; the text of a parse
  error is not kept.
\<close>

section \<open>Addresses\<close>

text \<open>\<^verbatim>\<open>netip.Addr\<close>: the zero value, an IPv4 address, or an IPv6 address with its zone (the
  empty string for none).\<close>

datatype addr = AddrZero | Addr4 "32 word" | Addr6 "128 word" string

definition addr_IsValid :: "addr \<Rightarrow> bool" where
  "addr_IsValid a \<longleftrightarrow> a \<noteq> AddrZero"

definition is_4in6 :: "128 word \<Rightarrow> bool" where
  "is_4in6 w \<longleftrightarrow> unat w div 2 ^ 32 = 0xFFFF"

definition addr_Unmap :: "addr \<Rightarrow> addr" where
  "addr_Unmap a = (case a of Addr6 w z \<Rightarrow> if is_4in6 w then Addr4 (ucast w) else a | _ \<Rightarrow> a)"

definition addr_BitLen :: "addr \<Rightarrow> nat" where
  "addr_BitLen a = (case a of AddrZero \<Rightarrow> 0 | Addr4 _ \<Rightarrow> 32 | Addr6 _ _ \<Rightarrow> 128)"

definition addr_Zone :: "addr \<Rightarrow> string" where
  "addr_Zone a = (case a of Addr6 _ z \<Rightarrow> z | _ \<Rightarrow> [])"

section \<open>Digits of an address in a base\<close>

fun horner :: "nat \<Rightarrow> nat \<Rightarrow> nat list \<Rightarrow> nat" where
  "horner b acc [] = acc"
| "horner b acc (d # ds) = horner b (b * acc + d) ds"

fun digits_be :: "nat \<Rightarrow> nat \<Rightarrow> nat \<Rightarrow> nat list" where
  "digits_be b 0 n = []"
| "digits_be b (Suc k) n = digits_be b k (n div b) @ [n mod b]"

lemma length_digits_be [simp]: "length (digits_be b k n) = k"
  by (induction k arbitrary: n) auto

lemma digits_be_4:
  "digits_be b 4 n = [n div b div b div b mod b, n div b div b mod b, n div b mod b, n mod b]"
  by (simp add: numeral_eq_Suc)

lemma digits_be_bound: "0 < b \<Longrightarrow> d \<in> set (digits_be b k n) \<Longrightarrow> d < b"
  by (induction k arbitrary: n) auto

lemma horner_append: "horner b acc (xs @ ys) = horner b (horner b acc xs) ys"
  by (induction xs arbitrary: acc) auto

lemma horner_digits_be: "n < b ^ k \<Longrightarrow> horner b 0 (digits_be b k n) = n"
proof (induction k arbitrary: n)
  case (Suc k)
  then have "n div b < b ^ k"
    by (simp add: less_mult_imp_div_less mult.commute)
  with Suc.IH show ?case by (simp add: horner_append)
qed simp

lemma horner_bound: "\<forall>d\<in>set ds. d < b \<Longrightarrow> horner b acc ds < (acc + 1) * b ^ length ds"
proof (induction ds arbitrary: acc)
  case (Cons d ds)
  then have "horner b (b * acc + d) ds < (b * acc + d + 1) * b ^ length ds" by simp
  also have "\<dots> \<le> (b * acc + b) * b ^ length ds"
    using Cons.prems by (intro mult_right_mono) auto
  finally show ?case by (simp add: algebra_simps)
qed simp

lemma digits_be_horner:
  "\<forall>d\<in>set ds. d < b \<Longrightarrow> digits_be b (length ds) (horner b 0 ds) = ds"
proof (induction ds rule: rev_induct)
  case (snoc d ds)
  then show ?case by (simp add: horner_append)
qed simp

definition v4_octets :: "32 word \<Rightarrow> nat list" where
  "v4_octets w = digits_be 256 4 (unat w)"

definition v4_of_octets :: "nat list \<Rightarrow> 32 word" where
  "v4_of_octets os = word_of_nat (horner 256 0 os)"

definition v6_groups :: "128 word \<Rightarrow> nat list" where
  "v6_groups w = digits_be 65536 8 (unat w)"

definition v6_of_groups :: "nat list \<Rightarrow> 128 word" where
  "v6_of_groups gs = word_of_nat (horner 65536 0 gs)"

lemma unat_bound: "unat (w :: 'a :: len word) < 2 ^ LENGTH('a)"
  by simp

lemma v4_of_octets_octets [simp]: "v4_of_octets (v4_octets w) = w"
  using unat_bound [of w] by (simp add: v4_of_octets_def v4_octets_def horner_digits_be)

lemma v6_of_groups_groups [simp]: "v6_of_groups (v6_groups w) = w"
  using unat_bound [of w] by (simp add: v6_of_groups_def v6_groups_def horner_digits_be)

lemma v4_octets_props: "length (v4_octets w) = 4" "o' \<in> set (v4_octets w) \<Longrightarrow> o' < 256"
  using digits_be_bound [of 256 o' 4] by (auto simp: v4_octets_def)

lemma v6_groups_props: "length (v6_groups w) = 8" "g \<in> set (v6_groups w) \<Longrightarrow> g < 65536"
  using digits_be_bound [of 65536 g 8] by (auto simp: v6_groups_def)

section \<open>Printing\<close>

fun nat_to_hex :: "nat \<Rightarrow> string" where
  "nat_to_hex n =
     (if n < 16 then [hex_digit n] else nat_to_hex (n div 16) @ [hex_digit (n mod 16)])"

declare nat_to_hex.simps [simp del]

definition string4 :: "32 word \<Rightarrow> string" where
  "string4 w = strings_Join (map nat_to_dec (v4_octets w)) ''.''"

text \<open>The first longest run of at least two zero groups: its start and its length (0 for
  none).\<close>

definition zero_run :: "nat list \<Rightarrow> nat \<Rightarrow> nat" where
  "zero_run gs i = length (takeWhile (\<lambda>g. g = 0) (drop i gs))"

definition best_run :: "nat list \<Rightarrow> nat \<times> nat" where
  "best_run gs =
     fold (\<lambda>i (s, l). if 2 \<le> zero_run gs i \<and> l < zero_run gs i then (i, zero_run gs i) else (s, l))
       [0..<length gs] (0, 0)"

definition join_groups :: "nat list \<Rightarrow> string" where
  "join_groups gs = strings_Join (map nat_to_hex gs) '':''"

definition string6 :: "nat list \<Rightarrow> string" where
  "string6 gs = (case best_run gs of (s, l) \<Rightarrow>
     if l = 0 then join_groups gs
     else join_groups (take s gs) @ ''::'' @ join_groups (drop (s + l) gs))"

definition zone_suffix :: "string \<Rightarrow> string" where
  "zone_suffix z = (if z = [] then [] else CHR ''%'' # z)"

definition addr_String :: "addr \<Rightarrow> string" where
  "addr_String a = (case a of
     AddrZero \<Rightarrow> ''invalid IP''
   | Addr4 w \<Rightarrow> string4 w
   | Addr6 w z \<Rightarrow>
       (if is_4in6 w then ''::ffff:'' @ string4 (ucast w) else string6 (v6_groups w))
       @ zone_suffix z)"

section \<open>Parsing\<close>

definition parse_octet :: "string \<Rightarrow> nat option" where
  "parse_octet s =
     (if s \<noteq> [] \<and> list_all is_digit s \<and> (1 < length s \<longrightarrow> hd s \<noteq> CHR ''0'') \<and> dec_val 0 s \<le> 255
      then Some (dec_val 0 s) else None)"

definition parse_ipv4_fields :: "string \<Rightarrow> nat list option" where
  "parse_ipv4_fields s = (case strings_Split s CHR ''.'' of
     [a, b, c, d] \<Rightarrow>
       (case (parse_octet a, parse_octet b, parse_octet c, parse_octet d) of
          (Some w, Some x, Some y, Some z) \<Rightarrow> Some [w, x, y, z]
        | _ \<Rightarrow> None)
   | _ \<Rightarrow> None)"

definition parse_ipv4 :: "string \<Rightarrow> addr option" where
  "parse_ipv4 s = map_option (\<lambda>os. Addr4 (v4_of_octets os)) (parse_ipv4_fields s)"

definition is_hex :: "char \<Rightarrow> bool" where
  "is_hex c \<longleftrightarrow> hex_val c \<noteq> None"

definition hex_num :: "string \<Rightarrow> nat" where
  "hex_num s = horner 16 0 (map (\<lambda>c. the (hex_val c)) s)"

text \<open>
  The loop of \<^verbatim>\<open>parseIPv6\<close>. The first argument counts the groups that still fit, \<open>gs\<close> are
  the groups read so far, \<open>ell\<close> is the position of a \<^verbatim>\<open>::\<close>.
\<close>

fun parse6_loop :: "nat \<Rightarrow> string \<Rightarrow> nat list \<Rightarrow> nat option \<Rightarrow> (nat list \<times> nat option) option" where
  "parse6_loop 0 s gs ell = (if s = [] then Some (gs, ell) else None)"
| "parse6_loop (Suc n) s gs ell =
     (let ds = takeWhile is_hex s in
      if ds = [] \<or> 4 < length ds then None
      else (case dropWhile is_hex s of
          [] \<Rightarrow> Some (gs @ [hex_num ds], ell)
        | c # s1 \<Rightarrow>
            if c = CHR ''.'' then
              (if ell = None \<and> length gs \<noteq> 6 then None
               else if 8 < length gs + 2 then None
               else (case parse_ipv4_fields s of
                   Some [a, b, c, d] \<Rightarrow> Some (gs @ [256 * a + b, 256 * c + d], ell)
                 | _ \<Rightarrow> None))
            else if c \<noteq> CHR '':'' then None
            else (case s1 of
                [] \<Rightarrow> None
              | c1 # s2 \<Rightarrow>
                  if c1 = CHR '':'' then
                    (if ell \<noteq> None then None
                     else if s2 = [] then Some (gs @ [hex_num ds], Some (Suc (length gs)))
                     else parse6_loop n s2 (gs @ [hex_num ds]) (Some (Suc (length gs))))
                  else parse6_loop n s1 (gs @ [hex_num ds]) ell)))"

definition expand_ellipsis :: "nat list \<times> nat option \<Rightarrow> nat list option" where
  "expand_ellipsis r = (case r of (gs, ell) \<Rightarrow>
     if length gs < 8 then
       (case ell of
          None \<Rightarrow> None
        | Some e \<Rightarrow> Some (take e gs @ replicate (8 - length gs) 0 @ drop e gs))
     else (if ell = None then Some gs else None))"

definition parse6_groups :: "string \<Rightarrow> nat list option" where
  "parse6_groups s =
     (if prefix ''::'' s then
        (if length s = 2 then Some (replicate 8 0)
         else Option.bind (parse6_loop 8 (drop 2 s) [] (Some 0)) expand_ellipsis)
      else Option.bind (parse6_loop 8 s [] None) expand_ellipsis)"

definition parse_ipv6 :: "string \<Rightarrow> addr option" where
  "parse_ipv6 s =
     (let body = takeWhile (\<lambda>c. c \<noteq> CHR ''%'') s;
          zone = tl (dropWhile (\<lambda>c. c \<noteq> CHR ''%'') s) in
      if CHR ''%'' \<in> set s \<and> zone = [] then None
      else map_option (\<lambda>gs. Addr6 (v6_of_groups gs) zone) (parse6_groups body))"

definition netip_ParseAddr :: "string \<Rightarrow> error + addr" where
  "netip_ParseAddr s =
     (case (case find (\<lambda>c. c \<in> {CHR ''.'', CHR '':'', CHR ''%''}) s of
              None \<Rightarrow> None
            | Some c \<Rightarrow>
                if c = CHR ''.'' then parse_ipv4 s
                else if c = CHR '':'' then parse_ipv6 s
                else None) of
        None \<Rightarrow> Inl (External ''ParseAddr'')
      | Some a \<Rightarrow> Inr a)"

section \<open>Printed addresses parse back\<close>

lemma parse_octet_print: "n < 256 \<Longrightarrow> parse_octet (nat_to_dec n) = Some n"
proof -
  assume "n < 256"
  have "1 < length (nat_to_dec n) \<Longrightarrow> hd (nat_to_dec n) \<noteq> CHR ''0''" for n
  proof (induction n rule: nat_to_dec.induct)
    case (1 n)
    show ?case
    proof (cases "n < 10")
      case True
      with "1.prems" show ?thesis by (simp add: nat_to_dec.simps [of n])
    next
      case False
      show ?thesis
      proof (cases "n div 10 < 10")
        case True
        with False show ?thesis
          by (auto simp: nat_to_dec.simps [of n] nat_to_dec.simps [of "n div 10"] char_of_eq_iff
              take_bit_eq_mod)
      next
        case False
        then have "1 < length (nat_to_dec (n div 10))"
          using nat_to_dec_digits [of "n div 10 div 10"]
          by (simp add: nat_to_dec.simps [of "n div 10"])
        with "1.IH" \<open>\<not> n < 10\<close> show ?thesis
          by (simp add: nat_to_dec.simps [of n] nat_to_dec_digits)
      qed
    qed
  qed
  with \<open>n < 256\<close> show ?thesis
    by (simp add: parse_octet_def nat_to_dec_digits dec_val_nat_to_dec)
qed

lemma nat_to_dec_no_dot: "CHR ''.'' \<notin> set (nat_to_dec n)" "CHR '':'' \<notin> set (nat_to_dec n)"
    "CHR ''%'' \<notin> set (nat_to_dec n)"
  using nat_to_dec_digits [of n] by (auto simp: list_all_iff is_digit_def)

lemma list4_split: "length xs = 4 \<Longrightarrow> \<exists>a b c d. xs = [a, b, c, d]"
  by (auto simp: numeral_eq_Suc length_Suc_conv)

lemma parse_ipv4_fields_print: "parse_ipv4_fields (string4 w) = Some (v4_octets w)"
proof -
  obtain a b c d where o: "v4_octets w = [a, b, c, d]"
    using list4_split v4_octets_props(1) by blast
  then have "a < 256" "b < 256" "c < 256" "d < 256"
    using v4_octets_props(2) [of _ w] by auto
  moreover have "strings_Split (string4 w) CHR ''.'' = map nat_to_dec [a, b, c, d]"
    unfolding string4_def o by (rule strings_Split_Join) (auto simp: nat_to_dec_no_dot)
  ultimately show ?thesis using o by (simp add: parse_ipv4_fields_def parse_octet_print)
qed

lemma parse_ipv4_print: "parse_ipv4 (string4 w) = Some (Addr4 w)"
  by (simp add: parse_ipv4_def parse_ipv4_fields_print)

lemma string4_shape:
  "\<exists>p s. string4 w = p @ CHR ''.'' # s \<and> list_all is_digit p \<and> CHR ''%'' \<notin> set (string4 w)
         \<and> CHR '':'' \<notin> set (string4 w)"
proof -
  obtain a b c d where "v4_octets w = [a, b, c, d]"
    using list4_split v4_octets_props(1) by blast
  then have "string4 w = nat_to_dec a @ CHR ''.'' #
      strings_Join (map nat_to_dec [b, c, d]) ''.''"
    by (simp add: string4_def)
  then show ?thesis using nat_to_dec_digits nat_to_dec_no_dot
    by (auto simp: list_all_iff)
qed

lemma find_append_None: "\<forall>x\<in>set xs. \<not> P x \<Longrightarrow> find P (xs @ ys) = find P ys"
  by (induction xs) auto

lemma ParseAddr_print4: "netip_ParseAddr (string4 w) = Inr (Addr4 w)"
proof -
  obtain p s where p: "string4 w = p @ CHR ''.'' # s" "list_all is_digit p"
    using string4_shape by blast
  have "find (\<lambda>c. c \<in> {CHR ''.'', CHR '':'', CHR ''%''}) (string4 w) = Some CHR ''.''"
    unfolding p(1) using p(2)
    by (subst find_append_None) (auto simp: list_all_iff is_digit_def)
  then show ?thesis by (simp add: netip_ParseAddr_def parse_ipv4_print)
qed

lemma is_hex_digit: "n < 16 \<Longrightarrow> is_hex (hex_digit n)"
  by (simp add: is_hex_def hex_val_digit)

lemma nat_to_hex_hex: "nat_to_hex n \<noteq> [] \<and> list_all is_hex (nat_to_hex n)"
proof (induction n rule: nat_to_hex.induct)
  case (1 n)
  then show ?case by (subst (1 2) nat_to_hex.simps) (auto simp: is_hex_digit)
qed

lemma hex_num_nat_to_hex: "hex_num (nat_to_hex n) = n"
proof (induction n rule: nat_to_hex.induct)
  case (1 n)
  show ?case
  proof (cases "n < 16")
    case True
    then show ?thesis by (simp add: nat_to_hex.simps [of n] hex_num_def hex_val_digit)
  next
    case False
    with "1.IH" have "horner 16 0 (map (\<lambda>c. the (hex_val c)) (nat_to_hex (n div 16))) = n div 16"
      by (simp add: hex_num_def)
    with False show ?thesis
      by (simp add: nat_to_hex.simps [of n] hex_num_def horner_append hex_val_digit)
  qed
qed

lemma length_nat_to_hex: "n < 16 ^ k \<Longrightarrow> 0 < k \<Longrightarrow> length (nat_to_hex n) \<le> k"
proof (induction k arbitrary: n)
  case (Suc k)
  show ?case
  proof (cases "n < 16")
    case False
    with Suc.prems have "n div 16 < 16 ^ k" "0 < k"
      by (auto simp: less_mult_imp_div_less mult.commute intro: ccontr)
    with Suc.IH False show ?thesis by (simp add: nat_to_hex.simps [of n])
  qed (simp add: nat_to_hex.simps [of n])
qed simp

lemma is_hex_not_special:
  "is_hex c \<Longrightarrow> c \<noteq> CHR '':'' \<and> c \<noteq> CHR ''.'' \<and> c \<noteq> CHR ''%''"
  by (auto simp: is_hex_def hex_val_def)

lemma takeWhile_hex:
  "takeWhile is_hex (nat_to_hex n @ CHR '':'' # s) = nat_to_hex n"
  "dropWhile is_hex (nat_to_hex n @ CHR '':'' # s) = CHR '':'' # s"
  "takeWhile is_hex (nat_to_hex n) = nat_to_hex n"
  "dropWhile is_hex (nat_to_hex n) = []"
proof -
  have h: "\<forall>c\<in>set (nat_to_hex n). is_hex c"
    using nat_to_hex_hex by (simp add: list_all_iff)
  have c: "\<not> is_hex CHR '':''" using is_hex_not_special by blast
  show "takeWhile is_hex (nat_to_hex n @ CHR '':'' # s) = nat_to_hex n"
    "dropWhile is_hex (nat_to_hex n @ CHR '':'' # s) = CHR '':'' # s"
    using h c by (simp_all add: takeWhile_append dropWhile_append)
  show "takeWhile is_hex (nat_to_hex n) = nat_to_hex n" "dropWhile is_hex (nat_to_hex n) = []"
    using h by (auto simp: takeWhile_eq_all_conv dropWhile_eq_Nil_conv)
qed

definition group_ok :: "nat \<Rightarrow> bool" where
  "group_ok g \<longleftrightarrow> g < 65536"

lemma group_len: "group_ok g \<Longrightarrow> length (nat_to_hex g) \<le> 4 \<and> nat_to_hex g \<noteq> []"
  using length_nat_to_hex [of g 4] nat_to_hex_hex by (simp add: group_ok_def)

lemma join_groups_hd:
  "gs \<noteq> [] \<Longrightarrow> \<exists>c s. join_groups gs = c # s \<and> is_hex c"
proof (cases gs rule: remdups_adj.cases)
  case (2 x)
  then show ?thesis using nat_to_hex_hex [of x]
    by (cases "nat_to_hex x") (auto simp: join_groups_def)
next
  case (3 x y zs)
  then show ?thesis using nat_to_hex_hex [of x]
    by (cases "nat_to_hex x") (auto simp: join_groups_def)
qed simp

lemma join_groups_nonempty: "gs \<noteq> [] \<Longrightarrow> join_groups gs \<noteq> []"
  using join_groups_hd by (metis list.distinct(1))

lemma join_groups_hd_not_colon: "gs \<noteq> [] \<Longrightarrow> join_groups gs \<noteq> CHR '':'' # s"
  using join_groups_hd is_hex_not_special by fastforce

lemma parse6_loop_groups:
  "gs \<noteq> [] \<Longrightarrow> length gs \<le> n \<Longrightarrow> \<forall>g\<in>set gs. group_ok g
   \<Longrightarrow> parse6_loop n (join_groups gs) pre ell = Some (pre @ gs, ell)"
proof (induction gs arbitrary: n pre rule: induct_list012)
  case (2 g)
  then obtain m where "n = Suc m" by (cases n) auto
  with 2 group_len [of g] show ?case
    by (simp add: join_groups_def takeWhile_hex Let_def hex_num_nat_to_hex)
next
  case (3 g h gs)
  then obtain m where m: "n = Suc m" by (cases n) auto
  obtain c s where cs: "join_groups (h # gs) = c # s" "c \<noteq> CHR '':''"
    using join_groups_hd [of "h # gs"] is_hex_not_special by auto
  have "join_groups (g # h # gs) = nat_to_hex g @ CHR '':'' # c # s"
    using cs(1) by (simp add: join_groups_def)
  then have "parse6_loop n (join_groups (g # h # gs)) pre ell =
      parse6_loop m (c # s) (pre @ [g]) ell"
    using m cs(2) 3 group_len [of g] by (simp add: takeWhile_hex Let_def hex_num_nat_to_hex)
  with 3 m cs(1) show ?case by simp
qed simp

lemma parse6_loop_ellipsis:
  "gs \<noteq> [] \<Longrightarrow> length gs + length hs \<le> n \<Longrightarrow> \<forall>g\<in>set gs \<union> set hs. group_ok g
   \<Longrightarrow> parse6_loop n (join_groups gs @ ''::'' @ join_groups hs) pre None
       = Some (pre @ gs @ hs, Some (length pre + length gs))"
proof (induction gs arbitrary: n pre rule: induct_list012)
  case (2 g)
  then obtain m where m: "n = Suc m" by (cases n) auto
  show ?case
  proof (cases "hs = []")
    case True
    with 2 m group_len [of g] show ?thesis
      by (simp add: join_groups_def takeWhile_hex Let_def hex_num_nat_to_hex)
  next
    case False
    then have "join_groups hs \<noteq> []" by (rule join_groups_nonempty)
    with 2 m group_len [of g]
    have "parse6_loop n (join_groups [g] @ ''::'' @ join_groups hs) pre None =
        parse6_loop m (join_groups hs) (pre @ [g]) (Some (Suc (length pre)))"
      by (simp add: join_groups_def takeWhile_hex Let_def hex_num_nat_to_hex)
    with False 2 m show ?thesis by (simp add: parse6_loop_groups)
  qed
next
  case (3 g h gs)
  then obtain m where m: "n = Suc m" by (cases n) auto
  obtain c s where cs: "join_groups (h # gs) = c # s" "c \<noteq> CHR '':''"
    using join_groups_hd [of "h # gs"] is_hex_not_special by auto
  have "join_groups (g # h # gs) @ ''::'' @ join_groups hs
      = nat_to_hex g @ CHR '':'' # (c # s) @ ''::'' @ join_groups hs"
    using cs(1) by (simp add: join_groups_def)
  then have "parse6_loop n (join_groups (g # h # gs) @ ''::'' @ join_groups hs) pre None =
      parse6_loop m ((c # s) @ ''::'' @ join_groups hs) (pre @ [g]) None"
    using m cs(2) 3 group_len [of g] by (simp add: takeWhile_hex Let_def hex_num_nat_to_hex)
  also have "\<dots> = Some ((pre @ [g]) @ (h # gs) @ hs, Some (length (pre @ [g]) + length (h # gs)))"
    using 3 m unfolding cs(1) [symmetric] by (intro "3.IH"(2)) auto
  finally show ?case by simp
qed simp

text \<open>What the run search guarantees: the run is a block of zeros of length at least two.\<close>

definition run_ok :: "nat list \<Rightarrow> nat \<times> nat \<Rightarrow> bool" where
  "run_ok gs r \<longleftrightarrow> (case r of (s, l) \<Rightarrow>
     l = 0 \<or> (2 \<le> l \<and> s + l \<le> length gs \<and> take l (drop s gs) = replicate l 0))"

lemma zero_run_block:
  "zero_run gs i \<le> length gs - i"
  "take (zero_run gs i) (drop i gs) = replicate (zero_run gs i) 0"
proof -
  show "zero_run gs i \<le> length gs - i"
    unfolding zero_run_def using length_takeWhile_le [of _ "drop i gs"] by simp
  have "take (zero_run gs i) (drop i gs) = takeWhile (\<lambda>g. g = 0) (drop i gs)"
    unfolding zero_run_def by (metis takeWhile_eq_take)
  also have "\<dots> = replicate (zero_run gs i) 0"
    unfolding zero_run_def by (rule replicate_eqI) (auto dest: set_takeWhileD)
  finally show "take (zero_run gs i) (drop i gs) = replicate (zero_run gs i) 0" .
qed

lemma best_run_ok: "run_ok gs (best_run gs)"
proof -
  let ?f = "\<lambda>i (s, l). if 2 \<le> zero_run gs i \<and> l < zero_run gs i
      then (i, zero_run gs i) else (s, l)"
  have "run_ok gs r \<Longrightarrow> set is \<subseteq> {..<length gs} \<Longrightarrow> run_ok gs (fold ?f is r)" for "is" r
  proof (induction "is" arbitrary: r)
    case (Cons i "is")
    have "run_ok gs (?f i r)"
      using Cons.prems zero_run_block [of gs i] by (cases r) (auto simp: run_ok_def)
    with Cons show ?case by simp
  qed simp
  moreover have "run_ok gs (0, 0)" "set [0..<length gs] \<subseteq> {..<length gs}"
    by (auto simp: run_ok_def)
  ultimately show ?thesis unfolding best_run_def by blast
qed

lemma parse6_groups_string6:
  assumes len: "length gs = 8" and ok: "\<forall>g\<in>set gs. group_ok g"
  shows "parse6_groups (string6 gs) = Some gs"
proof -
  obtain s l where r: "best_run gs = (s, l)" by (cases "best_run gs")
  show ?thesis
  proof (cases "l = 0")
    case True
    then have s6: "string6 gs = join_groups gs" using r by (simp add: string6_def)
    have "gs \<noteq> []" using len by auto
    then have "\<not> prefix ''::'' (join_groups gs)"
      using join_groups_hd_not_colon by (auto simp: prefix_def)
    then show ?thesis
      using s6 len ok \<open>gs \<noteq> []\<close> parse6_loop_groups [of gs 8 "[]" None]
      by (simp add: parse6_groups_def expand_ellipsis_def)
  next
    case False
    with best_run_ok [of gs] r have l: "2 \<le> l" "s + l \<le> 8" "take l (drop s gs) = replicate l 0"
      using len by (auto simp: run_ok_def)
    let ?a = "take s gs" and ?b = "drop (s + l) gs"
    have "drop l (drop s gs) = ?b" by (simp add: add.commute)
    then have gs: "gs = ?a @ replicate l 0 @ ?b"
      using l(3) by (metis append_take_drop_id)
    have s6: "string6 gs = join_groups ?a @ ''::'' @ join_groups ?b"
      using r False by (simp add: string6_def)
    have ab: "\<forall>g\<in>set ?a \<union> set ?b. group_ok g"
      using ok by (meson in_set_dropD in_set_takeD UnE)
    have lens: "length ?a = s" "length ?a + length ?b = 8 - l" using l len by auto
    have expand: "expand_ellipsis (?a @ ?b, Some s) = Some gs"
    proof -
      have "take s (?a @ ?b) = ?a" "drop s (?a @ ?b) = ?b" using lens(1) by simp_all
      then have "expand_ellipsis (?a @ ?b, Some s) = Some (?a @ replicate l 0 @ ?b)"
        using l(1,2) len by (simp add: expand_ellipsis_def)
      then show ?thesis by (simp only: gs [symmetric])
    qed
    show ?thesis
    proof (cases "s = 0")
      case True
      then have pre: "string6 gs = ''::'' @ join_groups ?b" using s6 by (simp add: join_groups_def)
      show ?thesis
      proof (cases "?b = []")
        case True
        then have "gs = replicate l 0" using gs \<open>s = 0\<close> by (metis append_Nil append_Nil2 take_0)
        then have "gs = replicate 8 0" using len by (metis length_replicate)
        with pre True show ?thesis by (simp add: parse6_groups_def join_groups_def)
      next
        case False
        then have "join_groups ?b \<noteq> []" by (rule join_groups_nonempty)
        moreover have "parse6_loop 8 (join_groups ?b) [] (Some 0) = Some ([] @ ?b, Some 0)"
          using False ab lens by (intro parse6_loop_groups) auto
        ultimately show ?thesis
          unfolding pre using expand \<open>s = 0\<close> by (simp add: parse6_groups_def)
      qed
    next
      case False
      then have "?a \<noteq> []" using len by auto
      then obtain c t where "join_groups ?a = c # t" "c \<noteq> CHR '':''"
        using join_groups_hd is_hex_not_special by meson
      then have "\<not> prefix ''::'' (string6 gs)" using s6 by simp
      moreover have "parse6_loop 8 (string6 gs) [] None = Some ([] @ ?a @ ?b, Some (length ([] :: nat list) + length ?a))"
        unfolding s6 using \<open>?a \<noteq> []\<close> ab lens by (intro parse6_loop_ellipsis) auto
      ultimately show ?thesis using expand lens by (simp add: parse6_groups_def)
    qed
  qed
qed

lemma join_groups_chars: "c \<in> set (join_groups gs) \<Longrightarrow> is_hex c \<or> c = CHR '':''"
  unfolding join_groups_def
proof (induction gs rule: induct_list012)
  case (2 g)
  then show ?case using nat_to_hex_hex [of g] by (auto simp: list_all_iff)
next
  case (3 g h gs)
  then show ?case using nat_to_hex_hex [of g] by (auto simp: list_all_iff)
qed simp

lemma string6_chars: "c \<in> set (string6 gs) \<Longrightarrow> is_hex c \<or> c = CHR '':''"
  by (auto simp: string6_def split: prod.splits if_splits dest: join_groups_chars)

lemma string6_colon: "length gs = 8 \<Longrightarrow> CHR '':'' \<in> set (string6 gs)"
proof -
  assume "length gs = 8"
  then obtain g h gs' where "gs = g # h # gs'"
    by (metis Suc_length_conv numeral_eq_Suc pred_numeral_simps(2) semiring_norm(26,27) numeral_2_eq_2)
  then show ?thesis
    by (cases "best_run gs") (auto simp: string6_def join_groups_def)
qed

lemma find_colon:
  "CHR '':'' \<in> set s \<Longrightarrow> \<forall>c\<in>set s. is_hex c \<or> c = CHR '':'' \<Longrightarrow>
   find (\<lambda>c. c \<in> {CHR ''.'', CHR '':'', CHR ''%''}) (s @ t) = Some CHR '':''"
proof (induction s)
  case (Cons c s)
  then show ?case using is_hex_not_special [of c] by auto
qed simp

lemma v6_groups_ok: "\<forall>g\<in>set (v6_groups w). group_ok g"
  using v6_groups_props(2) by (simp add: group_ok_def)

lemma ParseAddr_print6:
  assumes "\<not> is_4in6 w"
  shows "netip_ParseAddr (addr_String (Addr6 w z)) = Inr (Addr6 w z)"
proof -
  let ?t = "string6 (v6_groups w)"
  have chars: "\<forall>c\<in>set ?t. is_hex c \<or> c = CHR '':''" using string6_chars by blast
  then have no_pct: "CHR ''%'' \<notin> set ?t" using is_hex_not_special by fastforce
  have "find (\<lambda>c. c \<in> {CHR ''.'', CHR '':'', CHR ''%''}) (?t @ zone_suffix z) = Some CHR '':''"
    using chars string6_colon v6_groups_props(1) by (intro find_colon) auto
  moreover have "parse_ipv6 (?t @ zone_suffix z) = Some (Addr6 w z)"
  proof -
    have "takeWhile (\<lambda>c. c \<noteq> CHR ''%'') (?t @ zone_suffix z) = ?t"
      "tl (dropWhile (\<lambda>c. c \<noteq> CHR ''%'') (?t @ zone_suffix z)) = z"
      using no_pct by (auto simp: zone_suffix_def takeWhile_append dropWhile_append)
    moreover have "CHR ''%'' \<in> set (?t @ zone_suffix z) \<Longrightarrow> z \<noteq> []"
      using no_pct by (auto simp: zone_suffix_def)
    ultimately show ?thesis
      using parse6_groups_string6 [OF v6_groups_props(1) v6_groups_ok]
      by (auto simp: parse_ipv6_def Let_def)
  qed
  ultimately show ?thesis
    using assms by (simp add: netip_ParseAddr_def addr_String_def)
qed

theorem ParseAddr_String:
  "addr_IsValid a \<Longrightarrow> netip_ParseAddr (addr_String (addr_Unmap a)) = Inr (addr_Unmap a)"
  by (cases a)
     (auto simp: addr_IsValid_def addr_Unmap_def ParseAddr_print6 ParseAddr_print4 addr_String_def
        [of "Addr4 _"])

lemma addr_Unmap_idem [simp]: "addr_Unmap (addr_Unmap a) = addr_Unmap a"
  by (auto simp: addr_Unmap_def split: addr.splits)

lemma ParseAddr_valid: "netip_ParseAddr s = Inr a \<Longrightarrow> addr_IsValid a"
  by (auto simp: netip_ParseAddr_def parse_ipv4_def parse_ipv6_def addr_IsValid_def Let_def
      split: option.splits if_splits)

section \<open>Prefixes\<close>

text \<open>\<^verbatim>\<open>netip.Prefix\<close>: the zero value, or a valid address with a bit length within it.\<close>

datatype netprefix = PrefixZero | Prefix addr nat

definition prefix_Bits :: "netprefix \<Rightarrow> int" where
  "prefix_Bits p = (case p of PrefixZero \<Rightarrow> - 1 | Prefix _ n \<Rightarrow> int n)"

definition prefix_wf :: "netprefix \<Rightarrow> bool" where
  "prefix_wf p = (case p of PrefixZero \<Rightarrow> True
     | Prefix a n \<Rightarrow> addr_IsValid a \<and> n \<le> addr_BitLen a \<and> addr_Zone a = [])"

definition high_mask :: "nat \<Rightarrow> 'a :: len word" where
  "high_mask n = NOT (mask (LENGTH('a) - n))"

definition prefix_Contains :: "netprefix \<Rightarrow> addr \<Rightarrow> bool" where
  "prefix_Contains p a = (case p of
     Prefix (Addr4 x) n \<Rightarrow> (case a of Addr4 y \<Rightarrow> drop_bit (32 - n) (x XOR y) = 0 | _ \<Rightarrow> False)
   | Prefix (Addr6 x _) n \<Rightarrow>
       (case a of Addr6 y z \<Rightarrow> z = [] \<and> (x XOR y) AND high_mask n = 0 | _ \<Rightarrow> False)
   | _ \<Rightarrow> False)"

definition prefix_Masked :: "netprefix \<Rightarrow> netprefix" where
  "prefix_Masked p = (case p of
     Prefix (Addr4 x) n \<Rightarrow> Prefix (Addr4 (x AND high_mask n)) n
   | Prefix (Addr6 x _) n \<Rightarrow> Prefix (Addr6 (x AND high_mask n) []) n
   | _ \<Rightarrow> PrefixZero)"

definition prefix_String :: "netprefix \<Rightarrow> string" where
  "prefix_String p = (case p of PrefixZero \<Rightarrow> ''invalid Prefix''
     | Prefix a n \<Rightarrow> addr_String a @ ''/'' @ strconv_Itoa (int n))"

definition split_last :: "char \<Rightarrow> string \<Rightarrow> (string \<times> string) option" where
  "split_last sep s =
     (if sep \<in> set s
      then Some (rev (tl (dropWhile (\<lambda>c. c \<noteq> sep) (rev s))), rev (takeWhile (\<lambda>c. c \<noteq> sep) (rev s)))
      else None)"

definition netip_ParsePrefix :: "string \<Rightarrow> error + netprefix" where
  "netip_ParsePrefix s = (case split_last CHR ''/'' s of
     None \<Rightarrow> Inl (External ''ParsePrefix'')
   | Some (ip_str, bits_str) \<Rightarrow>
       bindE (netip_ParseAddr ip_str) (\<lambda>ip.
       bindE (guardE (addr_Zone ip = []) (External ''ParsePrefix'')) (\<lambda>_.
       bindE (guardE (\<not> (1 < length bits_str \<and>
                \<not> (CHR ''1'' \<le> hd bits_str \<and> hd bits_str \<le> CHR ''9''))) (External ''ParsePrefix''))
         (\<lambda>_.
       bindE (strconv_Atoi bits_str) (\<lambda>bits.
       if bits < 0 \<or> int (addr_BitLen ip) < bits then Inl (External ''ParsePrefix'')
       else Inr (Prefix ip (nat bits)))))))"

lemma ParsePrefix_wf: "netip_ParsePrefix s = Inr p \<Longrightarrow> prefix_wf p \<and> p \<noteq> PrefixZero"
  by (auto simp: netip_ParsePrefix_def bindE_eq_Inr prefix_wf_def ParseAddr_valid
      split: option.splits prod.splits if_splits)

lemma bit_high_mask:
  "bit (high_mask n :: 'a :: len word) i \<longleftrightarrow> LENGTH('a) - n \<le> i \<and> i < LENGTH('a)"
  by (auto simp: high_mask_def bit_simps)

text \<open>Containment is agreement on the leading bits, for both families.\<close>

lemma agree_drop_bit:
  "drop_bit (LENGTH('a) - n) ((x :: 'a :: len word) XOR y) = 0
   \<longleftrightarrow> (\<forall>i. LENGTH('a) - n \<le> i \<and> i < LENGTH('a) \<longrightarrow> bit x i = bit y i)"
proof
  assume z: "drop_bit (LENGTH('a) - n) (x XOR y) = 0"
  show "\<forall>i. LENGTH('a) - n \<le> i \<and> i < LENGTH('a) \<longrightarrow> bit x i = bit y i"
  proof (intro allI impI)
    fix i assume i: "LENGTH('a) - n \<le> i \<and> i < LENGTH('a)"
    have "bit (drop_bit (LENGTH('a) - n) (x XOR y)) (i - (LENGTH('a) - n)) \<longleftrightarrow> bit x i \<noteq> bit y i"
      using i by (simp add: bit_simps)
    with z show "bit x i = bit y i" by simp
  qed
next
  assume all: "\<forall>i. LENGTH('a) - n \<le> i \<and> i < LENGTH('a) \<longrightarrow> bit x i = bit y i"
  have "bit x (LENGTH('a) - n + i) = bit y (LENGTH('a) - n + i)" for i
    using all by (metis bit_imp_le_length le_add1)
  then show "drop_bit (LENGTH('a) - n) (x XOR y) = 0"
    by (intro bit_word_eqI) (auto simp: bit_simps)
qed

lemma agree_high_mask:
  "((x :: 'a :: len word) XOR y) AND high_mask n = 0
   \<longleftrightarrow> (\<forall>i. LENGTH('a) - n \<le> i \<and> i < LENGTH('a) \<longrightarrow> bit x i = bit y i)"
proof
  assume z: "(x XOR y) AND high_mask n = 0"
  show "\<forall>i. LENGTH('a) - n \<le> i \<and> i < LENGTH('a) \<longrightarrow> bit x i = bit y i"
  proof (intro allI impI)
    fix i assume i: "LENGTH('a) - n \<le> i \<and> i < LENGTH('a)"
    then have "bit ((x XOR y) AND high_mask n) i \<longleftrightarrow> bit x i \<noteq> bit y i"
      by (simp add: bit_simps bit_high_mask)
    with z show "bit x i = bit y i" by simp
  qed
next
  assume "\<forall>i. LENGTH('a) - n \<le> i \<and> i < LENGTH('a) \<longrightarrow> bit x i = bit y i"
  then show "(x XOR y) AND high_mask n = 0"
    by (intro bit_word_eqI) (auto simp: bit_simps bit_high_mask)
qed

section \<open>Byte-slice addresses of package net\<close>

type_synonym net_ip = "byte list"

text \<open>The twelve bytes that mark an IPv4 address in IPv6 form, and \<^verbatim>\<open>Addr.As16\<close>.\<close>

definition v4_in_v6_prefix :: "byte list" where
  "v4_in_v6_prefix = replicate 10 0 @ [0xFF, 0xFF]"

definition addr_As16 :: "addr \<Rightarrow> byte list" where
  "addr_As16 a = (case a of
     AddrZero \<Rightarrow> replicate 16 0
   | Addr4 w \<Rightarrow> v4_in_v6_prefix @ map word_of_nat (v4_octets w)
   | Addr6 w _ \<Rightarrow> map word_of_nat (digits_be 256 16 (unat w)))"

definition net_To4 :: "net_ip \<Rightarrow> net_ip option" where
  "net_To4 ip =
     (if length ip = 4 then Some ip
      else if length ip = 16 \<and> take 12 ip = v4_in_v6_prefix then Some (drop 12 ip)
      else None)"

text \<open>\<^verbatim>\<open>net.CIDRMask\<close> for a length within the width.\<close>

definition net_CIDRMask :: "nat \<Rightarrow> nat \<Rightarrow> byte list" where
  "net_CIDRMask ones bits =
     map (\<lambda>i. if 8 * (i + 1) \<le> ones then 0xFF
              else if ones \<le> 8 * i then 0
              else NOT (drop_bit (ones - 8 * i) 0xFF))
       [0..<bits div 8]"

text \<open>\<^verbatim>\<open>IP.Mask\<close>; the nil result for incompatible lengths is the empty list.\<close>

definition net_Mask :: "net_ip \<Rightarrow> byte list \<Rightarrow> net_ip" where
  "net_Mask ip m =
     (let m1 = (if length m = 16 \<and> length ip = 4 \<and> take 12 m = replicate 12 0xFF
                then drop 12 m else m);
          ip1 = (if length m1 = 4 \<and> length ip = 16 \<and> take 12 ip = v4_in_v6_prefix
                 then drop 12 ip else ip)
      in if length ip1 \<noteq> length m1 then [] else map2 (AND) ip1 m1)"

record ip_net =
  net_IP :: net_ip
  net_mask :: "byte list"

definition net_number_and_mask :: "ip_net \<Rightarrow> (net_ip \<times> byte list) option" where
  "net_number_and_mask n =
     (let ip = (case net_To4 (net_IP n) of Some x \<Rightarrow> x | None \<Rightarrow> net_IP n) in
      if length ip \<noteq> 4 \<and> length ip \<noteq> 16 then None
      else if length (net_mask n) = 4 then
        (if length ip = 4 then Some (ip, net_mask n) else None)
      else if length (net_mask n) = 16 then
        Some (ip, if length ip = 4 then drop 12 (net_mask n) else net_mask n)
      else None)"

definition ipnet_Contains :: "ip_net \<Rightarrow> net_ip \<Rightarrow> bool" where
  "ipnet_Contains n ip =
     (case net_number_and_mask n of
        None \<Rightarrow> ip = []
      | Some (nn, m) \<Rightarrow>
          (let x = (case net_To4 ip of Some y \<Rightarrow> y | None \<Rightarrow> ip) in
           length x = length nn \<and> map2 (AND) nn m = map2 (AND) x m))"

definition net_IP_String :: "net_ip \<Rightarrow> string" where
  "net_IP_String ip =
     (case net_To4 ip of
        Some q \<Rightarrow> string4 (v4_of_octets (map unat q))
      | None \<Rightarrow>
          if ip = [] then ''<nil>''
          else if length ip = 16 then addr_String (Addr6 (word_of_nat (horner 256 0 (map unat ip))) [])
          else CHR ''?'' # hex_EncodeToString (map (\<lambda>b. chr (unat b)) ip))"

definition split_first :: "char \<Rightarrow> string \<Rightarrow> (string \<times> string) option" where
  "split_first sep s =
     (if sep \<in> set s
      then Some (takeWhile (\<lambda>c. c \<noteq> sep) s, tl (dropWhile (\<lambda>c. c \<noteq> sep) s)) else None)"

definition net_ParseCIDR :: "string \<Rightarrow> error + net_ip \<times> ip_net" where
  "net_ParseCIDR s = (case split_first CHR ''/'' s of
     None \<Rightarrow> Inl (External ''invalid CIDR address'')
   | Some (addr, m) \<Rightarrow>
       (case netip_ParseAddr addr of
          Inl e \<Rightarrow> Inl (External ''invalid CIDR address'')
        | Inr a \<Rightarrow>
            (case parse_digits m of
               None \<Rightarrow> Inl (External ''invalid CIDR address'')
             | Some n \<Rightarrow>
                 if addr_Zone a \<noteq> [] \<or> addr_BitLen a < n
                 then Inl (External ''invalid CIDR address'')
                 else (let mask = net_CIDRMask n (addr_BitLen a); ip = addr_As16 a in
                       Inr (ip, \<lparr>net_IP = net_Mask ip mask, net_mask = mask\<rparr>)))))"

end
