(* ===== verification/Models.thy ===== *)
theory Models
  imports GoStrings
begin

text \<open>
  The data types of \<^verbatim>\<open>internal/models/types.go\<close>: one record per struct, with the fields in
  the order of the source. A prefix keeps the field names of different structs apart. Go's
  \<^verbatim>\<open>int\<close> fields are HOL integers: ports and scores stay far inside 64 bits.
\<close>

record scan_result =
  sr_TargetName :: string
  sr_TargetIP :: string
  sr_Port :: int
  sr_Protocol :: string
  sr_State :: string
  sr_Banner :: string
  sr_OSHint :: string
  sr_CertSubject :: string
  sr_CertIssuer :: string
  sr_SANs :: "string list"
  sr_TLSVersion :: string
  sr_CipherSuite :: string
  sr_CertVerified :: bool
  sr_CertNotBefore :: string
  sr_CertNotAfter :: string

text \<open>The zero value a Go composite literal starts from.\<close>

definition zero_scan_result :: scan_result where
  "zero_scan_result =
     \<lparr>sr_TargetName = [], sr_TargetIP = [], sr_Port = 0, sr_Protocol = [], sr_State = [],
      sr_Banner = [], sr_OSHint = [], sr_CertSubject = [], sr_CertIssuer = [], sr_SANs = [],
      sr_TLSVersion = [], sr_CipherSuite = [], sr_CertVerified = False, sr_CertNotBefore = [],
      sr_CertNotAfter = []\<rparr>"

record scan_job =
  job_TargetIP :: string
  job_TargetName :: string
  job_Port :: int
  job_Protocol :: string

record scanner_meta =
  sm_Name :: string
  sm_Version :: string

record asset_identity =
  asset_IP :: string
  asset_Hostname :: string
  asset_Environment :: string
  asset_Criticality :: string
  asset_Owner :: string

record network_observation =
  no_Protocol :: string
  no_Port :: int
  no_State :: string

record state_change =
  chg_Type :: string
  chg_PreviousState :: string

record risk_meta =
  risk_PolicyVersion :: string
  risk_Score :: int
  risk_Severity :: string
  risk_Reasons :: string

record lifecycle_event =
  ev_SchemaVersion :: string
  ev_EventID :: string
  ev_ScanID :: string
  ev_ScopeID :: string
  ev_Timestamp :: string
  ev_EventType :: string
  ev_Scanner :: scanner_meta
  ev_Asset :: asset_identity
  ev_Network :: network_observation
  ev_Change :: state_change
  ev_Risk :: risk_meta

end
