(* ===== verification/TargetParser.thy ===== *)
theory TargetParser
  imports NetAddr Models "HOL-Library.While_Combinator"
begin

unbundle bit_operations_syntax

text \<open>
  \<^verbatim>\<open>internal/utils\<close>: the lexical rule for target lines, CIDR expansion, port ranges, the
  job producer and the operating-system hint of a banner.

  The producer polls its context before each send and then selects between cancellation
  and the send. A run of it is determined by what the polls see: \<open>ctx_err t\<close> is the value of
  \<^verbatim>\<open>ctx.Err()\<close> at the \<open>t\<close>-th look at the context, \<open>take_done t\<close> says that a select whose
  context is done takes the cancellation branch (Go chooses at random when the send is ready
  too). DNS resolution and the HTTP client are arguments.
\<close>

section \<open>Lines\<close>

definition ParseTargetLine :: "string \<Rightarrow> string option" where
  "ParseTargetLine line =
     (let target = strings_TrimSpace line in
      if target = [] \<or> strings_HasPrefix target ''#'' then None else Some target)"

section \<open>CIDR blocks\<close>

fun inc_bytes :: "byte list \<Rightarrow> byte list" where
  "inc_bytes [] = []"
| "inc_bytes (b # bs) = (if 0 < b + 1 then (b + 1) # bs else (b + 1) # inc_bytes bs)"

definition incIP :: "net_ip \<Rightarrow> net_ip" where
  "incIP ip = rev (inc_bytes (rev ip))"

text \<open>The loop over the block; \<^term>\<open>None\<close> when it does not end.\<close>

definition expand_loop :: "ip_net \<Rightarrow> net_ip \<Rightarrow> (net_ip \<times> string list) option" where
  "expand_loop ipnet start =
     while_option (\<lambda>(ip, ips). ipnet_Contains ipnet ip)
       (\<lambda>(ip, ips). (incIP ip, ips @ [net_IP_String ip]))
       (start, [])"

definition expandCIDR :: "string \<Rightarrow> (error + string list) option" where
  "expandCIDR cidr = (case net_ParseCIDR cidr of
     Inl e \<Rightarrow> Some (Inl e)
   | Inr (ip, ipnet) \<Rightarrow>
       (case expand_loop ipnet (net_Mask ip (net_mask ipnet)) of
          None \<Rightarrow> None
        | Some (_, ips) \<Rightarrow> Some (Inr (if 2 < length ips then butlast (tl ips) else ips))))"

section \<open>Port ranges\<close>

function port_loop :: "int \<Rightarrow> int \<Rightarrow> error + int list" where
  "port_loop p hi =
     (if p \<le> hi then
        (if p < 1 \<or> 65535 < p then Inl (Errorf ''port out of range (1-65535)'')
         else bindE (port_loop (p + 1) hi) (\<lambda>ps. Inr (p # ps)))
      else Inr [])"
  by pat_completeness auto
termination
  by (relation "measure (\<lambda>(p, hi). nat (hi + 1 - p))") auto

declare port_loop.simps [simp del]

definition as_err :: "string \<Rightarrow> error + 'a \<Rightarrow> error + 'a" where
  "as_err msg r = (case r of Inl _ \<Rightarrow> Inl (Errorf msg) | Inr x \<Rightarrow> Inr x)"

definition parse_port_part :: "string \<Rightarrow> error + int list" where
  "parse_port_part part0 =
     (let part = strings_TrimSpace part0 in
      if strings_Contains part ''-'' then
        (case strings_Split part CHR ''-'' of
           [b0, b1] \<Rightarrow>
             bindE (as_err ''invalid port range syntax'' (strconv_Atoi (strings_TrimSpace b0)))
               (\<lambda>start.
             bindE (as_err ''invalid port range syntax'' (strconv_Atoi (strings_TrimSpace b1)))
               (\<lambda>hi.
             if hi < start then Inl (Errorf ''invalid port range syntax'')
             else port_loop start hi))
         | _ \<Rightarrow> Inl (Errorf ''invalid port range syntax''))
      else
        bindE (as_err ''invalid port syntax'' (strconv_Atoi part)) (\<lambda>p.
        if p < 1 \<or> 65535 < p then Inl (Errorf ''port out of range (1-65535)'')
        else Inr [p]))"

fun parse_port_parts :: "string list \<Rightarrow> error + int list" where
  "parse_port_parts [] = Inr []"
| "parse_port_parts (p # ps) =
     bindE (parse_port_part p) (\<lambda>xs. bindE (parse_port_parts ps) (\<lambda>ys. Inr (xs @ ys)))"

definition ParsePortRange :: "string \<Rightarrow> error + int list" where
  "ParsePortRange portStr = parse_port_parts (strings_Split portStr CHR '','')"

section \<open>The operating-system hint\<close>

definition FingerprintOS :: "(nat \<Rightarrow> nat) \<Rightarrow> string \<Rightarrow> string" where
  "FingerprintOS uni banner =
     (if banner = [] then []
      else
        let normalized = strings_ToLower uni banner in
        if strings_Contains normalized ''ubuntu'' then ''Ubuntu Linux''
        else if strings_Contains normalized ''debian'' then ''Debian Linux''
        else if strings_Contains normalized ''centos'' then ''CentOS Linux''
        else if strings_Contains normalized ''freebsd'' then ''FreeBSD''
        else if strings_Contains normalized ''windows'' \<or> strings_Contains normalized ''iis''
             \<or> strings_Contains normalized ''win32'' then ''Microsoft Windows''
        else ''Unknown/Obfuscated'')"

section \<open>The job producer\<close>

record ctx_env =
  ctx_err :: "nat \<Rightarrow> error option"
  take_done :: "nat \<Rightarrow> bool"

text \<open>The state of the producer: how often it looked at its context, and the jobs sent.\<close>

record producer =
  looks :: nat
  sent :: "scan_job list"

definition look :: "producer \<Rightarrow> producer" where
  "look st = st\<lparr>looks := Suc (looks st)\<rparr>"

text \<open>One turn of a port loop: the poll, then the select.\<close>

definition send_job :: "ctx_env \<Rightarrow> scan_job \<Rightarrow> producer \<Rightarrow> error option \<times> producer" where
  "send_job env job st =
     (case ctx_err env (looks st) of
        Some e \<Rightarrow> (Some e, look st)
      | None \<Rightarrow>
          (let st = look st in
           case ctx_err env (looks st) of
             Some e \<Rightarrow> if take_done env (looks st) then (Some e, look st)
                       else (None, look (st\<lparr>sent := sent st @ [job]\<rparr>))
           | None \<Rightarrow> (None, look (st\<lparr>sent := sent st @ [job]\<rparr>))))"

fun send_jobs :: "ctx_env \<Rightarrow> scan_job list \<Rightarrow> producer \<Rightarrow> error option \<times> producer" where
  "send_jobs env [] st = (None, st)"
| "send_jobs env (j # js) st =
     (case send_job env j st of
        (Some e, st) \<Rightarrow> (Some e, st)
      | (None, st) \<Rightarrow> send_jobs env js st)"

definition port_jobs :: "string \<Rightarrow> string \<Rightarrow> string \<Rightarrow> int list \<Rightarrow> scan_job list" where
  "port_jobs ip targetName proto ports =
     map (\<lambda>port. \<lparr>job_TargetIP = ip, job_TargetName = targetName, job_Port = port,
                  job_Protocol = proto\<rparr>) ports"

definition dispatchJobs ::
  "ctx_env \<Rightarrow> string \<Rightarrow> string \<Rightarrow> int list \<Rightarrow> int list \<Rightarrow> producer
   \<Rightarrow> error option \<times> producer" where
  "dispatchJobs env ip targetName tcpPorts udpPorts st =
     (case send_jobs env (port_jobs ip targetName ''tcp'' tcpPorts) st of
        (Some e, st) \<Rightarrow> (Some e, st)
      | (None, st) \<Rightarrow>
          (case send_jobs env (port_jobs ip targetName ''udp'' udpPorts) st of
             (Some e, st) \<Rightarrow> (Some e, st)
           | (None, st) \<Rightarrow> (ctx_err env (looks st), look st)))"

fun dispatch_ips ::
  "ctx_env \<Rightarrow> string list \<Rightarrow> string \<Rightarrow> int list \<Rightarrow> int list \<Rightarrow> producer
   \<Rightarrow> error option \<times> producer" where
  "dispatch_ips env [] line tcpPorts udpPorts st = (None, st)"
| "dispatch_ips env (ip # ips) line tcpPorts udpPorts st =
     (case dispatchJobs env ip line tcpPorts udpPorts st of
        (Some e, st) \<Rightarrow> (Some e, st)
      | (None, st) \<Rightarrow> dispatch_ips env ips line tcpPorts udpPorts st)"

definition keep_first :: "error option \<Rightarrow> error \<Rightarrow> error option" where
  "keep_first streamErr e = (case streamErr of None \<Rightarrow> Some e | Some _ \<Rightarrow> streamErr)"

text \<open>The addresses of one target: those of a CIDR block, or those a host name resolves to.\<close>

definition resolve_target ::
  "(string \<Rightarrow> error + string list) \<Rightarrow> string \<Rightarrow> (error + string list) option" where
  "resolve_target lookupIP line =
     (if strings_Contains line ''/''
      then map_option (map_sum (\<lambda>_. Wrapf (Sentinel ErrTargetParse) ''invalid CIDR'') id)
             (expandCIDR line)
      else Some (map_sum (\<lambda>_. Wrapf (Sentinel ErrTargetResolution) ''target'') id
             (lookupIP line)))"

fun stream_lines ::
  "ctx_env \<Rightarrow> (string \<Rightarrow> error + string list) \<Rightarrow> int list \<Rightarrow> int list \<Rightarrow> error option
   \<Rightarrow> string list \<Rightarrow> error option \<Rightarrow> producer \<Rightarrow> (error option \<times> producer) option" where
  "stream_lines env lookupIP tcpPorts udpPorts scanErr [] streamErr st =
     Some (case scanErr of
             None \<Rightarrow> streamErr
           | Some _ \<Rightarrow> keep_first streamErr
               (Wrapf (Sentinel ErrTargetParse) ''target stream read failed''), st)"
| "stream_lines env lookupIP tcpPorts udpPorts scanErr (text # texts) streamErr st =
     (case ParseTargetLine text of
        None \<Rightarrow> stream_lines env lookupIP tcpPorts udpPorts scanErr texts streamErr st
      | Some line \<Rightarrow>
          (case resolve_target lookupIP line of
             None \<Rightarrow> None
           | Some (Inl e) \<Rightarrow>
               stream_lines env lookupIP tcpPorts udpPorts scanErr texts
                 (keep_first streamErr e) st
           | Some (Inr ips) \<Rightarrow>
               (case dispatch_ips env ips line tcpPorts udpPorts st of
                  (Some e, st) \<Rightarrow> Some (Some e, st)
                | (None, st) \<Rightarrow>
                    stream_lines env lookupIP tcpPorts udpPorts scanErr texts streamErr st)))"

text \<open>\<^term>\<open>None\<close> means that the producer does not return: see \<open>expandCIDR\<close>.\<close>

definition StreamTargets ::
  "ctx_env \<Rightarrow> (string \<Rightarrow> error + string list) \<Rightarrow> string \<Rightarrow> error option \<Rightarrow> int list \<Rightarrow> int list
   \<Rightarrow> producer \<Rightarrow> (error option \<times> producer) option" where
  "StreamTargets env lookupIP text readErr tcpPorts udpPorts st =
     (case scanner_Lines text readErr of
        (lines, scanErr) \<Rightarrow>
          stream_lines env lookupIP tcpPorts udpPorts scanErr lines None st)"

section \<open>Remote target lists\<close>

text \<open>An \<^verbatim>\<open>io.ReadCloser\<close>: the text it delivers, the error its reading ends with instead of \<^verbatim>\<open>io.EOF\<close>, and the
  error of closing it. The body of a response is one: the time-out of the client also covers its reading.\<close>

record target_reader =
  tr_text :: string
  tr_err :: "error option"
  tr_close :: "error option"

record http_response =
  http_StatusCode :: int
  http_Body :: target_reader

text \<open>
  The request constructor and the client are arguments. The second component says whether
  the response body was closed; a body that is returned is left open for its reader.
\<close>

definition FetchTargets ::
  "(string \<Rightarrow> error option) \<Rightarrow> (string \<Rightarrow> error + http_response) \<Rightarrow> string
   \<Rightarrow> (error + target_reader) \<times> bool" where
  "FetchTargets newRequest clientDo targetURL =
     (case newRequest targetURL of
        Some e \<Rightarrow> (Inl (Wrapf e ''failed to construct request''), False)
      | None \<Rightarrow>
          (case clientDo targetURL of
             Inl e \<Rightarrow> (Inl (Wrapf e ''target fetch failed''), False)
           | Inr resp \<Rightarrow>
               if http_StatusCode resp \<noteq> 200
               then (Inl (Errorf ''unexpected HTTP status''), True)
               else (Inr (http_Body resp), False)))"

section \<open>Addresses as numbers\<close>

definition be_val :: "byte list \<Rightarrow> nat" where
  "be_val ip = horner 256 0 (map unat ip)"

lemma horner_snoc_val: "be_val (bs @ [b]) = 256 * be_val bs + unat b"
  by (simp add: be_val_def horner_append)

lemma be_val_bound: "be_val ip < 256 ^ length ip"
proof -
  have "\<forall>d\<in>set (map unat ip). d < 256"
    using unat_bound [where 'a = 8] by auto
  from horner_bound [OF this, of 0] show ?thesis by (simp add: be_val_def)
qed

lemma be_val_inj: "length xs = length ys \<Longrightarrow> be_val xs = be_val ys \<Longrightarrow> xs = ys"
proof -
  assume a: "length xs = length ys" "be_val xs = be_val ys"
  have "map unat zs = digits_be 256 (length zs) (be_val zs)" for zs :: "byte list"
  proof -
    have "\<forall>d\<in>set (map unat zs). d < 256"
      using unat_bound [where 'a = 8] by auto
    from digits_be_horner [OF this] show ?thesis by (simp add: be_val_def)
  qed
  with a have "map unat xs = map unat ys" by metis
  then show ?thesis by (simp add: inj_on_map_eq_map [OF inj_onI] word_unat_eq_iff)
qed

lemma unat_byte_succ: "unat (b + 1 :: byte) = (if b + 1 = 0 then 0 else unat b + 1)"
  using unat_bound [of b] by (cases "unat b = 255") (auto simp: unat_word_ariths word_unat_eq_iff)

lemma length_inc_bytes [simp]: "length (inc_bytes bs) = length bs"
  by (induction bs) (auto simp: Let_def)

lemma length_incIP [simp]: "length (incIP ip) = length ip"
  by (simp add: incIP_def)


lemma byte_max: "b + 1 = (0 :: byte) \<longleftrightarrow> unat b = 255"
  using unat_bound [of b] by (cases "unat b = 255") (auto simp: unat_word_ariths word_unat_eq_iff)

lemma be_val_incIP: "be_val (incIP ip) = (be_val ip + 1) mod 256 ^ length ip"
proof (induction ip rule: rev_induct)
  case (snoc b bs)
  have v: "be_val bs < 256 ^ length bs" by (rule be_val_bound)
  show ?case
  proof (cases "b + 1 = 0")
    case False
    then have "incIP (bs @ [b]) = bs @ [b + 1]"
      by (simp add: incIP_def word_gt_0)
    moreover have "256 * be_val bs + unat b + 1 < 256 * 256 ^ length bs"
    proof -
      have "unat b + 1 < 256"
        using False byte_max [of b] unat_bound [of b] by simp
      with v show ?thesis by linarith
    qed
    ultimately show ?thesis using False
      by (simp add: horner_snoc_val unat_byte_succ)
  next
    case True
    then have "incIP (bs @ [b]) = incIP bs @ [0]"
      by (simp add: incIP_def)
    moreover have "unat b = 255"
      using True byte_max by blast
    ultimately have "be_val (incIP (bs @ [b])) = 256 * ((be_val bs + 1) mod 256 ^ length bs)"
      "be_val (bs @ [b]) + 1 = 256 * (be_val bs + 1)"
      using snoc.IH by (simp_all add: horner_snoc_val)
    then show ?thesis by (simp add: mult_mod_right)
  qed
qed (simp add: incIP_def be_val_def)

section \<open>IPv4 blocks\<close>

definition bytes4 :: "32 word \<Rightarrow> byte list" where
  "bytes4 w = map word_of_nat (v4_octets w)"

lemma length_bytes4 [simp]: "length (bytes4 w) = 4"
  by (simp add: bytes4_def v4_octets_props)

lemma unat_octets: "\<forall>d\<in>set ds. d < 256 \<Longrightarrow> map (unat \<circ> (word_of_nat :: nat \<Rightarrow> byte)) ds = ds"
  by (induction ds) (auto simp: unat_of_nat)

lemma map_unat_bytes4: "map unat (bytes4 w) = v4_octets w"
  using v4_octets_props(2) by (simp add: bytes4_def unat_octets)

lemma be_val_bytes4: "be_val (bytes4 w) = unat w"
  using unat_bound [of w]
  by (simp add: be_val_def map_unat_bytes4) (simp add: v4_octets_def horner_digits_be)

lemma v4_of_bytes4: "v4_of_octets (map unat (bytes4 w)) = w"
  by (simp add: map_unat_bytes4)

lemma incIP_bytes4: "incIP (bytes4 w) = bytes4 (w + 1)"
proof (rule be_val_inj)
  show "be_val (incIP (bytes4 w)) = be_val (bytes4 (w + 1))"
    by (simp add: be_val_incIP be_val_bytes4 unat_word_ariths)
qed simp

lemma bytes4_ucast:
  "bytes4 w = [ucast (drop_bit 24 w), ucast (drop_bit 16 w), ucast (drop_bit 8 w), ucast w]"
proof -
  have "word_of_nat (unat w div 2 ^ k mod 256) = (ucast (drop_bit k w) :: byte)" for k
    by (rule word_unat_eq_iff [THEN iffD2])
       (simp only: unat_of_nat unsigned_ucast_eq unat_drop_bit_eq, simp add: take_bit_eq_mod drop_bit_eq_div)
  from this [of 24] this [of 16] this [of 8] this [of 0] show ?thesis
    by (simp add: bytes4_def v4_octets_def digits_be_4 div_mult2_eq [symmetric])
qed

lemma map2_and_bytes4: "map2 (AND) (bytes4 x) (bytes4 y) = bytes4 (x AND y)"
  by (auto simp: bytes4_ucast intro!: bit_word_eqI simp: bit_simps)

lemma bytes4_inj: "bytes4 x = bytes4 y \<longleftrightarrow> x = y"
  using be_val_bytes4 by (metis word_unat_eq_iff)

lemma ucast_m1: "ucast (-1 :: 32 word) = (255 :: byte)"
  by (rule word_unat_eq_iff [THEN iffD2])
     (simp add: unsigned_ucast_eq unsigned_minus_1_eq_mask mask_eq_exp_minus_1 take_bit_eq_mod)

lemma CIDRMask4: "n \<le> 32 \<Longrightarrow> net_CIDRMask n 32 = bytes4 (high_mask n)"
proof -
  have "\<forall>n\<in>set [0..<33]. net_CIDRMask n 32 = bytes4 (high_mask n)"
    by (simp add: net_CIDRMask_def bytes4_ucast high_mask_def upt_rec mask_eq_exp_minus_1 ucast_m1)
  then show "n \<le> 32 \<Longrightarrow> ?thesis" by simp
qed

lemma high_mask_unat:
  assumes "n \<le> 32"
  shows "unat ((x :: 32 word) AND high_mask n) = unat x div 2 ^ (32 - n) * 2 ^ (32 - n)"
proof -
  have "x AND high_mask n = push_bit (32 - n) (drop_bit (32 - n) x)"
    by (rule bit_word_eqI) (auto simp: bit_simps bit_high_mask)
  then have "unat (x AND high_mask n) = take_bit 32 (push_bit (32 - n) (drop_bit (32 - n) (unat x)))"
    by (simp add: unsigned_push_bit_eq unat_drop_bit_eq)
  also have "\<dots> = unat x div 2 ^ (32 - n) * 2 ^ (32 - n) mod 2 ^ 32"
    by (simp add: take_bit_eq_mod push_bit_eq_mult drop_bit_eq_div)
  also have "\<dots> = unat x div 2 ^ (32 - n) * 2 ^ (32 - n)"
    using order_le_less_trans [OF div_times_less_eq_dividend [of "unat x" "2 ^ (32 - n)"] unat_bound [of x]]
    by (intro mod_less) simp
  finally show ?thesis .
qed

definition v4_base :: "nat \<Rightarrow> 32 word \<Rightarrow> 32 word" where
  "v4_base n w = w AND high_mask n"

lemma v4_base_step:
  assumes n: "1 \<le> n" "n \<le> 32" and k: "k < 2 ^ (32 - n)"
  shows "(v4_base n w + of_nat k) AND high_mask n = v4_base n w"
    and "(v4_base n w + of_nat (2 ^ (32 - n))) AND high_mask n \<noteq> v4_base n w"
proof -
  define N :: nat where "N = 2 ^ (32 - n)"
  define q where "q = unat w div N"
  have NN: "N * 2 ^ n = 2 ^ 32" using n by (simp add: N_def flip: power_add)
  have b: "unat (v4_base n w) = q * N"
    using n by (simp add: v4_base_def high_mask_unat q_def N_def)
  have q: "q < 2 ^ n"
    unfolding q_def using unat_bound [of w] NN by (intro less_mult_imp_div_less) (simp add: mult.commute)
  have top: "q * N + N \<le> 2 ^ 32"
  proof -
    have "(q + 1) * N \<le> 2 ^ n * N" using q by (intro mult_right_mono) auto
    with NN show ?thesis by (simp add: mult.commute algebra_simps)
  qed
  have unat_k: "unat (v4_base n w + of_nat j) = (q * N + j) mod 2 ^ 32" for j
    by (simp add: unat_word_ariths b unat_of_nat mod_simps)
  show "(v4_base n w + of_nat k) AND high_mask n = v4_base n w"
  proof (rule word_unat_eq_iff [THEN iffD2])
    have "q * N + k < 2 ^ 32" using k top by (simp add: N_def [symmetric])
    then have "unat (v4_base n w + of_nat k) div N = q"
      using k by (simp add: unat_k N_def [symmetric])
    then show "unat ((v4_base n w + of_nat k) AND high_mask n) = unat (v4_base n w)"
      using n by (simp add: high_mask_unat b flip: N_def)
  qed
  show "(v4_base n w + of_nat (2 ^ (32 - n))) AND high_mask n \<noteq> v4_base n w"
  proof
    assume "(v4_base n w + of_nat (2 ^ (32 - n))) AND high_mask n = v4_base n w"
    then have eq: "(q * N + N) mod 2 ^ 32 div N * N = q * N"
      using n by (metis N_def b high_mask_unat unat_k)
    show False
    proof (cases "q * N + N = 2 ^ 32")
      case True
      with eq have "q * N = 0" by simp
      with True have "N = 2 ^ 32" by simp
      moreover have "N < 2 ^ 32" unfolding N_def using n by (intro power_strict_increasing) auto
      ultimately show False by simp
    next
      case False
      with top eq have "(q * N + N) div N * N = q * N" by simp
      moreover have "(q * N + N) div N = q + 1" by (simp add: N_def)
      ultimately show False by (simp add: N_def)
    qed
  qed
qed

lemma while_option_run:
  assumes "\<And>k. k < m \<Longrightarrow> b (s k) \<and> c (s k) = s (Suc k)" "\<not> b (s m)"
  shows "while_option b c (s 0) = Some (s m)"
proof -
  have "while_option b c (s (m - j)) = Some (s m)" if "j \<le> m" for j
    using that
  proof (induction j)
    case 0
    with assms(2) show ?case by (simp add: while_option_unfold)
  next
    case (Suc j)
    then have "Suc (m - Suc j) = m - j" "m - Suc j < m" by auto
    with assms(1) [of "m - Suc j"] Suc show ?case by (subst while_option_unfold) simp
  qed
  from this [of m] show ?thesis by simp
qed

definition v4_net :: "nat \<Rightarrow> 32 word \<Rightarrow> ip_net" where
  "v4_net n w = \<lparr>net_IP = bytes4 (v4_base n w), net_mask = bytes4 (high_mask n)\<rparr>"

lemma net_To4_bytes4 [simp]: "net_To4 (bytes4 w) = Some (bytes4 w)"
  by (simp add: net_To4_def)

lemma Contains_v4_net:
  "ipnet_Contains (v4_net n w) (bytes4 x) \<longleftrightarrow> x AND high_mask n = v4_base n w"
proof -
  have "v4_base n w AND high_mask n = v4_base n w"
    by (simp add: v4_base_def ac_simps)
  then show ?thesis
    by (auto simp: ipnet_Contains_def net_number_and_mask_def v4_net_def map2_and_bytes4 bytes4_inj)
qed

lemma IP_String_bytes4: "net_IP_String (bytes4 w) = string4 w"
  by (simp add: net_IP_String_def v4_of_bytes4)

definition v4_block :: "nat \<Rightarrow> 32 word \<Rightarrow> string list" where
  "v4_block n w = map (\<lambda>i. string4 (v4_base n w + of_nat i)) [0..<2 ^ (32 - n)]"

lemma expand_loop_v4:
  assumes "1 \<le> n" "n \<le> 32"
  shows "expand_loop (v4_net n w) (bytes4 (v4_base n w)) =
    Some (bytes4 (v4_base n w + of_nat (2 ^ (32 - n))), v4_block n w)"
proof -
  let ?s = "\<lambda>k. (bytes4 (v4_base n w + of_nat k),
    map (\<lambda>i. string4 (v4_base n w + of_nat i)) [0..<k])"
  have "while_option (\<lambda>(ip, ips). ipnet_Contains (v4_net n w) ip)
       (\<lambda>(ip, ips). (incIP ip, ips @ [net_IP_String ip])) (?s 0) = Some (?s (2 ^ (32 - n)))"
  proof (rule while_option_run [where s = ?s])
    fix k :: nat assume "k < 2 ^ (32 - n)"
    from v4_base_step(1) [OF assms this]
    show "(case ?s k of (ip, ips) \<Rightarrow> ipnet_Contains (v4_net n w) ip) \<and>
        (case ?s k of (ip, ips) \<Rightarrow> (incIP ip, ips @ [net_IP_String ip])) = ?s (Suc k)"
      by (simp add: Contains_v4_net incIP_bytes4 IP_String_bytes4 algebra_simps)
  next
    show "\<not> (case ?s (2 ^ (32 - n)) of (ip, ips) \<Rightarrow> ipnet_Contains (v4_net n w) ip)"
      using v4_base_step(2) [OF assms, of 0 w] by (simp add: Contains_v4_net)
  qed
  then show ?thesis by (simp add: expand_loop_def v4_block_def)
qed

lemma expand_loop_v4_all:
  "expand_loop (v4_net 0 w) (bytes4 x) = None"
proof -
  have all: "ipnet_Contains (v4_net 0 w) (bytes4 y)" for y
    by (auto simp: Contains_v4_net v4_base_def intro!: bit_word_eqI simp: bit_simps bit_high_mask)
  have it: "\<exists>y ys. ((\<lambda>(ip, ips). (incIP ip, ips @ [net_IP_String ip])) ^^ k) (bytes4 x, [])
      = (bytes4 y, ys)" for k
    by (induction k) (auto simp: incIP_bytes4)
  have "\<forall>k. (\<lambda>(ip, ips). ipnet_Contains (v4_net 0 w) ip)
      (((\<lambda>(ip, ips). (incIP ip, ips @ [net_IP_String ip])) ^^ k) (bytes4 x, []))"
    using all it by (metis (no_types, lifting) case_prod_conv)
  then show ?thesis by (auto simp: expand_loop_def while_option_def)
qed

lemma string4_chars: "c \<in> set (string4 w) \<Longrightarrow> is_digit c \<or> c = CHR ''.''"
proof -
  obtain a b c' d where "v4_octets w = [a, b, c', d]"
    using list4_split v4_octets_props(1) by blast
  then show "c \<in> set (string4 w) \<Longrightarrow> ?thesis"
    using nat_to_dec_digits by (auto simp: string4_def list_all_iff)
qed

lemma string4_no_slash: "CHR ''/'' \<notin> set (string4 w)"
  by (auto dest!: string4_chars simp: is_digit_def)

lemma ParseCIDR_v4:
  assumes "n \<le> 32"
  shows "net_ParseCIDR (string4 w @ ''/'' @ nat_to_dec n) = Inr (addr_As16 (Addr4 w), v4_net n w)"
    and "net_Mask (addr_As16 (Addr4 w)) (net_mask (v4_net n w)) = bytes4 (v4_base n w)"
proof -
  have no_slash: "CHR ''/'' \<notin> set (string4 w)"
    by (rule string4_no_slash)
  then have split: "split_first CHR ''/'' (string4 w @ ''/'' @ nat_to_dec n) = Some (string4 w, nat_to_dec n)"
    by (auto simp: split_first_def takeWhile_append dropWhile_append)
  have as16: "addr_As16 (Addr4 w) = v4_in_v6_prefix @ bytes4 w"
    by (simp add: addr_As16_def bytes4_def)
  have lp: "length v4_in_v6_prefix = 12" by (simp add: v4_in_v6_prefix_def)
  show mask: "net_Mask (addr_As16 (Addr4 w)) (net_mask (v4_net n w)) = bytes4 (v4_base n w)"
    by (simp add: net_Mask_def as16 lp v4_net_def map2_and_bytes4 v4_base_def Let_def)
  with assms show "net_ParseCIDR (string4 w @ ''/'' @ nat_to_dec n)
      = Inr (addr_As16 (Addr4 w), v4_net n w)"
    using split by (simp add: net_ParseCIDR_def ParseAddr_print4 parse_digits_nat_to_dec addr_Zone_def
        addr_BitLen_def CIDRMask4 v4_net_def Let_def)
qed

text \<open>C28: expanding an IPv4 block of length 1 to 32 returns, for every address of the
  block, the block's addresses in ascending order: all of them for a /31 and a /32, all but the
  network address (the first) and the broadcast address (the last) otherwise.\<close>
theorem expandCIDR_v4:
  assumes "1 \<le> n" "n \<le> 32"
  shows "expandCIDR (string4 w @ ''/'' @ nat_to_dec n) =
    Some (Inr (if n \<le> 30 then butlast (tl (v4_block n w)) else v4_block n w))"
proof -
  have "2 < (2 :: nat) ^ (32 - n) \<longleftrightarrow> (2 :: nat) ^ 1 < 2 ^ (32 - n)" by simp
  also have "\<dots> \<longleftrightarrow> n \<le> 30" using assms by (subst power_strict_increasing_iff) auto
  finally have "2 < (2 :: nat) ^ (32 - n) \<longleftrightarrow> n \<le> 30" .
  then show ?thesis
    using assms ParseCIDR_v4 [of n w]
    by (simp add: expandCIDR_def expand_loop_v4) (simp add: v4_block_def)
qed

lemma expandCIDR_v4_witness:
  "expandCIDR (string4 0xC0A80100 @ ''/'' @ nat_to_dec 30)
     = Some (Inr [''192.168.1.1'', ''192.168.1.2''])"
  using expandCIDR_v4 [of 30 "0xC0A80100"]
  by (simp add: v4_block_def v4_base_def high_mask_def mask_eq_exp_minus_1 upt_rec string4_def
      v4_octets_def digits_be_4 nat_to_dec.simps chr_lits)

text \<open>C29: the loop that expands a block does not return for an IPv4 block of length 0: its
  address wraps around before it leaves the block, so the parser hangs on such a target while
  it appends to the result for ever.\<close>
theorem expandCIDR_v4_all: "expandCIDR (string4 w @ ''/0'') = None"
proof -
  have "nat_to_dec 0 = ''0''" by (simp add: nat_to_dec.simps) code_simp
  then show ?thesis
    using ParseCIDR_v4 [of 0 w] by (simp add: expandCIDR_def expand_loop_v4_all)
qed

section \<open>Port ranges: what is accepted\<close>

definition valid_port :: "int \<Rightarrow> bool" where
  "valid_port p \<longleftrightarrow> 1 \<le> p \<and> p \<le> 65535"

lemma port_loop_ok: "1 \<le> lo \<Longrightarrow> hi \<le> 65535 \<Longrightarrow> port_loop lo hi = Inr [lo..hi]"
proof (induction lo hi rule: port_loop.induct)
  case (1 lo hi)
  show ?case
  proof (cases "lo \<le> hi")
    case True
    with 1 have "port_loop (lo + 1) hi = Inr [lo + 1..hi]" by simp
    with True 1 show ?thesis by (simp add: port_loop.simps [of lo] upto.simps [of lo])
  next
    case False
    then show ?thesis by (simp add: port_loop.simps [of lo])
  qed
qed

lemma port_loop_valid: "port_loop lo hi = Inr ps \<Longrightarrow> ps = [lo..hi] \<and> list_all valid_port ps"
proof (induction lo hi arbitrary: ps rule: port_loop.induct)
  case (1 lo hi)
  show ?case
  proof (cases "lo \<le> hi")
    case True
    with "1.prems" obtain qs where q: "1 \<le> lo" "lo \<le> 65535" "port_loop (lo + 1) hi = Inr qs"
      "ps = lo # qs"
      by (subst (asm) port_loop.simps) (auto simp: bindE_eq_Inr split: if_splits)
    with True "1.IH" [of qs] have "qs = [lo + 1..hi]" "list_all valid_port qs" by auto
    moreover have "valid_port lo" using q by (simp add: valid_port_def)
    ultimately show ?thesis using q True by (simp add: upto.simps [of lo])
  next
    case False
    with "1.prems" show ?thesis by (simp add: port_loop.simps [of lo])
  qed
qed

lemma parse_port_part_valid:
  "parse_port_part s = Inr ps \<Longrightarrow> ps \<noteq> [] \<and> list_all valid_port ps"
  by (auto simp: parse_port_part_def Let_def bindE_eq_Inr valid_port_def
      split: if_splits list.splits dest!: port_loop_valid)

lemma parse_port_parts_valid:
  "parse_port_parts ss = Inr ps \<Longrightarrow> list_all valid_port ps \<and> (ss \<noteq> [] \<longrightarrow> ps \<noteq> [])"
proof (induction ss arbitrary: ps)
  case (Cons s ss)
  then show ?case using parse_port_part_valid [of s] by (auto simp: bindE_eq_Inr)
qed simp

text \<open>A port specification item and its text.\<close>

datatype port_item = Single int | Span int int

fun item_text :: "port_item \<Rightarrow> string" where
  "item_text (Single p) = strconv_Itoa p"
| "item_text (Span lo hi) = strconv_Itoa lo @ ''-'' @ strconv_Itoa hi"

fun item_ports :: "port_item \<Rightarrow> int list" where
  "item_ports (Single p) = [p]"
| "item_ports (Span lo hi) = [lo..hi]"

fun item_ok :: "port_item \<Rightarrow> bool" where
  "item_ok (Single p) = valid_port p"
| "item_ok (Span lo hi) = (valid_port lo \<and> valid_port hi \<and> lo \<le> hi)"

lemma Itoa_digits: "0 \<le> p \<Longrightarrow> c \<in> set (strconv_Itoa p) \<Longrightarrow> is_digit c"
  using nat_to_dec_digits by (auto simp: strconv_Itoa_def list_all_iff)

lemma graphic_text: "is_digit c \<Longrightarrow> graphic c"
  by (simp add: is_digit_def graphic_def)

lemma TrimSpace_Itoa: "0 \<le> p \<Longrightarrow> strings_TrimSpace (strconv_Itoa p) = strconv_Itoa p"
  by (rule strings_TrimSpace_graphic) (auto dest: Itoa_digits graphic_text)

lemma no_dash_Itoa: "0 \<le> p \<Longrightarrow> CHR ''-'' \<notin> set (strconv_Itoa p)"
  by (auto dest!: Itoa_digits simp: is_digit_def)

lemma Atoi_Itoa_port: "valid_port p \<Longrightarrow> strconv_Atoi (strconv_Itoa p) = Inr p"
  by (rule strconv_Atoi_Itoa) (auto simp: valid_port_def)

lemma item_text_chars: "item_ok it \<Longrightarrow> c \<in> set (item_text it) \<Longrightarrow> is_digit c \<or> c = CHR ''-''"
proof (cases it)
  case (Single p)
  moreover assume "item_ok it" "c \<in> set (item_text it)"
  ultimately show ?thesis using Itoa_digits [of p c] by (simp add: valid_port_def)
next
  case (Span lo hi)
  moreover assume "item_ok it" "c \<in> set (item_text it)"
  ultimately show ?thesis using Itoa_digits [of lo c] Itoa_digits [of hi c]
    by (auto simp: valid_port_def)
qed

lemma item_text_trim: "item_ok it \<Longrightarrow> strings_TrimSpace (item_text it) = item_text it"
  by (rule strings_TrimSpace_graphic) (auto dest!: item_text_chars simp: graphic_def is_digit_def)

lemma item_text_no_comma: "item_ok it \<Longrightarrow> CHR '','' \<notin> set (item_text it)"
  by (auto dest!: item_text_chars simp: is_digit_def)

lemma parse_item: "item_ok it \<Longrightarrow> parse_port_part (item_text it) = Inr (item_ports it)"
proof (cases it)
  case (Single p)
  moreover assume "item_ok it"
  ultimately show ?thesis
    using item_text_trim [of it] no_dash_Itoa [of p]
    by (simp add: parse_port_part_def strings_Contains_single valid_port_def Atoi_Itoa_port as_err_def)
next
  case (Span lo hi)
  moreover assume ok: "item_ok it"
  ultimately have split: "strings_Split (item_text it) CHR ''-'' = [strconv_Itoa lo, strconv_Itoa hi]"
    using no_dash_Itoa [of lo] no_dash_Itoa [of hi]
    by (simp add: strings_Split_append strings_Split_no_sep valid_port_def)
  from ok Span have "strconv_Atoi (strings_TrimSpace (strconv_Itoa lo)) = Inr lo"
    "strconv_Atoi (strings_TrimSpace (strconv_Itoa hi)) = Inr hi"
    by (simp_all add: TrimSpace_Itoa Atoi_Itoa_port) (simp_all add: TrimSpace_Itoa Atoi_Itoa_port valid_port_def)
  with split ok Span item_text_trim [of it] show ?thesis
    by (simp add: parse_port_part_def strings_Contains_single as_err_def port_loop_ok valid_port_def)
qed

lemma parse_items:
  "list_all item_ok its \<Longrightarrow> parse_port_parts (map item_text its) = Inr (concat (map item_ports its))"
  by (induction its) (auto simp: parse_item)

text \<open>C30: a port specification reads back: the text of any non-empty list of ports and
  ranges of valid bounds, joined by commas, is parsed into exactly the ports it lists, in order
  and with repetitions.\<close>
theorem ParsePortRange_roundtrip:
  assumes "its \<noteq> []" "list_all item_ok its"
  shows "ParsePortRange (strings_Join (map item_text its) '','') = Inr (concat (map item_ports its))"
proof -
  have "strings_Split (strings_Join (map item_text its) '','') CHR '','' = map item_text its"
    using assms item_text_no_comma by (intro strings_Split_Join) (auto simp: list_all_iff)
  with assms(2) show ?thesis by (simp add: ParsePortRange_def parse_items)
qed

lemma ParsePortRange_roundtrip_witness:
  "ParsePortRange (strings_Join (map item_text [Single 53, Span 80 82]) '','') = Inr [53, 80, 81, 82]"
  using ParsePortRange_roundtrip [of "[Single 53, Span 80 82]"]
  by (simp add: valid_port_def upto.simps)

text \<open>Whatever text is accepted as a port specification, the result is not empty and
  holds only numbers from 1 to 65535.\<close>
lemma ParsePortRange_valid:
  "ParsePortRange s = Inr ps \<Longrightarrow> ps \<noteq> [] \<and> (\<forall>p\<in>set ps. 1 \<le> p \<and> p \<le> 65535)"
  using parse_port_parts_valid [of "strings_Split s CHR '',''" ps]
  by (auto simp: ParsePortRange_def list_all_iff valid_port_def)

section \<open>The producer\<close>

definition uncancelled :: "ctx_env \<Rightarrow> bool" where
  "uncancelled env \<longleftrightarrow> (\<forall>t. ctx_err env t = None)"

text \<open>What a step of the producer does to the jobs sent: it appends some of the jobs it was
  given, in order, all of them unless it returns an error, and an error is one its context
  showed.\<close>

definition sends :: "ctx_env \<Rightarrow> producer \<Rightarrow> scan_job list \<Rightarrow> error option \<times> producer \<Rightarrow> bool" where
  "sends env st js r \<longleftrightarrow>
     (\<exists>done rest. js = done @ rest \<and> sent (snd r) = sent st @ done
        \<and> (fst r = None \<longrightarrow> rest = [])
        \<and> (\<forall>e. fst r = Some e \<longrightarrow> (\<exists>t. ctx_err env t = Some e)))"

lemma sends_nil: "sent st' = sent st \<Longrightarrow> sends env st [] (None, st')"
  by (simp add: sends_def)

lemma sends_seq:
  assumes "sends env st xs (None, st1)" "sends env st1 ys r"
  shows "sends env st (xs @ ys) r"
  using assms unfolding sends_def by fastforce

lemma sends_stop:
  assumes "sends env st xs (Some e, st1)"
  shows "sends env st (xs @ ys) (Some e, st1)"
  using assms unfolding sends_def by fastforce

lemma sends_cont:
  assumes "sends env st xs r" "\<And>st1. r = (None, st1) \<Longrightarrow> sends env st1 ys (f st1)"
  shows "sends env st (xs @ ys) (case r of (Some e, st1) \<Rightarrow> (Some e, st1) | (None, st1) \<Rightarrow> f st1)"
  using assms by (cases r; cases "fst r") (auto intro: sends_seq sends_stop)

lemma sends_send_job: "sends env st [j] (send_job env j st)"
  by (auto simp: sends_def send_job_def look_def Let_def split: option.splits)

lemma sends_send_jobs: "sends env st js (send_jobs env js st)"
proof (induction js arbitrary: st)
  case (Cons j js)
  have "sends env st ([j] @ js)
     (case send_job env j st of (Some e, st1) \<Rightarrow> (Some e, st1) | (None, st1) \<Rightarrow> send_jobs env js st1)"
    by (rule sends_cont [OF sends_send_job]) (rule Cons.IH)
  then show ?case by simp
qed (simp add: sends_nil)

definition ip_jobs :: "string \<Rightarrow> int list \<Rightarrow> int list \<Rightarrow> string \<Rightarrow> scan_job list" where
  "ip_jobs line tcpPorts udpPorts ip =
     port_jobs ip line ''tcp'' tcpPorts @ port_jobs ip line ''udp'' udpPorts"

lemma sends_dispatchJobs:
  "sends env st (ip_jobs line tcp udp ip) (dispatchJobs env ip line tcp udp st)"
  unfolding dispatchJobs_def ip_jobs_def
proof (intro sends_cont sends_send_jobs)
  fix st1
  have "sends env st1 (port_jobs ip line ''udp'' udp @ [])
     (case send_jobs env (port_jobs ip line ''udp'' udp) st1 of
        (Some e, st2) \<Rightarrow> (Some e, st2) | (None, st2) \<Rightarrow> (ctx_err env (looks st2), look st2))"
    by (rule sends_cont [OF sends_send_jobs]) (auto simp: sends_def look_def)
  then show "sends env st1 (port_jobs ip line ''udp'' udp)
     (case send_jobs env (port_jobs ip line ''udp'' udp) st1 of
        (Some e, st2) \<Rightarrow> (Some e, st2) | (None, st2) \<Rightarrow> (ctx_err env (looks st2), look st2))"
    by simp
qed

lemma sends_dispatch_ips:
  "sends env st (concat (map (ip_jobs line tcp udp) ips)) (dispatch_ips env ips line tcp udp st)"
proof (induction ips arbitrary: st)
  case (Cons ip ips)
  show ?case
    unfolding dispatch_ips.simps list.map concat.simps
    by (rule sends_cont [OF sends_dispatchJobs]) (rule Cons.IH)
qed (simp add: sends_nil)

lemma sends_uncancelled:
  "uncancelled env \<Longrightarrow> sends env st js r \<Longrightarrow> fst r = None \<and> sent (snd r) = sent st @ js"
  unfolding sends_def uncancelled_def by (cases "fst r") auto

text \<open>What one line of the target stream contributes: its jobs and its failure.\<close>

definition line_jobs ::
  "(string \<Rightarrow> error + string list) \<Rightarrow> int list \<Rightarrow> int list \<Rightarrow> string \<Rightarrow> scan_job list" where
  "line_jobs lookupIP tcp udp text = (case ParseTargetLine text of
     None \<Rightarrow> []
   | Some line \<Rightarrow> (case resolve_target lookupIP line of
       Some (Inr ips) \<Rightarrow> concat (map (ip_jobs line tcp udp) ips)
     | _ \<Rightarrow> []))"

definition line_error :: "(string \<Rightarrow> error + string list) \<Rightarrow> string \<Rightarrow> error option" where
  "line_error lookupIP text = (case ParseTargetLine text of
     None \<Rightarrow> None
   | Some line \<Rightarrow> (case resolve_target lookupIP line of Some (Inl e) \<Rightarrow> Some e | _ \<Rightarrow> None))"

definition line_returns :: "(string \<Rightarrow> error + string list) \<Rightarrow> string \<Rightarrow> bool" where
  "line_returns lookupIP text = (case ParseTargetLine text of
     None \<Rightarrow> True | Some line \<Rightarrow> resolve_target lookupIP line \<noteq> None)"

definition scan_error :: "error option \<Rightarrow> error option" where
  "scan_error scanErr = map_option
     (\<lambda>_. Wrapf (Sentinel ErrTargetParse) ''target stream read failed'') scanErr"

fun first_error :: "error option list \<Rightarrow> error option" where
  "first_error [] = None"
| "first_error (None # es) = first_error es"
| "first_error (Some e # es) = Some e"

lemma first_error_Cons: "first_error (x # xs) = (case x of None \<Rightarrow> first_error xs | Some e \<Rightarrow> Some e)"
  by (cases x) auto

lemma first_error_None: "first_error es = None \<longleftrightarrow> (\<forall>e\<in>set es. e = None)"
  by (induction es rule: first_error.induct) auto

lemma first_error_mem: "first_error es = Some e \<Longrightarrow> Some e \<in> set es"
  by (induction es rule: first_error.induct) auto

text \<open>The line loop, in any environment.\<close>

lemma stream_lines_spec:
  assumes "stream_lines env lookupIP tcp udp scanErr texts streamErr st = Some r"
  shows "\<exists>done rest. concat (map (line_jobs lookupIP tcp udp) texts) = done @ rest
     \<and> sent (snd r) = sent st @ done
     \<and> ((rest = [] \<and> (\<forall>t\<in>set texts. line_returns lookupIP t) \<and>
          fst r = first_error (streamErr # map (line_error lookupIP) texts @ [scan_error scanErr]))
        \<or> (\<exists>e t. fst r = Some e \<and> ctx_err env t = Some e))"
  using assms
proof (induction texts arbitrary: streamErr st)
  case Nil
  then have "snd r = st"
    "fst r = (case scanErr of None \<Rightarrow> streamErr
       | Some _ \<Rightarrow> keep_first streamErr (Wrapf (Sentinel ErrTargetParse) ''target stream read failed''))"
    by auto
  then show ?case
    by (auto simp: scan_error_def keep_first_def first_error_Cons split: option.splits)
next
  case (Cons t texts)
  let ?rest = "concat (map (line_jobs lookupIP tcp udp) texts)"
  show ?case
  proof (cases "ParseTargetLine t")
    case None
    then have l: "line_jobs lookupIP tcp udp t = []" "line_error lookupIP t = None"
        "line_returns lookupIP t"
      by (simp_all add: line_jobs_def line_error_def line_returns_def)
    from None Cons.prems Cons.IH [of streamErr st] show ?thesis
      by (cases streamErr) (simp_all add: l)
  next
    case (Some line)
    show ?thesis
    proof (cases "resolve_target lookupIP line")
      case None
      with Some Cons.prems show ?thesis by simp
    next
      case (Some res)
      note target = \<open>ParseTargetLine t = Some line\<close> Some
      show ?thesis
      proof (cases res)
        case (Inl e)
        with target Cons.prems Cons.IH [of "keep_first streamErr e" st] show ?thesis
          by (cases streamErr)
             (simp_all add: line_jobs_def line_error_def line_returns_def first_error_Cons
               keep_first_def)
      next
        case (Inr ips)
        let ?js = "concat (map (ip_jobs line tcp udp) ips)"
        have jobs: "line_jobs lookupIP tcp udp t = ?js" "line_error lookupIP t = None"
          "line_returns lookupIP t"
          using target Inr by (simp_all add: line_jobs_def line_error_def line_returns_def)
        obtain err st1 where d: "dispatch_ips env ips line tcp udp st = (err, st1)"
          by fastforce
        have s: "sends env st ?js (err, st1)" using sends_dispatch_ips [of env st] d by metis
        show ?thesis
        proof (cases err)
          case None
          with s have sent1: "sent st1 = sent st @ ?js" by (auto simp: sends_def)
          from Cons.prems target Inr d None
          have "stream_lines env lookupIP tcp udp scanErr texts streamErr st1 = Some r" by simp
          from Cons.IH [OF this] obtain dn rs where h:
            "?rest = dn @ rs" "sent (snd r) = sent st1 @ dn"
            "(rs = [] \<and> (\<forall>t\<in>set texts. line_returns lookupIP t) \<and>
                fst r = first_error (streamErr # map (line_error lookupIP) texts @ [scan_error scanErr]))
              \<or> (\<exists>e t. fst r = Some e \<and> ctx_err env t = Some e)" by blast
          have "concat (map (line_jobs lookupIP tcp udp) (t # texts)) = (?js @ dn) @ rs"
            using jobs(1) h(1) by simp
          moreover have "sent (snd r) = sent st @ (?js @ dn)" using sent1 h(2) by simp
          moreover have "first_error (streamErr # map (line_error lookupIP) (t # texts) @ es)
              = first_error (streamErr # map (line_error lookupIP) texts @ es)" for es
            using jobs(2) by (cases streamErr) auto
          ultimately show ?thesis using h(3) jobs(3) by (metis set_ConsD)
        next
          case (Some e)
          with Cons.prems target Inr d have r: "r = (Some e, st1)" by simp
          from s Some obtain dn rs k where "?js = dn @ rs" "sent st1 = sent st @ dn"
            "ctx_err env k = Some e" by (auto simp: sends_def)
          with r jobs show ?thesis
            by (intro exI [of _ dn] exI [of _ "rs @ ?rest"]) auto
        qed
      qed
    qed
  qed
qed

lemma stream_lines_returns:
  "\<forall>t\<in>set texts. line_returns lookupIP t \<Longrightarrow>
   stream_lines env lookupIP tcp udp scanErr texts streamErr st \<noteq> None"
proof (induction texts arbitrary: streamErr st)
  case (Cons t texts)
  then show ?case
    by (auto simp: line_returns_def split: option.splits sum.splits prod.splits)
qed simp

text \<open>C25: whatever the context does while targets are streamed, the jobs sent are the first
  jobs of the stream, in its order; some are missing only when the producer returns the error of
  its context; and a nil error means that every line was read, resolved and sent in full.\<close>
theorem StreamTargets_complete:
  fixes input readErr
  defines "ls \<equiv> fst (scanner_Lines input readErr)"
    and "scanErr \<equiv> snd (scanner_Lines input readErr)"
  assumes run: "StreamTargets env lookupIP input readErr tcp udp st = Some (err, st')"
  shows "(\<exists>rest. concat (map (line_jobs lookupIP tcp udp) ls) = drop (length (sent st)) (sent st') @ rest
            \<and> prefix (sent st) (sent st')
            \<and> (rest = [] \<or> (\<exists>e t. err = Some e \<and> ctx_err env t = Some e)))
     \<and> (err = None \<longrightarrow> sent st' = sent st @ concat (map (line_jobs lookupIP tcp udp) ls)
          \<and> (\<forall>t\<in>set ls. line_error lookupIP t = None) \<and> scanErr = None)"
proof -
  have "stream_lines env lookupIP tcp udp scanErr ls None st = Some (err, st')"
    using run by (simp add: StreamTargets_def ls_def scanErr_def split: prod.splits)
  from stream_lines_spec [OF this] obtain dn rs where
    d: "concat (map (line_jobs lookupIP tcp udp) ls) = dn @ rs" "sent st' = sent st @ dn"
    "(rs = [] \<and> err = first_error (None # map (line_error lookupIP) ls @ [scan_error scanErr]))
     \<or> (\<exists>e t. err = Some e \<and> ctx_err env t = Some e)" by auto
  have "rs = [] \<and> (\<forall>t\<in>set ls. line_error lookupIP t = None) \<and> scanErr = None"
    if "err = None"
  proof -
    from d(3) that have "rs = []"
      "first_error (None # map (line_error lookupIP) ls @ [scan_error scanErr]) = None" by auto
    then show ?thesis by (simp only: first_error_None) (simp add: scan_error_def)
  qed
  with d show ?thesis by auto
qed

definition sample_env :: ctx_env where
  "sample_env = \<lparr>ctx_err = (\<lambda>_. None), take_done = (\<lambda>_. False)\<rparr>"

definition sample_producer :: producer where
  "sample_producer = \<lparr>looks = 0, sent = []\<rparr>"

lemma sample_lines: "scanner_Lines ''h'' None = ([''h''], None)"
  by (simp add: scanner_Lines_def drop_cr_def max_token_size_def) code_simp

lemma sample_target: "ParseTargetLine ''h'' = Some ''h''"
  using strings_TrimSpace_graphic [of "''h''"]
  by (simp add: ParseTargetLine_def graphic_def strings_HasPrefix_def Let_def)

lemma sample_stream:
  "\<exists>st'. StreamTargets sample_env (\<lambda>_. Inr [''192.0.2.1'']) ''h'' None [80] [] sample_producer
     = Some (None, st')"
  by (simp add: StreamTargets_def sample_lines sample_target resolve_target_def dispatchJobs_def
      port_jobs_def send_job_def look_def sample_env_def)

lemma StreamTargets_complete_witness:
  "\<exists>st'. StreamTargets sample_env (\<lambda>_. Inr [''192.0.2.1'']) ''h'' None [80] [] sample_producer
       = Some (None, st')
     \<and> sent st' = [\<lparr>job_TargetIP = ''192.0.2.1'', job_TargetName = ''h'', job_Port = 80,
                    job_Protocol = ''tcp''\<rparr>]"
proof -
  obtain st' where st: "StreamTargets sample_env (\<lambda>_. Inr [''192.0.2.1'']) ''h'' None [80] []
      sample_producer = Some (None, st')"
    using sample_stream by blast
  have "sent st' = sent sample_producer
      @ concat (map (line_jobs (\<lambda>_. Inr [''192.0.2.1'']) [80] []) [''h''])"
    using StreamTargets_complete [OF st] by (simp only: sample_lines fst_conv)
  with st show ?thesis
    by (simp add: line_jobs_def sample_target resolve_target_def ip_jobs_def
        port_jobs_def sample_producer_def)
qed

text \<open>C26: when the context is never done and every line resolves, the producer returns; it
  sends every job of every line, lines that fail to resolve contributing none and not stopping
  the later ones, and its error is the first failure, the read error of the stream last.\<close>
theorem StreamTargets_uncancelled:
  fixes input readErr
  defines "ls \<equiv> fst (scanner_Lines input readErr)"
    and "scanErr \<equiv> snd (scanner_Lines input readErr)"
  assumes "uncancelled env" and "\<forall>t\<in>set ls. line_returns lookupIP t"
  shows "\<exists>st'. StreamTargets env lookupIP input readErr tcp udp st =
       Some (first_error (map (line_error lookupIP) ls @ [scan_error scanErr]), st')
     \<and> sent st' = sent st @ concat (map (line_jobs lookupIP tcp udp) ls)"
proof -
  have S: "StreamTargets env lookupIP input readErr tcp udp st =
      stream_lines env lookupIP tcp udp scanErr ls None st"
    by (simp add: StreamTargets_def ls_def scanErr_def split: prod.splits)
  with stream_lines_returns [OF assms(4)] obtain r where
    r: "stream_lines env lookupIP tcp udp scanErr ls None st = Some r" by fastforce
  from stream_lines_spec [OF this] assms(3) obtain dn where
    "concat (map (line_jobs lookupIP tcp udp) ls) = dn" "sent (snd r) = sent st @ dn"
    "fst r = first_error (map (line_error lookupIP) ls @ [scan_error scanErr])"
    by (auto simp: uncancelled_def)
  with r S show ?thesis by (metis prod.collapse)
qed

lemma StreamTargets_uncancelled_witness:
  "\<exists>st'. StreamTargets sample_env (\<lambda>_. Inl (External ''no such host'')) ''h'' None [80] []
       sample_producer
     = Some (Some (Wrapf (Sentinel ErrTargetResolution) ''target''), st') \<and> sent st' = []"
  using StreamTargets_uncancelled [of sample_env "''h''" None "\<lambda>_. Inl (External ''no such host'')"
      "[80]" "[]" sample_producer]
  by (simp add: sample_lines sample_target uncancelled_def sample_env_def line_returns_def
      line_error_def line_jobs_def resolve_target_def scan_error_def sample_producer_def)

end
