(* ===== verification/TargetPreparation.thy ===== *)
theory TargetPreparation
  imports TargetParser
begin

text \<open>
  \<^verbatim>\<open>cmd/tcprecon/target_preparation.go\<close>: the copy of the target source into a temporary file, the
  spool, before the scan starts. The file system and the source are arguments; what is done to them
  is a list of effects, so that the closing and removing of files can be stated.
\<close>

section \<open>The environment\<close>

text \<open>The outcomes of the calls on the spool and on the source; \<open>sp_write k p\<close> is that of the \<open>k\<close>-th
  \<^verbatim>\<open>Write\<close>, of the payload \<open>p\<close>.\<close>

record spool_env =
  sp_create :: "error + string"
  sp_write :: "nat \<Rightarrow> string \<Rightarrow> nat \<times> error option"
  sp_seek :: "error option"
  sp_close :: "error option"
  sp_remove :: "error option"
  src_text :: string
  src_err :: "error option"
  src_close :: "error option"

datatype effect = SourceClose | SpoolClose | SpoolRemove string | SpoolSeek

record prepared_source =
  ps_path :: string
  ps_content :: string
  ps_targets :: "string list"
  ps_closed :: "error option option"

text \<open>\<^verbatim>\<open>Reader\<close> gives the spool, here its content from the start; \<^verbatim>\<open>Targets\<close> a copy of the slice.\<close>

definition prepared_Reader :: "prepared_source \<Rightarrow> string" where
  "prepared_Reader s = ps_content s"

definition prepared_Targets :: "prepared_source \<Rightarrow> string list" where
  "prepared_Targets s = ps_targets s"

definition prepared_Path :: "prepared_source \<Rightarrow> string" where
  "prepared_Path s = ps_path s"

text \<open>\<^verbatim>\<open>closeOnce.Do\<close> runs its body in the first call only; \<^const>\<open>ps_closed\<close> holds \<^verbatim>\<open>closeErr\<close>.\<close>

definition prepared_Close ::
  "spool_env \<Rightarrow> prepared_source \<Rightarrow> error option \<times> prepared_source \<times> effect list" where
  "prepared_Close env s =
     (case ps_closed s of
        Some closeErr \<Rightarrow> (closeErr, s, [])
      | None \<Rightarrow>
          (let closeErr = errors_Join [sp_close env, sp_remove env]
           in (closeErr, s\<lparr>ps_closed := Some closeErr\<rparr>, [SpoolClose, SpoolRemove (ps_path s)])))"

section \<open>Preparation\<close>

text \<open>The scan loop: the look at the context, the line, the write and its two checks. \<open>t\<close> counts the
  looks and \<open>k\<close> the writes.\<close>

fun prepare_lines ::
  "(nat \<Rightarrow> error option) \<Rightarrow> spool_env \<Rightarrow> string list \<Rightarrow> nat \<Rightarrow> nat \<Rightarrow> prepared_source
     \<Rightarrow> error option \<times> nat \<times> prepared_source" where
  "prepare_lines ctxErr env [] t k s = (None, t, s)"
| "prepare_lines ctxErr env (text # texts) t k s =
     (case ctxErr t of
        Some err \<Rightarrow> (Some err, Suc t, s)
      | None \<Rightarrow>
          (case ParseTargetLine text of
             None \<Rightarrow> prepare_lines ctxErr env texts (Suc t) k s
           | Some target \<Rightarrow>
               (let payload = target @ [CHR 0x0A];
                    (written, writeErr) = sp_write env k payload;
                    s' = s\<lparr>ps_content := ps_content s @ take written payload\<rparr>
                in
                case writeErr of
                  Some err \<Rightarrow> (Some err, Suc t, s')
                | None \<Rightarrow>
                    if written \<noteq> length payload then (Some (Sentinel IoErrShortWrite), Suc t, s')
                    else prepare_lines ctxErr env texts (Suc t) (Suc k)
                           (s'\<lparr>ps_targets := ps_targets s' @ [target]\<rparr>))))"

text \<open>The exits after the spool exists: the source is closed, then the spool is closed and removed.\<close>

definition fail_prepared ::
  "spool_env \<Rightarrow> error \<Rightarrow> prepared_source \<Rightarrow> (error option + prepared_source) \<times> effect list" where
  "fail_prepared env operationErr s =
     (case prepared_Close env s of (closeErr, s', effects) \<Rightarrow>
        (Inl (errors_Join [Some operationErr, src_close env, closeErr]), SourceClose # effects))"

definition prepareTargetSourceWith ::
  "(nat \<Rightarrow> error option) \<Rightarrow> spool_env \<Rightarrow> (error option + prepared_source) \<times> effect list" where
  "prepareTargetSourceWith ctxErr env =
     (case ctxErr 0 of
        Some err \<Rightarrow> (Inl (errors_Join [Some err, src_close env]), [SourceClose])
      | None \<Rightarrow>
          (case sp_create env of
             Inl err \<Rightarrow> (Inl (errors_Join [Some err, src_close env]), [SourceClose])
           | Inr name \<Rightarrow>
               (let prepared = \<lparr>ps_path = name, ps_content = [], ps_targets = [], ps_closed = None\<rparr>;
                    (lines, scanErr) = scanner_Lines (src_text env) (src_err env)
                in
                case prepare_lines ctxErr env lines 1 0 prepared of
                  (Some err, t, s) \<Rightarrow> fail_prepared env err s
                | (None, t, s) \<Rightarrow>
                    (case scanErr of
                       Some err \<Rightarrow> fail_prepared env err s
                     | None \<Rightarrow>
                         (case ctxErr t of
                            Some err \<Rightarrow> fail_prepared env err s
                          | None \<Rightarrow>
                              (case src_close env of
                                 Some err \<Rightarrow>
                                   (case prepared_Close env s of (closeErr, s', effects) \<Rightarrow>
                                      (Inl (errors_Join [Some err, closeErr]), SourceClose # effects))
                               | None \<Rightarrow>
                                   (case sp_seek env of
                                      Some err \<Rightarrow>
                                        (case prepared_Close env s of (closeErr, s', effects) \<Rightarrow>
                                           (Inl (errors_Join [Some err, closeErr]),
                                            SourceClose # SpoolSeek # effects))
                                    | None \<Rightarrow> (Inr s, [SourceClose, SpoolSeek]))))))))"


section \<open>What is prepared\<close>

lemma errors_Join_ex [simp]: "(\<exists>y. errors_Join es = Some y) \<longleftrightarrow> (\<exists>e\<in>set es. \<exists>x. e = Some x)"
  using errors_Join_None [of es] by (metis not_None_eq)

definition spool_text :: "string list \<Rightarrow> string" where
  "spool_text targets = concat (map (\<lambda>t. t @ [CHR 0x0A]) targets)"

lemma spool_text_simps [simp]:
  "spool_text [] = []" "spool_text (ts @ us) = spool_text ts @ spool_text us"
  "spool_text (t # ts) = t @ CHR 0x0A # spool_text ts"
  by (simp_all add: spool_text_def)

lemma prepare_lines_ok:
  assumes "prepare_lines ctxErr env texts t k s = (r, t', s')"
  shows "ps_path s' = ps_path s" "ps_closed s' = ps_closed s"
    "r = None \<Longrightarrow> ps_targets s' = ps_targets s @ List.map_filter ParseTargetLine texts
       \<and> ps_content s' = ps_content s @ spool_text (List.map_filter ParseTargetLine texts)"
proof -
  have "ps_path s' = ps_path s \<and> ps_closed s' = ps_closed s \<and> (r = None \<longrightarrow>
       ps_targets s' = ps_targets s @ List.map_filter ParseTargetLine texts
       \<and> ps_content s' = ps_content s @ spool_text (List.map_filter ParseTargetLine texts))"
    using assms
  proof (induction texts arbitrary: t k s)
    case (Cons x xs)
    show ?case
    proof (cases "ctxErr t")
      case (Some e)
      then have "r = Some e \<and> s = s'" using Cons.prems by simp
      then show ?thesis by simp
    next
      case look: None
      show ?thesis
      proof (cases "ParseTargetLine x")
        case None
        then have "prepare_lines ctxErr env xs (Suc t) k s = (r, t', s')"
          using Cons.prems look by simp
        from Cons.IH [OF this] None show ?thesis by (simp add: map_filter_simps)
      next
      case line: (Some y)
      note y = look line
      obtain w e where w: "sp_write env k (y @ [CHR 0x0A]) = (w, e)" by force
      let ?s = "s\<lparr>ps_content := ps_content s @ take w (y @ [CHR 0x0A])\<rparr>"
      let ?s' = "?s\<lparr>ps_targets := ps_targets ?s @ [y]\<rparr>"
      show ?thesis
      proof (cases "e = None \<and> w = length (y @ [CHR 0x0A])")
        case True
        then have "prepare_lines ctxErr env xs (Suc t) (Suc k) ?s' = (r, t', s')"
          using Cons.prems y w by simp
        from Cons.IH [OF this] True y show ?thesis by (simp add: map_filter_simps)
      next
        case False
        have "prepare_lines ctxErr env (x # xs) t k s
            = (Some (case e of Some err \<Rightarrow> err | None \<Rightarrow> Sentinel IoErrShortWrite), Suc t, ?s)"
          using False y w by (cases e) (simp_all add: Let_def)
        then obtain err where "r = Some err" "s' = ?s" using Cons.prems by auto
        then show ?thesis by simp
      qed
      qed
    qed
  qed (simp add: map_filter_def)
  then show "ps_path s' = ps_path s" "ps_closed s' = ps_closed s"
    "r = None \<Longrightarrow> ps_targets s' = ps_targets s @ List.map_filter ParseTargetLine texts
       \<and> ps_content s' = ps_content s @ spool_text (List.map_filter ParseTargetLine texts)"
    by auto
qed

text \<open>A successful preparation, in one step.\<close>

lemma prepare_Inr:
  assumes "prepareTargetSourceWith ctxErr env = (Inr s, effects)"
  shows "\<exists>lines. scanner_Lines (src_text env) (src_err env) = (lines, None)
    \<and> sp_create env = Inr (ps_path s) \<and> ps_targets s = List.map_filter ParseTargetLine lines
    \<and> ps_content s = spool_text (ps_targets s) \<and> ps_closed s = None
    \<and> src_err env = None \<and> src_close env = None \<and> effects = [SourceClose, SpoolSeek]"
proof -
  obtain name where name: "ctxErr 0 = None" "sp_create env = Inr name"
    using assms by (auto simp: prepareTargetSourceWith_def split: option.splits sum.splits)
  obtain lines scanErr where ln: "scanner_Lines (src_text env) (src_err env) = (lines, scanErr)" by force
  let ?p = "\<lparr>ps_path = name, ps_content = [], ps_targets = [], ps_closed = None\<rparr>"
  obtain r t s1 where r: "prepare_lines ctxErr env lines 1 0 ?p = (r, t, s1)"
    by (metis prod.exhaust)
  have "r = None \<and> scanErr = None \<and> s1 = s \<and> src_close env = None \<and> effects = [SourceClose, SpoolSeek]"
    using assms name ln r
    by (auto simp: prepareTargetSourceWith_def fail_prepared_def prepared_Close_def Let_def
        split: option.splits)
  moreover from this ln have "src_err env = None"
    by (auto simp: scanner_Lines_def split: prod.splits if_splits)
  ultimately show ?thesis using prepare_lines_ok [OF r] name ln by auto
qed

lemma prepare_Inl:
  assumes "prepareTargetSourceWith ctxErr env = (Inl e, effects)"
  shows "e \<noteq> None \<and> count_list effects SourceClose = 1
    \<and> (case (ctxErr 0, sp_create env) of
         (None, Inr name) \<Rightarrow> count_list effects SpoolClose = 1
           \<and> filter (\<lambda>f. \<exists>p. f = SpoolRemove p) effects = [SpoolRemove name]
       | _ \<Rightarrow> effects = [SourceClose])"
proof (cases "ctxErr 0 \<noteq> None \<or> isl (sp_create env)")
  case True
  then show ?thesis
    using assms
    by (auto simp: prepareTargetSourceWith_def simp del: not_None_eq split: option.splits sum.splits)
next
  case False
  then obtain name where name: "ctxErr 0 = None" "sp_create env = Inr name"
    by (auto simp: isl_def) (metis sum.exhaust)
  obtain lines scanErr where ln: "scanner_Lines (src_text env) (src_err env) = (lines, scanErr)" by force
  let ?p = "\<lparr>ps_path = name, ps_content = [], ps_targets = [], ps_closed = None\<rparr>"
  obtain r t s1 where r: "prepare_lines ctxErr env lines 1 0 ?p = (r, t, s1)"
    by (metis prod.exhaust)
  have s1: "ps_path s1 = name" "ps_closed s1 = None" using prepare_lines_ok(1,2) [OF r] by simp_all
  show ?thesis
    using assms name ln r s1
    by (auto simp: prepareTargetSourceWith_def fail_prepared_def prepared_Close_def Let_def
        simp del: not_None_eq split: option.splits)
qed

text \<open>C34: preparation leaks nothing. Whatever fails, the answer is a non-nil error, the source has
  been closed exactly once, and when the temporary file had been created it has been closed once
  and its own path, and no other, has been removed once. When preparation succeeds the source is
  closed, the file is open and rewound, and it holds the targets of the source, one per line, which
  are also what \<^verbatim>\<open>Targets\<close> gives. Closing the prepared source closes and removes the file, the first
  time only.\<close>
theorem prepareTargetSource_resources:
  assumes "prepareTargetSourceWith ctxErr env = (r, effects)"
  shows "count_list effects SourceClose = 1 \<and>
    (case r of
      Inl e \<Rightarrow> e \<noteq> None
        \<and> (case (ctxErr 0, sp_create env) of
             (None, Inr name) \<Rightarrow> count_list effects SpoolClose = 1
               \<and> filter (\<lambda>f. \<exists>p. f = SpoolRemove p) effects = [SpoolRemove name]
           | _ \<Rightarrow> effects = [SourceClose])
    | Inr s \<Rightarrow> effects = [SourceClose, SpoolSeek] \<and> sp_create env = Inr (prepared_Path s)
        \<and> prepared_Targets s
            = List.map_filter ParseTargetLine (fst (scanner_Lines (src_text env) (src_err env)))
        \<and> prepared_Reader s = spool_text (prepared_Targets s)
        \<and> (case prepared_Close env s of (closeErr, s', closing) \<Rightarrow>
            closing = [SpoolClose, SpoolRemove (prepared_Path s)]
            \<and> prepared_Close env s' = (closeErr, s', [])))"
proof (cases r)
  case (Inl e)
  then show ?thesis using prepare_Inl assms by simp
next
  case (Inr s)
  with prepare_Inr [of ctxErr env s effects] assms show ?thesis
    by (auto simp: prepared_Path_def prepared_Targets_def prepared_Reader_def prepared_Close_def
        Let_def)
qed

section \<open>The scan of the spool\<close>

lemma strings_Split_pieces: "p \<in> set (strings_Split s c) \<Longrightarrow> c \<notin> set p"
  by (induction s arbitrary: p) (auto split: if_splits list.splits)

lemma scan_pieces_lines:
  "scan_pieces ps = (ls, long) \<Longrightarrow> l \<in> set ls \<Longrightarrow>
     \<exists>p\<in>set ps. l = drop_cr p \<and> length p < max_token_size"
  by (induction ps arbitrary: ls) (auto split: if_splits prod.splits)

lemma scan_pieces_targets:
  "\<forall>t\<in>set ts. length t < max_token_size \<and> drop_cr t = t \<Longrightarrow> scan_pieces (ts @ [[]]) = (ts, False)"
  by (induction ts) auto

lemma strings_Split_spool:
  "\<forall>t\<in>set ts. CHR 0x0A \<notin> set t \<Longrightarrow> strings_Split (spool_text ts) (CHR 0x0A) = ts @ [[]]"
  by (induction ts) (auto simp: strings_Split_append)

lemma length_strings_TrimSpace: "length (strings_TrimSpace s) \<le> length s"
proof -
  have "length (trim_left_by ws t) \<le> length t" for ws t
    using trim_left_by_suffix suffix_length_le by blast
  then show ?thesis unfolding strings_TrimSpace_def by (metis length_rev order_trans)
qed

lemma line_chars: "chr 0x0A = CHR 0x0A" "chr 0x0D = CHR 0x0D"
  by code_simp+

text \<open>A target is its own line: it is trimmed, and it fits and survives a line scanner.\<close>

lemma ParseTargetLine_Some:
  assumes "ParseTargetLine line = Some t"
  shows "ParseTargetLine t = Some t" "t \<noteq> []" "set t \<subseteq> set line" "length t \<le> length line"
    "drop_cr t = t"
proof -
  have t: "t = strings_TrimSpace line" "t \<noteq> []" "\<not> strings_HasPrefix t ''#''"
    using assms by (auto simp: ParseTargetLine_def Let_def split: if_splits)
  show "ParseTargetLine t = Some t"
    using t strings_TrimSpace_idem [of line] by (auto simp: ParseTargetLine_def Let_def)
  show "t \<noteq> []" by (rule t(2))
  show "set t \<subseteq> set line" using set_strings_TrimSpace t(1) by simp
  show "length t \<le> length line" using length_strings_TrimSpace t(1) by simp
  have "last t \<noteq> chr 0x0D"
  proof
    assume "last t = chr 0x0D"
    then obtain u where "rev t = chr 0x0D # u"
      using t(2) by (metis append_butlast_last_id rev_eq_Cons_iff rev_rev_ident)
    then have "prefix [chr 0x0D] (rev t)" by simp
    then have "starts_with_any (map rev utf8_spaces) (rev t)"
      unfolding starts_with_any_def by (intro bexI [of _ "[chr 0x0D]"]) (auto simp: utf8_spaces_def)
    with t(1) show False using strings_TrimSpace_clean_right [of line] by simp
  qed
  then show "drop_cr t = t" by (simp add: drop_cr_def)
qed

lemma scanner_Lines_props:
  assumes "scanner_Lines text err = (ls, e)" "l \<in> set ls"
  shows "chr 0x0A \<notin> set l" "length l < max_token_size"
proof -
  obtain p where p: "p \<in> set (strings_Split text (chr 0x0A))" "l = drop_cr p" "length p < max_token_size"
    using assms scan_pieces_lines by (fastforce simp: scanner_Lines_def split: prod.splits)
  moreover have "length (drop_cr p) \<le> length p" by (simp add: drop_cr_def)
  ultimately show "length l < max_token_size" by simp
  have "set (drop_cr p) \<subseteq> set p" by (auto simp: drop_cr_def dest: in_set_butlastD)
  then show "chr 0x0A \<notin> set l" using p strings_Split_pieces by blast
qed

lemma set_map_filter_Some: "t \<in> set (List.map_filter f xs) \<Longrightarrow> \<exists>x\<in>set xs. f x = Some t"
  by (force simp: List.map_filter_def)

lemma scanner_Lines_spool:
  assumes "scanner_Lines text err = (lines, e)" "ts = List.map_filter ParseTargetLine lines"
  shows "scanner_Lines (spool_text ts) None = (ts, None)"
proof -
  have "CHR 0x0A \<notin> set t \<and> length t < max_token_size \<and> drop_cr t = t" if "t \<in> set ts" for t
  proof -
    obtain l where l: "l \<in> set lines" "ParseTargetLine l = Some t"
      using \<open>t \<in> set ts\<close> set_map_filter_Some unfolding assms(2) by metis
    show ?thesis
      using ParseTargetLine_Some [OF l(2)] scanner_Lines_props [OF assms(1) l(1)] by (auto simp: line_chars)
  qed
  then show ?thesis
    using strings_Split_spool [of ts] scan_pieces_targets [of ts]
    by (simp add: scanner_Lines_def line_chars)
qed

lemma stream_lines_targets:
  "stream_lines env lookupIP tcp udp scanErr (List.map_filter ParseTargetLine lines) e st
     = stream_lines env lookupIP tcp udp scanErr lines e st"
proof (induction lines arbitrary: e st)
  case (Cons l ls)
  show ?case
  proof (cases "ParseTargetLine l")
    case None
    then show ?thesis using Cons by (simp add: map_filter_simps)
  next
    case (Some t)
    then have "ParseTargetLine t = Some t" by (rule ParseTargetLine_Some)
    with Some Cons show ?thesis by (auto simp: map_filter_simps split: option.split sum.split prod.split)
  qed
qed (simp add: map_filter_def)

text \<open>C35: the scan reads what was prepared. Producing jobs from the spool is, for every run of the
  producer, the same as producing them from the source the spool was copied from, and the lines it
  reads there are the targets the scope of the scan is made of.\<close>
theorem prepared_scan_equiv:
  assumes "prepareTargetSourceWith ctxErr env = (Inr s, effects)"
  shows "StreamTargets cenv lookupIP (prepared_Reader s) None tcp udp st
      = StreamTargets cenv lookupIP (src_text env) (src_err env) tcp udp st
    \<and> scanner_Lines (prepared_Reader s) None = (prepared_Targets s, None)
    \<and> (\<forall>t\<in>set (prepared_Targets s). ParseTargetLine t = Some t)"
proof -
  obtain lines where l: "scanner_Lines (src_text env) (src_err env) = (lines, None)"
    "ps_targets s = List.map_filter ParseTargetLine lines" "ps_content s = spool_text (ps_targets s)"
    using prepare_Inr [OF assms] by blast
  have sp: "scanner_Lines (prepared_Reader s) None = (prepared_Targets s, None)"
    using scanner_Lines_spool [OF l(1,2)] l(3) by (simp add: prepared_Reader_def prepared_Targets_def)
  moreover have "StreamTargets cenv lookupIP (prepared_Reader s) None tcp udp st
      = StreamTargets cenv lookupIP (src_text env) (src_err env) tcp udp st"
    by (simp add: StreamTargets_def sp l(1) prepared_Targets_def l(2) stream_lines_targets)
  moreover have "ParseTargetLine t = Some t" if "t \<in> set (prepared_Targets s)" for t
    using that set_map_filter_Some ParseTargetLine_Some(1) unfolding prepared_Targets_def l(2) by metis
  ultimately show ?thesis by blast
qed

text \<open>A source of one target, on a file system where everything works, and on one where the write is
  short.\<close>

definition sample_spool :: "(nat \<Rightarrow> string \<Rightarrow> nat \<times> error option) \<Rightarrow> spool_env" where
  "sample_spool wr =
     \<lparr>sp_create = Inr ''/tmp/x'', sp_write = wr, sp_seek = None, sp_close = None,
      sp_remove = None, src_text = ''h'', src_err = None, src_close = None\<rparr>"

lemma sample_spool_lines: "scanner_Lines ''h'' None = ([''h''], None)"
  by (simp add: scanner_Lines_def max_token_size_def drop_cr_def line_chars)

lemma prepareTargetSource_resources_witness:
  "\<exists>r effects. prepareTargetSourceWith (\<lambda>_. None) (sample_spool (\<lambda>k p. (0, None))) = (r, effects)
     \<and> isl r \<and> count_list effects SourceClose = 1 \<and> count_list effects SpoolClose = 1"
proof -
  let ?env = "sample_spool (\<lambda>k p. (0, None))"
  obtain r effects where r: "prepareTargetSourceWith (\<lambda>_. None) ?env = (r, effects)" by force
  have "isl r"
    using r by (auto simp: prepareTargetSourceWith_def sample_spool_def sample_spool_lines
        sample_target fail_prepared_def prepared_Close_def Let_def)
  then show ?thesis
    using prepareTargetSource_resources [OF r] r by (cases r) (auto simp: sample_spool_def)
qed

lemma prepared_scan_equiv_witness:
  "\<exists>s effects. prepareTargetSourceWith (\<lambda>_. None) (sample_spool (\<lambda>k p. (length p, None))) = (Inr s, effects)
     \<and> StreamTargets sample_env (\<lambda>h. Inr [h]) (prepared_Reader s) None [80] [] sample_producer
       = StreamTargets sample_env (\<lambda>h. Inr [h]) ''h'' None [80] [] sample_producer"
proof -
  let ?env = "sample_spool (\<lambda>k p. (length p, None))"
  obtain r effects where r: "prepareTargetSourceWith (\<lambda>_. None) ?env = (r, effects)" by force
  then obtain s where s: "r = Inr s"
    by (auto simp: prepareTargetSourceWith_def sample_spool_def sample_spool_lines
        sample_target Let_def)
  show ?thesis
    using prepared_scan_equiv [OF r [unfolded s], of sample_env "\<lambda>h. Inr [h]" "[80]" "[]" sample_producer]
      r s by (simp add: sample_spool_def)
qed
end
