(* ===== verification/Bolt.thy ===== *)
theory Bolt
  imports GoErrors "HOL-Library.Sublist"
begin

text \<open>
  The key/value store \<^verbatim>\<open>go.etcd.io/bbolt\<close>, which is not part of the repository. The model
  takes its operations as an argument, a record \<open>B\<close>, and the locale \<open>bbolt\<close> states the
  documented behaviour the code relies on. bbolt is seen through paths: a bucket is named by
  the list of names that lead to it from the root of the transaction, and an operation at a
  path is the method called on the bucket found there.

  A transaction body is a function from a transaction to an error or a result with the new
  transaction. The managed transactions \<^verbatim>\<open>db.Update\<close> and \<^verbatim>\<open>db.View\<close> are those of the bbolt
  documentation: commit when the body returns nil, roll back when it returns an error.
\<close>

section \<open>The operations\<close>

type_synonym path = "string list"

record ('db, 'tx) bolt =
  bolt_begin :: "bool \<Rightarrow> 'db \<Rightarrow> error + 'tx"
  bolt_commit :: "'tx \<Rightarrow> 'db \<Rightarrow> error option \<times> 'db"
  bolt_rollback :: "'tx \<Rightarrow> 'db \<Rightarrow> 'db"
  bolt_bucket :: "path \<Rightarrow> string \<Rightarrow> 'tx \<Rightarrow> bool"
  bolt_get :: "path \<Rightarrow> string \<Rightarrow> 'tx \<Rightarrow> string option"
  bolt_entries :: "path \<Rightarrow> 'tx \<Rightarrow> (string \<times> string option) list"
  bolt_create :: "path \<Rightarrow> string \<Rightarrow> 'tx \<Rightarrow> error + 'tx"
  bolt_create_if :: "path \<Rightarrow> string \<Rightarrow> 'tx \<Rightarrow> error + 'tx"
  bolt_delete :: "path \<Rightarrow> string \<Rightarrow> 'tx \<Rightarrow> error + 'tx"
  bolt_put :: "path \<Rightarrow> string \<Rightarrow> string \<Rightarrow> 'tx \<Rightarrow> error + 'tx"
  bolt_long_name :: error

section \<open>Transaction bodies\<close>

type_synonym ('tx, 'a) txm = "'tx \<Rightarrow> error + 'a \<times> 'tx"

definition returnT :: "'a \<Rightarrow> ('tx, 'a) txm" where
  "returnT a tx = Inr (a, tx)"

definition failT :: "error \<Rightarrow> ('tx, 'a) txm" where
  "failT e tx = Inl e"

definition bindT :: "('tx, 'a) txm \<Rightarrow> ('a \<Rightarrow> ('tx, 'b) txm) \<Rightarrow> ('tx, 'b) txm" where
  "bindT m f tx = (case m tx of Inl e \<Rightarrow> Inl e | Inr (a, tx') \<Rightarrow> f a tx')"

text \<open>A read of the transaction, a check of an error, and an operation that changes it.\<close>

definition readT :: "('tx \<Rightarrow> 'a) \<Rightarrow> ('tx, 'a) txm" where
  "readT g tx = Inr (g tx, tx)"

definition liftT :: "error + 'a \<Rightarrow> ('tx, 'a) txm" where
  "liftT r tx = (case r of Inl e \<Rightarrow> Inl e | Inr a \<Rightarrow> Inr (a, tx))"

definition execT :: "('tx \<Rightarrow> error + 'tx) \<Rightarrow> ('tx, unit) txm" where
  "execT op tx = (case op tx of Inl e \<Rightarrow> Inl e | Inr tx' \<Rightarrow> Inr ((), tx'))"

lemmas txm_defs = returnT_def failT_def bindT_def readT_def liftT_def execT_def

lemma bindT_eq_Inr: "bindT m f tx = Inr y \<longleftrightarrow> (\<exists>a tx'. m tx = Inr (a, tx') \<and> f a tx' = Inr y)"
  by (auto simp: bindT_def split: sum.splits)

text \<open>The managed transactions.\<close>

definition db_Update :: "('db, 'tx) bolt \<Rightarrow> ('tx, 'a) txm \<Rightarrow> 'db \<Rightarrow> (error + 'a) \<times> 'db" where
  "db_Update B fn db =
     (case bolt_begin B True db of
        Inl e \<Rightarrow> (Inl e, db)
      | Inr tx \<Rightarrow>
          (case fn tx of
             Inl e \<Rightarrow> (Inl e, bolt_rollback B tx db)
           | Inr (a, tx') \<Rightarrow>
               (case bolt_commit B tx' db of
                  (Some e, db') \<Rightarrow> (Inl e, db')
                | (None, db') \<Rightarrow> (Inr a, db'))))"

text \<open>The result type of a read-only body is free: it holds whatever the closure assigns.\<close>

definition db_View :: "('db, 'tx) bolt \<Rightarrow> ('tx \<Rightarrow> 'r) \<Rightarrow> 'db \<Rightarrow> error + 'r" where
  "db_View B fn db = (case bolt_begin B False db of Inl e \<Rightarrow> Inl e | Inr tx \<Rightarrow> Inr (fn tx))"

section \<open>The abstract store\<close>

text \<open>
  A store maps paths to values and buckets. The root is the empty path and always a bucket.
\<close>

datatype bentry = BBucket | BVal string

type_synonym store = "path \<rightharpoonup> bentry"

definition is_bucket :: "store \<Rightarrow> path \<Rightarrow> bool" where
  "is_bucket s p \<longleftrightarrow> p = [] \<or> s p = Some BBucket"

definition store_wf :: "store \<Rightarrow> bool" where
  "store_wf s \<longleftrightarrow>
     finite (dom s) \<and> s [] = None \<and> (\<forall>p k. s (p @ [k]) \<noteq> None \<longrightarrow> is_bucket s p)"

definition maxKeySize :: nat where
  "maxKeySize = 32768"

definition maxValueSize :: nat where
  "maxValueSize = 2 ^ 31 - 2"

text \<open>A transaction is a store with a flag: whether it may be written.\<close>

type_synonym spec_tx = "bool \<times> store"

definition spec_bucket :: "path \<Rightarrow> string \<Rightarrow> spec_tx \<Rightarrow> bool" where
  "spec_bucket p k t \<longleftrightarrow> snd t (p @ [k]) = Some BBucket"

definition bval :: "bentry option \<Rightarrow> string option" where
  "bval e = (case e of Some (BVal v) \<Rightarrow> Some v | _ \<Rightarrow> None)"

lemma bval_simps [simp]: "bval None = None" "bval (Some BBucket) = None" "bval (Some (BVal v)) = Some v"
  by (simp_all add: bval_def)

definition spec_get :: "path \<Rightarrow> string \<Rightarrow> spec_tx \<Rightarrow> string option" where
  "spec_get p k t = bval (snd t (p @ [k]))"

definition children :: "store \<Rightarrow> path \<Rightarrow> string set" where
  "children s p = {k. s (p @ [k]) \<noteq> None}"

text \<open>\<^verbatim>\<open>ForEach\<close> visits the keys in byte order; a nested bucket has a nil value.\<close>

definition spec_entries :: "path \<Rightarrow> spec_tx \<Rightarrow> (string \<times> string option) list" where
  "spec_entries p t =
     map (\<lambda>k. (k, bval (snd t (p @ [k])))) (sorted_list_of_set (children (snd t) p))"

definition spec_create :: "error \<Rightarrow> path \<Rightarrow> string \<Rightarrow> spec_tx \<Rightarrow> error + spec_tx" where
  "spec_create long p k t =
     (if \<not> fst t then Inl (Sentinel BoltErrTxNotWritable)
      else if k = [] then Inl (Sentinel BoltErrBucketNameRequired)
      else if \<not> is_bucket (snd t) p then Inl (Sentinel BoltErrBucketNotFound)
      else (case snd t (p @ [k]) of
              Some BBucket \<Rightarrow> Inl (Sentinel BoltErrBucketExists)
            | Some (BVal v) \<Rightarrow> Inl (Sentinel BoltErrIncompatibleValue)
            | None \<Rightarrow> if maxKeySize < length k then Inl long
                      else Inr (True, (snd t)(p @ [k] \<mapsto> BBucket))))"

definition spec_create_if :: "error \<Rightarrow> path \<Rightarrow> string \<Rightarrow> spec_tx \<Rightarrow> error + spec_tx" where
  "spec_create_if long p k t =
     (case spec_create long p k t of
        Inl e \<Rightarrow> if e = Sentinel BoltErrBucketExists \<and> snd t (p @ [k]) = Some BBucket
                 then Inr t else Inl e
      | Inr t' \<Rightarrow> Inr t')"

definition drop_tree :: "path \<Rightarrow> store \<Rightarrow> store" where
  "drop_tree p s = (\<lambda>q. if take (length p) q = p then None else s q)"

definition spec_delete :: "path \<Rightarrow> string \<Rightarrow> spec_tx \<Rightarrow> error + spec_tx" where
  "spec_delete p k t =
     (if \<not> fst t then Inl (Sentinel BoltErrTxNotWritable)
      else (case snd t (p @ [k]) of
              None \<Rightarrow> Inl (Sentinel BoltErrBucketNotFound)
            | Some (BVal v) \<Rightarrow> Inl (Sentinel BoltErrIncompatibleValue)
            | Some BBucket \<Rightarrow> Inr (True, drop_tree (p @ [k]) (snd t))))"

definition spec_put :: "path \<Rightarrow> string \<Rightarrow> string \<Rightarrow> spec_tx \<Rightarrow> error + spec_tx" where
  "spec_put p k v t =
     (if \<not> fst t then Inl (Sentinel BoltErrTxNotWritable)
      else if k = [] then Inl (Sentinel BoltErrKeyRequired)
      else if maxKeySize < length k then Inl (Sentinel BoltErrKeyTooLarge)
      else if maxValueSize < length v then Inl (Sentinel BoltErrValueTooLarge)
      else if \<not> is_bucket (snd t) p then Inl (Sentinel BoltErrBucketNotFound)
      else if snd t (p @ [k]) = Some BBucket then Inl (Sentinel BoltErrIncompatibleValue)
      else Inr (True, (snd t)(p @ [k] \<mapsto> BVal v)))"

lemmas spec_ops = spec_bucket_def spec_get_def spec_create_def spec_create_if_def
  spec_delete_def spec_put_def

text \<open>The store itself is an instance of the operations, one on which nothing fails outside
  the transaction bodies.\<close>

definition spec_bolt :: "error \<Rightarrow> (store, spec_tx) bolt" where
  "spec_bolt long =
     \<lparr>bolt_begin = (\<lambda>w s. Inr (w, s)), bolt_commit = (\<lambda>t s. (None, snd t)),
      bolt_rollback = (\<lambda>t s. s), bolt_bucket = spec_bucket, bolt_get = spec_get,
      bolt_entries = spec_entries, bolt_create = spec_create long,
      bolt_create_if = spec_create_if long, bolt_delete = spec_delete, bolt_put = spec_put,
      bolt_long_name = long\<rparr>"

lemma spec_bolt_simps [simp]:
  "bolt_bucket (spec_bolt l) = spec_bucket" "bolt_get (spec_bolt l) = spec_get"
  "bolt_entries (spec_bolt l) = spec_entries" "bolt_create (spec_bolt l) = spec_create l"
  "bolt_create_if (spec_bolt l) = spec_create_if l" "bolt_delete (spec_bolt l) = spec_delete"
  "bolt_put (spec_bolt l) = spec_put" "bolt_long_name (spec_bolt l) = l"
  by (simp_all add: spec_bolt_def)

section \<open>Simulation\<close>

text \<open>A body on the real transactions that does what another one does on abstract ones.\<close>

definition simT :: "('tx \<Rightarrow> spec_tx) \<Rightarrow> ('tx, 'a) txm \<Rightarrow> (spec_tx, 'a) txm \<Rightarrow> bool" where
  "simT txv m m' \<longleftrightarrow> (\<forall>tx. m' (txv tx) = map_sum id (map_prod id txv) (m tx))"

named_theorems simI \<open>simulations of transaction bodies\<close>
named_theorems wfTI \<open>bodies that keep the store well formed\<close>

lemma simT_return [simI]: "simT txv (returnT a) (returnT a)"
  by (simp add: simT_def returnT_def)

lemma simT_fail [simI]: "simT txv (failT e) (failT e)"
  by (simp add: simT_def failT_def)

lemma simT_lift [simI]: "simT txv (liftT r) (liftT r)"
  by (cases r) (simp_all add: simT_def liftT_def)

lemma simT_bind [simI]:
  assumes "simT txv m m'" "\<And>a. simT txv (f a) (f' a)"
  shows "simT txv (bindT m f) (bindT m' f')"
  unfolding simT_def
proof
  fix tx
  show "bindT m' f' (txv tx) = map_sum id (map_prod id txv) (bindT m f tx)"
    using assms by (cases "m tx") (simp_all add: simT_def bindT_def case_prod_beta)
qed

lemma simT_if [simI]:
  "(b \<Longrightarrow> simT txv m m') \<Longrightarrow> (\<not> b \<Longrightarrow> simT txv n n') \<Longrightarrow>
     simT txv (if b then m else n) (if b then m' else n')"
  by simp

lemma simT_option [simI]:
  "simT txv m m' \<Longrightarrow> (\<And>x. simT txv (f x) (f' x)) \<Longrightarrow>
     simT txv (case r of None \<Rightarrow> m | Some x \<Rightarrow> f x) (case r of None \<Rightarrow> m' | Some x \<Rightarrow> f' x)"
  by (cases r) auto

lemma simT_sum [simI]:
  "(\<And>e. simT txv (m e) (m' e)) \<Longrightarrow> (\<And>x. simT txv (f x) (f' x)) \<Longrightarrow>
     simT txv (case r of Inl e \<Rightarrow> m e | Inr x \<Rightarrow> f x) (case r of Inl e \<Rightarrow> m' e | Inr x \<Rightarrow> f' x)"
  by (cases r) auto

lemma simT_read: "(\<And>tx. g' (txv tx) = g tx) \<Longrightarrow> simT txv (readT g) (readT g')"
  by (simp add: simT_def readT_def)

lemma simT_exec: "(\<And>tx. op' (txv tx) = map_sum id txv (op tx)) \<Longrightarrow> simT txv (execT op) (execT op')"
  by (auto simp: simT_def execT_def split: sum.splits)

text \<open>Bodies that keep an abstract store well formed and the transaction writable.\<close>

definition wfT :: "(spec_tx, 'a) txm \<Rightarrow> bool" where
  "wfT m \<longleftrightarrow> (\<forall>t a t'. m t = Inr (a, t') \<longrightarrow> store_wf (snd t) \<longrightarrow> store_wf (snd t') \<and> fst t' = fst t)"

lemma wfT_basic [wfTI]: "wfT (returnT a)" "wfT (failT e)" "wfT (liftT r)" "wfT (readT g)"
  by (auto simp: wfT_def txm_defs split: sum.splits)

lemma wfT_store: "wfT m \<Longrightarrow> m t = Inr (a, t') \<Longrightarrow> store_wf (snd t) \<Longrightarrow> store_wf (snd t')"
  unfolding wfT_def by blast

lemma wfT_bind [wfTI]: "wfT m \<Longrightarrow> (\<And>a. wfT (f a)) \<Longrightarrow> wfT (bindT m f)"
  by (fastforce simp: wfT_def bindT_def split: sum.splits)

lemma wfT_if [wfTI]: "(b \<Longrightarrow> wfT m) \<Longrightarrow> (\<not> b \<Longrightarrow> wfT n) \<Longrightarrow> wfT (if b then m else n)"
  by simp

lemma wfT_option [wfTI]:
  "wfT m \<Longrightarrow> (\<And>x. wfT (f x)) \<Longrightarrow> wfT (case r of None \<Rightarrow> m | Some x \<Rightarrow> f x)"
  by (cases r) auto

lemma wfT_sum [wfTI]:
  "(\<And>e. wfT (m e)) \<Longrightarrow> (\<And>x. wfT (f x)) \<Longrightarrow> wfT (case r of Inl e \<Rightarrow> m e | Inr x \<Rightarrow> f x)"
  by (cases r) auto

section \<open>Well-formed stores\<close>

lemma is_bucket_root [simp]: "is_bucket s []"
  by (simp add: is_bucket_def)

lemma is_bucket_snoc [simp]: "is_bucket s (p @ [k]) \<longleftrightarrow> s (p @ [k]) = Some BBucket"
  by (simp add: is_bucket_def)

lemma is_bucket_Cons [simp]: "is_bucket s (k # p) \<longleftrightarrow> s (k # p) = Some BBucket"
  by (simp add: is_bucket_def)

lemma finite_children [simp]: "store_wf s \<Longrightarrow> finite (children s p)"
proof -
  assume "store_wf s"
  then have "finite (dom s)" by (simp add: store_wf_def)
  moreover have "(\<lambda>k. p @ [k]) ` children s p \<subseteq> dom s" by (auto simp: children_def)
  ultimately show ?thesis
    by (meson finite_imageD finite_subset inj_onI append1_eq_conv)
qed

lemma store_wf_parent: "store_wf s \<Longrightarrow> s (p @ [k]) \<noteq> None \<Longrightarrow> is_bucket s p"
  unfolding store_wf_def by blast

lemma store_wf_upd:
  assumes "store_wf s" "is_bucket s p" "s (p @ [k]) = Some BBucket \<Longrightarrow> e = BBucket"
  shows "store_wf (s(p @ [k] \<mapsto> e))"
proof -
  let ?s = "s(p @ [k] \<mapsto> e)"
  have "is_bucket ?s q" if c: "?s (q @ [j]) \<noteq> None" for q j
  proof (cases "q = p \<and> j = k")
    case True
    then show ?thesis using assms(2) by (auto simp: is_bucket_def)
  next
    case False
    then have "s (q @ [j]) \<noteq> None" using c by (auto split: if_splits)
    then have "is_bucket s q" using assms(1) store_wf_parent by blast
    then show ?thesis using assms(3) by (auto simp: is_bucket_def)
  qed
  then show ?thesis using assms(1) by (auto simp: store_wf_def)
qed

lemma drop_tree_apply: "drop_tree p s q = (if prefix p q then None else s q)"
  by (auto simp: drop_tree_def prefix_def) (metis append_take_drop_id)

lemma store_wf_drop_tree:
  assumes "store_wf s" "p \<noteq> []"
  shows "store_wf (drop_tree p s)"
proof -
  have "dom (drop_tree p s) \<subseteq> dom s" by (auto simp: drop_tree_def split: if_splits)
  then have "finite (dom (drop_tree p s))"
    using assms(1) finite_subset unfolding store_wf_def by blast
  moreover have "is_bucket (drop_tree p s) q" if "drop_tree p s (q @ [k]) \<noteq> None" for q k
    using that assms by (auto simp: drop_tree_apply store_wf_def is_bucket_def split: if_splits)
  ultimately show ?thesis using assms by (simp add: store_wf_def drop_tree_apply)
qed

lemma wfT_create [wfTI]: "wfT (execT (bolt_create (spec_bolt l) p k))"
  by (auto simp: wfT_def execT_def spec_create_def store_wf_upd split: sum.splits if_splits
      option.splits bentry.splits)

lemma wfT_create_if [wfTI]: "wfT (execT (bolt_create_if (spec_bolt l) p k))"
  by (auto simp: wfT_def execT_def spec_create_if_def spec_create_def store_wf_upd
      split: sum.splits if_splits option.splits bentry.splits)

lemma wfT_delete [wfTI]: "wfT (execT (bolt_delete (spec_bolt l) p k))"
  by (auto simp: wfT_def execT_def spec_delete_def store_wf_drop_tree split: sum.splits if_splits
      option.splits bentry.splits)

lemma wfT_put [wfTI]: "wfT (execT (bolt_put (spec_bolt l) p k v))"
  by (auto simp: wfT_def execT_def spec_put_def intro!: store_wf_upd split: sum.splits if_splits)

text \<open>A database on which \<^verbatim>\<open>Begin\<close> and \<^verbatim>\<open>Commit\<close> do not fail for a body.\<close>

definition storage_ok :: "('db, 'tx) bolt \<Rightarrow> ('tx, 'a) txm \<Rightarrow> 'db \<Rightarrow> bool" where
  "storage_ok B fn db \<longleftrightarrow>
     (\<exists>tx. bolt_begin B True db = Inr tx
        \<and> (\<forall>a tx'. fn tx = Inr (a, tx') \<longrightarrow> fst (bolt_commit B tx' db) = None))"

section \<open>The contract\<close>

text \<open>
  What the code relies on: the operations of \<open>B\<close> do to the contents of a database (\<open>dbv\<close>) and of
  a transaction (\<open>txv\<close>) what the documentation of bbolt says. Beginning and committing may fail;
  a transaction that is rolled back or whose commit fails leaves the database as it was. The error for a
  bucket name that is too long is the one the documentation of \<^verbatim>\<open>CreateBucket\<close> announces; the names the
  program makes, hashes and scan identifiers in hexadecimal, are far below the limit.
\<close>

locale bbolt =
  fixes B :: "('db, 'tx) bolt" and dbv :: "'db \<Rightarrow> store" and txv :: "'tx \<Rightarrow> spec_tx"
  assumes begin_view: "bolt_begin B w db = Inr tx \<Longrightarrow> txv tx = (w, dbv db)"
    and commit_ok: "bolt_commit B tx db = (None, db') \<Longrightarrow> dbv db' = snd (txv tx)"
    and commit_fail: "bolt_commit B tx db = (Some e, db') \<Longrightarrow> dbv db' = dbv db"
    and rollback_view: "dbv (bolt_rollback B tx db) = dbv db"
    and bucket_view: "bolt_bucket B p k tx = spec_bucket p k (txv tx)"
    and get_view: "bolt_get B p k tx = spec_get p k (txv tx)"
    and entries_view: "bolt_entries B p tx = spec_entries p (txv tx)"
    and create_view:
      "map_sum id txv (bolt_create B p k tx) = spec_create (bolt_long_name B) p k (txv tx)"
    and create_if_view:
      "map_sum id txv (bolt_create_if B p k tx) = spec_create_if (bolt_long_name B) p k (txv tx)"
    and delete_view: "map_sum id txv (bolt_delete B p k tx) = spec_delete p k (txv tx)"
    and put_view: "map_sum id txv (bolt_put B p k v tx) = spec_put p k v (txv tx)"
begin

abbreviation spec :: "(store, spec_tx) bolt" where
  "spec \<equiv> spec_bolt (bolt_long_name B)"

lemma sim_ops:
  "simT txv (readT (bolt_bucket B p k)) (readT (bolt_bucket spec p k))"
  "simT txv (readT (bolt_get B p k)) (readT (bolt_get spec p k))"
  "simT txv (readT (bolt_entries B p)) (readT (bolt_entries spec p))"
  "simT txv (execT (bolt_create B p k)) (execT (bolt_create spec p k))"
  "simT txv (execT (bolt_create_if B p k)) (execT (bolt_create_if spec p k))"
  "simT txv (execT (bolt_delete B p k)) (execT (bolt_delete spec p k))"
  "simT txv (execT (bolt_put B p k v)) (execT (bolt_put spec p k v))"
  by (auto intro!: simT_read simT_exec simp: bucket_view get_view entries_view
      create_view create_if_view delete_view put_view)

lemma Update_Inr:
  assumes "simT txv fn fn'" "db_Update B fn db = (Inr a, db')"
  shows "\<exists>w. fn' (True, dbv db) = Inr (a, (w, dbv db'))"
proof -
  obtain tx tx' where tx: "bolt_begin B True db = Inr tx" "fn tx = Inr (a, tx')"
    "bolt_commit B tx' db = (None, db')"
    using assms(2) by (auto simp: db_Update_def split: sum.splits prod.splits option.splits)
  then have "fn' (True, dbv db) = Inr (a, txv tx')"
    using assms(1) begin_view [OF tx(1)] by (simp add: simT_def) (metis map_prod_simp id_apply map_sum.simps(2))
  then show ?thesis using commit_ok [OF tx(3)] by (metis prod.collapse)
qed

lemma Update_Inl:
  assumes "db_Update B fn db = (Inl e, db')"
  shows "dbv db' = dbv db"
  using assms
  by (auto simp: db_Update_def rollback_view split: sum.splits prod.splits option.splits
      dest: commit_fail)

lemma Update_result:
  assumes "simT txv fn fn'" "storage_ok B fn db"
  shows "fst (db_Update B fn db) = map_sum id fst (fn' (True, dbv db))"
proof -
  obtain tx where tx: "bolt_begin B True db = Inr tx"
    and c: "\<forall>a tx'. fn tx = Inr (a, tx') \<longrightarrow> fst (bolt_commit B tx' db) = None"
    using assms(2) by (auto simp: storage_ok_def)
  have "fn' (True, dbv db) = map_sum id (map_prod id txv) (fn tx)"
    using assms(1) begin_view [OF tx] by (metis simT_def)
  then show ?thesis
    using tx c by (cases "fn tx") (auto simp: db_Update_def split: prod.splits option.splits)
qed

lemma Update_error:
  assumes "simT txv fn fn'" "storage_ok B fn db" "db_Update B fn db = (Inl e, db')"
  shows "fn' (True, dbv db) = Inl e"
  using Update_result [OF assms(1,2)] assms(3) by (cases "fn' (True, dbv db)") auto

lemma Update_wf:
  assumes "simT txv fn fn'" "wfT fn'" "store_wf (dbv db)"
  shows "store_wf (dbv (snd (db_Update B fn db)))"
proof (cases "db_Update B fn db")
  case (Pair r db')
  show ?thesis
  proof (cases r)
    case (Inl e)
    with Pair assms(3) Update_Inl [of fn db e db'] show ?thesis by simp
  next
    case (Inr a)
    with Pair Update_Inr [OF assms(1), of db a db'] obtain w where
      "fn' (True, dbv db) = Inr (a, (w, dbv db'))" by auto
    with assms(2,3) Pair show ?thesis by (fastforce simp: wfT_def)
  qed
qed

lemma View_Inr:
  assumes "db_View B fn db = Inr r" "\<And>tx. fn tx = fn' (txv tx)"
  shows "r = fn' (False, dbv db)"
  using assms begin_view by (auto simp: db_View_def split: sum.splits)

end

text \<open>The abstract store keeps the contract.\<close>

interpretation spec_store: bbolt "spec_bolt l" id id
  by unfold_locales (simp_all add: spec_bolt_def sum.map_id)

lemma begin_spec [simp]: "bolt_begin (spec_bolt l) w s = Inr (w, s)"
  by (simp add: spec_bolt_def)

lemma storage_ok_spec [simp]: "storage_ok (spec_bolt l) fn s"
  unfolding storage_ok_def spec_bolt_def by auto

end
