(* ===== verification/GoTime.thy ===== *)
theory GoTime
  imports GoStrings
begin

text \<open>
  The part of Go's \<^verbatim>\<open>time\<close> package the program uses: UTC clock readings, their RFC 3339
  texts, and which strings \<^verbatim>\<open>time.Parse(time.RFC3339Nano, s)\<close> accepts. The parser accepts
  what the library accepts, its leniencies included: a one-digit hour, any number of
  fractional digits after a period or a comma, zone offsets up to 24:60.
\<close>

record utc_time =
  t_year :: nat
  t_month :: nat
  t_day :: nat
  t_hour :: nat
  t_minute :: nat
  t_second :: nat
  t_nanosecond :: nat

definition leap_year :: "nat \<Rightarrow> bool" where
  "leap_year y \<longleftrightarrow> 4 dvd y \<and> (\<not> 100 dvd y \<or> 400 dvd y)"

definition days_in :: "nat \<Rightarrow> nat \<Rightarrow> nat" where
  "days_in m y =
     (if m = 2 then (if leap_year y then 29 else 28)
      else if m \<in> {4, 6, 9, 11} then 30 else 31)"

definition utc_ok :: "utc_time \<Rightarrow> bool" where
  "utc_ok t \<longleftrightarrow> t_year t \<le> 9999 \<and> 1 \<le> t_month t \<and> t_month t \<le> 12
     \<and> 1 \<le> t_day t \<and> t_day t \<le> days_in (t_month t) (t_year t)
     \<and> t_hour t < 24 \<and> t_minute t < 60 \<and> t_second t < 60 \<and> t_nanosecond t < 10 ^ 9"

section \<open>Formatting\<close>

fun pad_dec :: "nat \<Rightarrow> nat \<Rightarrow> string" where
  "pad_dec 0 n = []"
| "pad_dec (Suc k) n = pad_dec k (n div 10) @ [chr (0x30 + n mod 10)]"

definition format_seconds :: "utc_time \<Rightarrow> string" where
  "format_seconds t =
     pad_dec 4 (t_year t) @ ''-'' @ pad_dec 2 (t_month t) @ ''-'' @ pad_dec 2 (t_day t) @ ''T''
     @ pad_dec 2 (t_hour t) @ '':'' @ pad_dec 2 (t_minute t) @ '':'' @ pad_dec 2 (t_second t)"

definition format_RFC3339 :: "utc_time \<Rightarrow> string" where
  "format_RFC3339 t = format_seconds t @ ''Z''"

text \<open>The fraction is written without its trailing zeros, and not at all when it is zero.\<close>

definition format_fraction :: "nat \<Rightarrow> string" where
  "format_fraction ns =
     (let ds = strings_TrimRight (pad_dec 9 ns) ''0'' in if ds = [] then [] else CHR ''.'' # ds)"

definition format_RFC3339Nano :: "utc_time \<Rightarrow> string" where
  "format_RFC3339Nano t = format_seconds t @ format_fraction (t_nanosecond t) @ ''Z''"

section \<open>Parsing\<close>

definition take_fixed :: "nat \<Rightarrow> string \<Rightarrow> (nat \<times> string) option" where
  "take_fixed k s =
     (if k \<le> length s \<and> list_all is_digit (take k s)
      then Some (dec_val 0 (take k s), drop k s) else None)"

text \<open>\<^verbatim>\<open>getnum\<close> without the \<^verbatim>\<open>fixed\<close> flag: two digits, or one.\<close>

definition take_hour :: "string \<Rightarrow> (nat \<times> string) option" where
  "take_hour s = (case take_fixed 2 s of Some r \<Rightarrow> Some r | None \<Rightarrow> take_fixed 1 s)"

definition take_char :: "char \<Rightarrow> string \<Rightarrow> string option" where
  "take_char c s = (case s of x # xs \<Rightarrow> if x = c then Some xs else None | [] \<Rightarrow> None)"

definition skip_fraction :: "string \<Rightarrow> string" where
  "skip_fraction s = (case s of
     p # d # _ \<Rightarrow> if (p = CHR ''.'' \<or> p = CHR '','') \<and> is_digit d
                  then dropWhile is_digit (tl s) else s
   | _ \<Rightarrow> s)"

definition zone_ok :: "string \<Rightarrow> bool" where
  "zone_ok s =
     (s = ''Z'' \<or>
      (length s = 6 \<and> (hd s = CHR ''+'' \<or> hd s = CHR ''-'') \<and> s ! 3 = CHR '':''
       \<and> list_all is_digit [s ! 1, s ! 2, s ! 4, s ! 5]
       \<and> dec_val 0 [s ! 1, s ! 2] \<le> 24 \<and> dec_val 0 [s ! 4, s ! 5] \<le> 60))"

definition ok_if :: "bool \<Rightarrow> 'a \<Rightarrow> 'a option" where
  "ok_if b x = (if b then Some x else None)"

definition parse_RFC3339Nano :: "string \<Rightarrow> bool" where
  "parse_RFC3339Nano s0 =
     (Option.bind (take_fixed 4 s0) (\<lambda>(year, s).
      Option.bind (take_char CHR ''-'' s) (\<lambda>s.
      Option.bind (take_fixed 2 s) (\<lambda>(month, s).
      Option.bind (take_char CHR ''-'' s) (\<lambda>s.
      Option.bind (take_fixed 2 s) (\<lambda>(day, s).
      Option.bind (take_char CHR ''T'' s) (\<lambda>s.
      Option.bind (take_hour s) (\<lambda>(hour, s).
      Option.bind (take_char CHR '':'' s) (\<lambda>s.
      Option.bind (take_fixed 2 s) (\<lambda>(minute, s).
      Option.bind (take_char CHR '':'' s) (\<lambda>s.
      Option.bind (take_fixed 2 s) (\<lambda>(second, s).
      ok_if (1 \<le> month \<and> month \<le> 12 \<and> 1 \<le> day \<and> day \<le> days_in month year
             \<and> hour < 24 \<and> minute < 60 \<and> second < 60 \<and> zone_ok (skip_fraction s)) ())))))))))))
      \<noteq> None)"

section \<open>A formatted clock reading parses\<close>

lemma length_pad_dec [simp]: "length (pad_dec k n) = k"
  by (induction k arbitrary: n) auto

lemma pad_dec_digits: "list_all is_digit (pad_dec k n)"
  by (induction k arbitrary: n) (auto simp: is_digit_def)

lemma dec_val_pad_dec: "n < 10 ^ k \<Longrightarrow> dec_val 0 (pad_dec k n) = n"
proof (induction k arbitrary: n)
  case (Suc k)
  then have "n div 10 < 10 ^ k" by (simp add: less_mult_imp_div_less mult.commute)
  with Suc show ?case by (simp add: dec_val_append digit_val_def)
qed simp

lemma take_fixed_pad: "n < 10 ^ k \<Longrightarrow> take_fixed k (pad_dec k n @ s) = Some (n, s)"
  by (simp add: take_fixed_def pad_dec_digits dec_val_pad_dec)

lemma take_char_Cons: "take_char c (c # s) = Some s"
  by (simp add: take_char_def)

lemma days_in_le: "days_in m y \<le> 31"
  by (simp add: days_in_def)

lemma is_digit_Z: "\<not> is_digit CHR ''Z''"
  by (simp add: is_digit_def)

lemma skip_fraction_format: "skip_fraction (format_fraction ns @ ''Z'') = ''Z''"
proof -
  let ?ds = "strings_TrimRight (pad_dec 9 ns) ''0''"
  have digs: "\<forall>c\<in>set ?ds. is_digit c"
    using set_mono_prefix [OF strings_TrimRight_prefix [of "pad_dec 9 ns" "''0''"]]
      pad_dec_digits [of 9 ns] by (auto simp: list_all_iff)
  show ?thesis
  proof (cases ?ds)
    case Nil
    then show ?thesis by (simp add: format_fraction_def skip_fraction_def)
  next
    case (Cons d ds)
    with digs have "is_digit d" "\<forall>c\<in>set ds. is_digit c" by auto
    with Cons show ?thesis
      by (simp add: format_fraction_def skip_fraction_def is_digit_Z dropWhile_append)
  qed
qed

lemma format_parses:
  assumes "utc_ok t"
  shows "parse_RFC3339Nano (format_RFC3339Nano t)"
proof -
  have "t_year t < 10 ^ 4" "t_month t < 10 ^ 2" "t_day t < 10 ^ 2" "t_hour t < 10 ^ 2"
    "t_minute t < 10 ^ 2" "t_second t < 10 ^ 2"
    using assms days_in_le [of "t_month t" "t_year t"] by (auto simp: utc_ok_def)
  then show ?thesis
    using assms
    by (simp add: parse_RFC3339Nano_def format_RFC3339Nano_def format_seconds_def take_fixed_pad
        take_char_Cons take_hour_def skip_fraction_format ok_if_def utc_ok_def zone_ok_def)
qed

lemma parse_empty [simp]: "\<not> parse_RFC3339Nano []"
  by (simp add: parse_RFC3339Nano_def take_fixed_def)

end
