(* ===== verification/StateSchema.thy ===== *)
theory StateSchema
  imports Bolt GoTime
begin

text \<open>
  \<^verbatim>\<open>internal/scanner/state_schema.go\<close> and \<^verbatim>\<open>state_layout.go\<close>: the layout of the state database
  and its versioned metadata. Every later operation starts by validating the metadata.
\<close>

section \<open>Layout\<close>

definition stateScopeBucket :: string where
  "stateScopeBucket = ''scope''"

definition stateBaselineBucket :: string where
  "stateBaselineBucket = ''baseline''"

definition stateScanBucket :: string where
  "stateScanBucket = ''scan''"

definition stateMetadataBucket :: string where
  "stateMetadataBucket = ''metadata''"

definition stateSchemaVersionKey :: string where
  "stateSchemaVersionKey = ''schema_version''"

definition stateCreatedAtKey :: string where
  "stateCreatedAtKey = ''created_at''"

definition stateSchemaVersion :: string where
  "stateSchemaVersion = ''1''"

lemmas layout_defs = stateScopeBucket_def stateBaselineBucket_def stateScanBucket_def
  stateMetadataBucket_def stateSchemaVersionKey_def stateCreatedAtKey_def stateSchemaVersion_def

text \<open>The bucket paths of a scope, its committed baseline and its current scans.\<close>

definition scope_path :: "string \<Rightarrow> path" where
  "scope_path scopeID = [stateScopeBucket, scopeID]"

definition baseline_path :: "string \<Rightarrow> path" where
  "baseline_path scopeID = [stateScopeBucket, scopeID, stateBaselineBucket]"

definition scans_path :: "string \<Rightarrow> path" where
  "scans_path scopeID = [stateScopeBucket, scopeID, stateScanBucket]"

definition scan_path :: "string \<Rightarrow> string \<Rightarrow> path" where
  "scan_path scopeID scanID = [stateScopeBucket, scopeID, stateScanBucket, scanID]"

lemmas path_defs = scope_path_def baseline_path_def scans_path_def scan_path_def

section \<open>Operations\<close>

definition validateStateSchema :: "('db, 'tx) bolt \<Rightarrow> 'tx \<Rightarrow> error option" where
  "validateStateSchema B tx =
     (if \<not> bolt_bucket B [] stateMetadataBucket tx then Some (Sentinel ErrUnversionedStateSchema)
      else (case bolt_get B [stateMetadataBucket] stateSchemaVersionKey tx of
          None \<Rightarrow> Some (Sentinel ErrUnversionedStateSchema)
        | Some version \<Rightarrow>
            if version \<noteq> stateSchemaVersion
            then Some (Wrapf (Sentinel ErrUnsupportedStateSchemaVersion) ''found, supported'')
            else
              (let createdAt = (case bolt_get B [stateMetadataBucket] stateCreatedAtKey tx of
                     None \<Rightarrow> [] | Some v \<Rightarrow> v) in
               if parse_RFC3339Nano createdAt then None
               else Some (Wrapf (Sentinel ErrInvalidStateSchemaMetadata) ''created_at''))))"

text \<open>\<^verbatim>\<open>if err := validateStateSchema(tx); err != nil { return err }\<close>\<close>

definition validateT :: "('db, 'tx) bolt \<Rightarrow> ('tx, unit) txm" where
  "validateT B = bindT (readT (validateStateSchema B))
     (\<lambda>r. case r of None \<Rightarrow> returnT () | Some e \<Rightarrow> failT e)"

definition InitializeStateSchema_tx :: "('db, 'tx) bolt \<Rightarrow> utc_time \<Rightarrow> ('tx, unit) txm" where
  "InitializeStateSchema_tx B now =
     bindT (readT (bolt_bucket B [] stateMetadataBucket)) (\<lambda>metadata.
       if \<not> metadata then
         bindT (readT (bolt_entries B [])) (\<lambda>entries.
           if entries \<noteq> [] then failT (Sentinel ErrUnversionedStateSchema)
           else
             bindT (execT (bolt_create B [] stateMetadataBucket)) (\<lambda>_.
             bindT (execT (bolt_put B [stateMetadataBucket] stateSchemaVersionKey
               stateSchemaVersion)) (\<lambda>_.
             execT (bolt_put B [stateMetadataBucket] stateCreatedAtKey
               (format_RFC3339Nano now)))))
       else validateT B)"

definition InitializeStateSchema ::
  "('db, 'tx) bolt \<Rightarrow> utc_time \<Rightarrow> 'db \<Rightarrow> (error + unit) \<times> 'db" where
  "InitializeStateSchema B now db = db_Update B (InitializeStateSchema_tx B now) db"

section \<open>The abstract schema\<close>

text \<open>A store whose metadata this version of the code accepts.\<close>

definition schema_ok :: "store \<Rightarrow> bool" where
  "schema_ok s \<longleftrightarrow>
     s [stateMetadataBucket] = Some BBucket
     \<and> s [stateMetadataBucket, stateSchemaVersionKey] = Some (BVal stateSchemaVersion)
     \<and> (\<exists>v. s [stateMetadataBucket, stateCreatedAtKey] = Some (BVal v) \<and> parse_RFC3339Nano v)"

definition fresh_store :: "utc_time \<Rightarrow> store" where
  "fresh_store now =
     [[stateMetadataBucket] \<mapsto> BBucket,
      [stateMetadataBucket, stateSchemaVersionKey] \<mapsto> BVal stateSchemaVersion,
      [stateMetadataBucket, stateCreatedAtKey] \<mapsto> BVal (format_RFC3339Nano now)]"

lemma parse_empty_time [simp]: "\<not> parse_RFC3339Nano []"
  by (rule parse_empty)

lemma validate_schema_ok: "validateStateSchema (spec_bolt l) t = None \<longleftrightarrow> schema_ok (snd t)"
  by (auto simp: validateStateSchema_def schema_ok_def spec_bucket_def spec_get_def bval_def
      split: option.splits bentry.splits)

text \<open>A schema that is not accepted is refused with one of the three schema errors.\<close>

definition schema_error :: "error \<Rightarrow> bool" where
  "schema_error e \<longleftrightarrow> errors_Is e ErrUnversionedStateSchema
     \<or> errors_Is e ErrUnsupportedStateSchemaVersion \<or> errors_Is e ErrInvalidStateSchemaMetadata"

lemma validate_schema_error: "validateStateSchema B tx = Some e \<Longrightarrow> schema_error e"
  by (auto simp: validateStateSchema_def schema_error_def Let_def split: option.splits if_splits)

lemma validateT_spec:
  "validateT (spec_bolt l) t =
     (case validateStateSchema (spec_bolt l) t of None \<Rightarrow> Inr ((), t) | Some e \<Rightarrow> Inl e)"
  by (simp add: validateT_def txm_defs split: option.splits)

lemma validateT_ok: "schema_ok (snd t) \<Longrightarrow> validateT (spec_bolt l) t = Inr ((), t)"
  by (simp add: validateT_spec iffD2 [OF validate_schema_ok])

lemma validateT_bad:
  "\<not> schema_ok (snd t) \<Longrightarrow> \<exists>e. validateT (spec_bolt l) t = Inl e \<and> schema_error e"
  using validate_schema_ok [of l t] validate_schema_error [of "spec_bolt l" t]
  by (auto simp: validateT_spec split: option.splits)

lemma validateT_Inr: "validateT (spec_bolt l) t = Inr (u, t') \<longleftrightarrow> schema_ok (snd t) \<and> t' = t"
  using validateT_ok [of t l] validateT_bad [of t l] by (cases "schema_ok (snd t)") auto

context bbolt
begin

lemma validate_view: "validateStateSchema B tx = validateStateSchema spec (txv tx)"
  by (auto simp: validateStateSchema_def bucket_view get_view split: option.split)

lemma sim_validate: "simT txv (validateT B) (validateT spec)"
  unfolding validateT_def by (intro simI simT_read) (simp add: validate_view)

lemma sim_Initialize: "simT txv (InitializeStateSchema_tx B now) (InitializeStateSchema_tx spec now)"
  unfolding InitializeStateSchema_tx_def by (intro simI sim_ops sim_validate)

end

lemma wfT_validate [wfTI]: "wfT (validateT (spec_bolt l))"
  by (auto simp: wfT_def validateT_Inr)

lemma wfT_Initialize: "wfT (InitializeStateSchema_tx (spec_bolt l) now)"
  unfolding InitializeStateSchema_tx_def by (intro wfTI)

lemma children_root_empty:
  assumes "store_wf s"
  shows "children s [] = {} \<longleftrightarrow> s = Map.empty"
proof
  assume e: "children s [] = {}"
  have "s p = None" for p
  proof (induction p rule: rev_induct)
    case Nil
    then show ?case using assms by (simp add: store_wf_def)
  next
    case (snoc k p)
    show ?case
    proof (cases "p = []")
      case True
      with e show ?thesis by (auto simp: children_def)
    next
      case False
      with snoc assms show ?thesis by (metis is_bucket_def option.distinct(1) store_wf_parent)
    qed
  qed
  then show "s = Map.empty" by blast
qed (simp add: children_def)

lemma spec_entries_Nil: "store_wf (snd t) \<Longrightarrow> spec_entries p t = [] \<longleftrightarrow> children (snd t) p = {}"
  by (simp add: spec_entries_def)

lemma schema_ok_fresh: "utc_ok now \<Longrightarrow> schema_ok (fresh_store now)"
  by (simp add: schema_ok_def fresh_store_def format_parses layout_defs)

lemma length_format_RFC3339Nano: "length (format_RFC3339Nano t) \<le> 30"
proof -
  have "length (strings_TrimRight (pad_dec 9 n) ''0'') \<le> 9" for n
    using length_strings_TrimRight [of "pad_dec 9 n" "''0''"] by simp
  then show ?thesis
    by (simp add: format_RFC3339Nano_def format_seconds_def format_fraction_def Let_def)
qed

lemma Initialize_spec:
  assumes "store_wf s"
  shows "InitializeStateSchema_tx (spec_bolt l) now (True, s) =
     (if s = Map.empty then Inr ((), (True, fresh_store now))
      else if s [stateMetadataBucket] \<noteq> Some BBucket then Inl (Sentinel ErrUnversionedStateSchema)
      else validateT (spec_bolt l) (True, s))"
proof -
  have len: "length (format_RFC3339Nano now) \<le> maxValueSize"
    using length_format_RFC3339Nano [of now] by (simp add: maxValueSize_def)
  have "s \<noteq> Map.empty" if "s [stateMetadataBucket] = Some BBucket" using that by auto
  moreover have "InitializeStateSchema_tx (spec_bolt l) now (True, Map.empty)
      = Inr ((), (True, fresh_store now))"
    using len by (simp add: InitializeStateSchema_tx_def txm_defs spec_bucket_def spec_entries_def
      children_def spec_create_def spec_put_def layout_defs maxKeySize_def maxValueSize_def
      fresh_store_def)
  ultimately show ?thesis
    using assms children_root_empty [OF assms] spec_entries_Nil [of "(True, s)" "[]"]
    by (auto simp: InitializeStateSchema_tx_def bindT_def readT_def failT_def spec_bucket_def)
qed

lemma Initialize_spec_result:
  assumes "store_wf s" "utc_ok now"
  shows "case InitializeStateSchema_tx (spec_bolt l) now (True, s) of
      Inl e \<Rightarrow> s \<noteq> Map.empty \<and> \<not> schema_ok s \<and> schema_error e
    | Inr (u, t) \<Rightarrow> (s = Map.empty \<or> schema_ok s) \<and> schema_ok (snd t) \<and> store_wf (snd t)
        \<and> snd t = (if s = Map.empty then fresh_store now else s)"
proof (cases "InitializeStateSchema_tx (spec_bolt l) now (True, s)")
  case (Inl e)
  then show ?thesis
    using Initialize_spec [OF assms(1), of l now] validateT_ok [of "(True, s)" l]
      validateT_bad [of "(True, s)" l]
    by (auto simp: schema_ok_def schema_error_def split: if_splits)
next
  case (Inr x)
  obtain u t where x: "x = (u, t)" by (cases x)
  have "store_wf (snd t)"
    using wfT_store [OF wfT_Initialize] Inr x assms(1) by fastforce
  then show ?thesis
    using Inr x Initialize_spec [OF assms(1), of l now] schema_ok_fresh [OF assms(2)]
    by (auto simp: validateT_Inr split: if_splits)
qed

context bbolt
begin

lemma Initialize_result:
  assumes "store_wf (dbv db)" "utc_ok now" "InitializeStateSchema B now db = (r, db')"
  shows "case r of
      Inl e \<Rightarrow> dbv db' = dbv db
        \<and> (storage_ok B (InitializeStateSchema_tx B now) db
             \<longrightarrow> dbv db \<noteq> Map.empty \<and> \<not> schema_ok (dbv db) \<and> schema_error e)
    | Inr u \<Rightarrow> (dbv db = Map.empty \<or> schema_ok (dbv db)) \<and> schema_ok (dbv db') \<and> store_wf (dbv db')
        \<and> dbv db' = (if dbv db = Map.empty then fresh_store now else dbv db)"
proof (cases r)
  case (Inl e)
  then show ?thesis
    using assms Update_Inl Update_result [OF sim_Initialize, of now db]
      Initialize_spec_result [OF assms(1,2), of "bolt_long_name B"]
    by (fastforce simp: InitializeStateSchema_def split: sum.splits)
next
  case (Inr u)
  then show ?thesis
    using assms Update_Inr [OF sim_Initialize, of now db u db']
      Initialize_spec_result [OF assms(1,2), of "bolt_long_name B"]
    by (auto simp: InitializeStateSchema_def split: sum.splits)
qed

end

text \<open>C19: opening the state. An empty database gets exactly the metadata of version 1, with the
  time of creation; a database whose metadata is accepted is left as it is; any other database is
  refused with a schema error and left as it is. As long as the storage itself does not fail, the
  call succeeds exactly on empty and on accepted databases.\<close>
theorem InitializeStateSchema_correct:
  assumes "bbolt B dbv txv" "store_wf (dbv db)" "utc_ok now"
    and "InitializeStateSchema B now db = (r, db')"
  shows "case r of
      Inl e \<Rightarrow> dbv db' = dbv db
        \<and> (storage_ok B (InitializeStateSchema_tx B now) db
             \<longrightarrow> dbv db \<noteq> Map.empty \<and> \<not> schema_ok (dbv db) \<and> schema_error e)
    | Inr u \<Rightarrow> (dbv db = Map.empty \<or> schema_ok (dbv db)) \<and> schema_ok (dbv db') \<and> store_wf (dbv db')
        \<and> dbv db' = (if dbv db = Map.empty then fresh_store now else dbv db)"
  using assms by (rule bbolt.Initialize_result)

definition sample_time :: utc_time where
  "sample_time = \<lparr>t_year = 2026, t_month = 1, t_day = 2, t_hour = 3, t_minute = 4, t_second = 5,
     t_nanosecond = 6\<rparr>"

lemma utc_ok_sample [simp]: "utc_ok sample_time"
  by (simp add: utc_ok_def sample_time_def days_in_def)

lemma store_wf_empty [simp]: "store_wf Map.empty"
  by (simp add: store_wf_def)

lemma fresh_store_scope [simp]: "fresh_store now (stateScopeBucket # q) = None"
  by (simp add: fresh_store_def layout_defs)

lemma store_wf_fresh [simp]: "store_wf (fresh_store now)"
proof -
  let ?s = "[[stateMetadataBucket] \<mapsto> BBucket] :: store"
  have "store_wf ?s" using store_wf_upd [of Map.empty "[]" stateMetadataBucket BBucket] by simp
  then have "store_wf (?s([stateMetadataBucket] @ [stateSchemaVersionKey] \<mapsto> BVal stateSchemaVersion))"
    by (rule store_wf_upd) simp_all
  then have "store_wf ((?s([stateMetadataBucket] @ [stateSchemaVersionKey] \<mapsto> BVal stateSchemaVersion))
      ([stateMetadataBucket] @ [stateCreatedAtKey] \<mapsto> BVal (format_RFC3339Nano now)))"
    by (rule store_wf_upd) (simp_all add: layout_defs)
  then show ?thesis by (simp add: fresh_store_def)
qed

lemma InitializeStateSchema_correct_witness:
  "snd (InitializeStateSchema (spec_bolt (External ''name too long'')) sample_time Map.empty)
     = fresh_store sample_time"
proof -
  let ?B = "spec_bolt (External ''name too long'')"
  obtain r db' where "InitializeStateSchema ?B sample_time Map.empty = (r, db')" by force
  moreover have "storage_ok ?B (InitializeStateSchema_tx ?B sample_time) Map.empty"
    by simp
  ultimately show ?thesis
    using InitializeStateSchema_correct [OF spec_store.bbolt_axioms _ utc_ok_sample,
        of Map.empty "External ''name too long''" r db']
    by (auto split: sum.splits)
qed

end
