(* ===== verification/StateScan.thy ===== *)
theory StateScan
  imports StateSchema
begin

text \<open>
  \<^verbatim>\<open>internal/scanner/state_scan.go\<close>: the bucket that holds the observations of one running
  scan, created on demand or exclusively.
\<close>

text \<open>The three buckets that \<^verbatim>\<open>EnsureCurrentScan\<close>, \<^verbatim>\<open>CreateCurrentScanExclusive\<close> and
  \<^verbatim>\<open>SaveCurrentService\<close> open in the same way.\<close>

definition open_scansT :: "('db, 'tx) bolt \<Rightarrow> string \<Rightarrow> ('tx, unit) txm" where
  "open_scansT B scopeID =
     bindT (execT (bolt_create_if B [] stateScopeBucket)) (\<lambda>_.
     bindT (execT (bolt_create_if B [stateScopeBucket] scopeID)) (\<lambda>_.
     execT (bolt_create_if B (scope_path scopeID) stateScanBucket)))"

definition EnsureCurrentScan_tx :: "('db, 'tx) bolt \<Rightarrow> string \<Rightarrow> string \<Rightarrow> ('tx, unit) txm" where
  "EnsureCurrentScan_tx B scopeID scanID =
     bindT (validateT B) (\<lambda>_.
     bindT (open_scansT B scopeID) (\<lambda>_.
     execT (bolt_create_if B (scans_path scopeID) scanID)))"

definition EnsureCurrentScan ::
  "('db, 'tx) bolt \<Rightarrow> string \<Rightarrow> string \<Rightarrow> 'db \<Rightarrow> (error + unit) \<times> 'db" where
  "EnsureCurrentScan B scopeID scanID db =
     (if scopeID = [] then (Inl (Sentinel ErrInvalidStateScopeID), db)
      else if scanID = [] then (Inl (Sentinel ErrInvalidStateScanID), db)
      else db_Update B (EnsureCurrentScan_tx B scopeID scanID) db)"

definition create_scanT :: "('db, 'tx) bolt \<Rightarrow> string \<Rightarrow> string \<Rightarrow> ('tx, unit) txm" where
  "create_scanT B scopeID scanID tx =
     (case execT (bolt_create B (scans_path scopeID) scanID) tx of
        Inr r \<Rightarrow> Inr r
      | Inl err \<Rightarrow>
          if errors_Is err BoltErrBucketExists
          then Inl (Wrapf (Sentinel ErrStateScanAlreadyExists) ''scope scan'')
          else Inl err)"

definition CreateCurrentScanExclusive_tx ::
  "('db, 'tx) bolt \<Rightarrow> string \<Rightarrow> string \<Rightarrow> ('tx, unit) txm" where
  "CreateCurrentScanExclusive_tx B scopeID scanID =
     bindT (validateT B) (\<lambda>_.
     bindT (open_scansT B scopeID) (\<lambda>_.
     create_scanT B scopeID scanID))"

definition CreateCurrentScanExclusive ::
  "('db, 'tx) bolt \<Rightarrow> string \<Rightarrow> string \<Rightarrow> 'db \<Rightarrow> (error + unit) \<times> 'db" where
  "CreateCurrentScanExclusive B scopeID scanID db =
     (if scopeID = [] then (Inl (Sentinel ErrInvalidStateScopeID), db)
      else if scanID = [] then (Inl (Sentinel ErrInvalidStateScanID), db)
      else db_Update B (CreateCurrentScanExclusive_tx B scopeID scanID) db)"

section \<open>On the abstract store\<close>

text \<open>The store after the buckets of a scope, and of a scan, have been opened.\<close>

definition with_scans :: "string \<Rightarrow> store \<Rightarrow> store" where
  "with_scans scopeID s =
     s([stateScopeBucket] \<mapsto> BBucket, scope_path scopeID \<mapsto> BBucket, scans_path scopeID \<mapsto> BBucket)"

definition with_scan :: "string \<Rightarrow> string \<Rightarrow> store \<Rightarrow> store" where
  "with_scan scopeID scanID s = (with_scans scopeID s)(scan_path scopeID scanID \<mapsto> BBucket)"

text \<open>No plain value stands where the layout has a bucket, and the names fit bbolt.\<close>

definition no_value :: "store \<Rightarrow> path \<Rightarrow> bool" where
  "no_value s p \<longleftrightarrow> bval (s p) = None"

definition scans_openable :: "string \<Rightarrow> store \<Rightarrow> bool" where
  "scans_openable scopeID s \<longleftrightarrow>
     scopeID \<noteq> [] \<and> length scopeID \<le> maxKeySize
     \<and> no_value s [stateScopeBucket] \<and> no_value s (scope_path scopeID)
     \<and> no_value s (scans_path scopeID)"

definition scan_openable :: "string \<Rightarrow> string \<Rightarrow> store \<Rightarrow> bool" where
  "scan_openable scopeID scanID s \<longleftrightarrow>
     scans_openable scopeID s \<and> scanID \<noteq> [] \<and> length scanID \<le> maxKeySize
     \<and> no_value s (scan_path scopeID scanID)"

lemma no_value_cases: "no_value s p \<longleftrightarrow> s p = None \<or> s p = Some BBucket"
  by (auto simp: no_value_def bval_def split: option.splits bentry.splits)

lemma spec_create_if_cases:
  "spec_create_if l p k t =
     (if \<not> fst t then Inl (Sentinel BoltErrTxNotWritable)
      else if k = [] then Inl (Sentinel BoltErrBucketNameRequired)
      else if \<not> is_bucket (snd t) p then Inl (Sentinel BoltErrBucketNotFound)
      else if snd t (p @ [k]) = Some BBucket then Inr t
      else if snd t (p @ [k]) \<noteq> None then Inl (Sentinel BoltErrIncompatibleValue)
      else if maxKeySize < length k
        then (if l = Sentinel BoltErrBucketExists \<and> snd t (p @ [k]) = Some BBucket then Inr t else Inl l)
      else Inr (True, (snd t)(p @ [k] \<mapsto> BBucket)))"
  by (auto simp: spec_create_if_def spec_create_def split: option.splits bentry.splits)

lemma create_if_step:
  assumes "is_bucket s p" "k \<noteq> []"
  shows "execT (spec_create_if l p k) (True, s) =
     (if s (p @ [k]) = Some BBucket \<or> s (p @ [k]) = None \<and> length k \<le> maxKeySize
      then Inr ((), (True, s(p @ [k] \<mapsto> BBucket)))
      else if s (p @ [k]) \<noteq> None then Inl (Sentinel BoltErrIncompatibleValue) else Inl l)"
  using assms by (auto simp: execT_def spec_create_if_cases fun_upd_idem)

lemma layout_short [simp]: "length stateScopeBucket \<le> maxKeySize" "length stateScanBucket \<le> maxKeySize"
  "length stateBaselineBucket \<le> maxKeySize" "stateScopeBucket \<noteq> []" "stateScanBucket \<noteq> []"
  "stateBaselineBucket \<noteq> []" "stateBaselineBucket \<noteq> stateScanBucket"
  "stateScanBucket \<noteq> stateBaselineBucket" "stateScopeBucket \<noteq> stateMetadataBucket"
  "stateMetadataBucket \<noteq> stateScopeBucket"
  by (simp_all add: layout_defs maxKeySize_def)

lemma open_scans_spec:
  assumes "scans_openable scopeID s"
  shows "open_scansT (spec_bolt l) scopeID (True, s) = Inr ((), (True, with_scans scopeID s))"
proof -
  have "execT (spec_create_if l [] stateScopeBucket) (True, s)
      = Inr ((), (True, s([stateScopeBucket] \<mapsto> BBucket)))"
    using assms by (subst create_if_step) (auto simp: scans_openable_def no_value_cases)
  moreover have "execT (spec_create_if l [stateScopeBucket] scopeID)
        (True, s([stateScopeBucket] \<mapsto> BBucket))
      = Inr ((), (True, s([stateScopeBucket] \<mapsto> BBucket, scope_path scopeID \<mapsto> BBucket)))"
    using assms by (subst create_if_step) (auto simp: scans_openable_def no_value_cases path_defs)
  moreover have "execT (spec_create_if l (scope_path scopeID) stateScanBucket)
        (True, s([stateScopeBucket] \<mapsto> BBucket, scope_path scopeID \<mapsto> BBucket))
      = Inr ((), (True, with_scans scopeID s))"
    using assms by (subst create_if_step)
      (auto simp: scans_openable_def no_value_cases path_defs with_scans_def)
  ultimately show ?thesis by (simp add: open_scansT_def bindT_def)
qed

lemma open_scans_Inr:
  assumes "open_scansT (spec_bolt l) scopeID (True, s) = Inr (u, t)" "scopeID \<noteq> []"
  shows "t = (True, with_scans scopeID s)"
proof -
  have step: "s' (p @ [k]) \<noteq> Some BBucket \<longrightarrow> s' (p @ [k]) = None"
    "t' = (True, s'(p @ [k] \<mapsto> BBucket))"
    if "execT (spec_create_if l p k) (True, s') = Inr (u', t')" for s' p k u' t'
    using that by (auto simp: execT_def spec_create_if_cases fun_upd_idem split: if_splits)
  show ?thesis
    using assms(1)
    by (auto simp: open_scansT_def bindT_eq_Inr with_scans_def path_defs dest!: step(2))
qed

text \<open>Everything outside the opened buckets is untouched.\<close>

lemma with_scan_frame:
  "p \<notin> {[stateScopeBucket], scope_path scopeID, scans_path scopeID, scan_path scopeID scanID}
     \<Longrightarrow> with_scan scopeID scanID s p = s p"
  by (simp add: with_scan_def with_scans_def)

lemma with_scan_idem [simp]: "with_scan sc sn (with_scan sc sn s) = with_scan sc sn s"
  by (rule ext) (simp add: with_scan_def with_scans_def)

lemma with_scans_other [simp]:
  "with_scans sc s (baseline_path sc') = s (baseline_path sc')"
  "with_scans sc s (scan_path sc' sn) = s (scan_path sc' sn)"
  "with_scans sc s (stateMetadataBucket # q) = s (stateMetadataBucket # q)"
  "with_scans sc s (baseline_path sc' @ q) = s (baseline_path sc' @ q)"
  by (auto simp: with_scans_def path_defs)

lemma with_scan_other [simp]:
  "with_scan sc sn s (baseline_path sc' @ q) = s (baseline_path sc' @ q)"
  "with_scan sc sn s (baseline_path sc') = s (baseline_path sc')"
  "with_scan sc sn s (stateMetadataBucket # q) = s (stateMetadataBucket # q)"
  by (auto simp: with_scan_def with_scans_def path_defs)

lemma schema_ok_with_scan [simp]: "schema_ok (with_scan sc sn s) = schema_ok s"
  "schema_ok (with_scans sc s) = schema_ok s"
  by (simp_all add: schema_ok_def)

context bbolt
begin

lemma sim_open_scans: "simT txv (open_scansT B scopeID) (open_scansT spec scopeID)"
  unfolding open_scansT_def by (intro simI sim_ops)

lemma sim_Ensure: "simT txv (EnsureCurrentScan_tx B sc sn) (EnsureCurrentScan_tx spec sc sn)"
  unfolding EnsureCurrentScan_tx_def by (intro simI sim_ops sim_validate sim_open_scans)

lemma sim_create_scan: "simT txv (create_scanT B sc sn) (create_scanT spec sc sn)"
  using sim_ops(4) [of "scans_path sc" sn]
  by (auto simp: simT_def create_scanT_def split: sum.splits)

lemma sim_Exclusive:
  "simT txv (CreateCurrentScanExclusive_tx B sc sn) (CreateCurrentScanExclusive_tx spec sc sn)"
  unfolding CreateCurrentScanExclusive_tx_def
  by (intro simI sim_validate sim_open_scans sim_create_scan)

end

lemma wfT_open_scans [wfTI]: "wfT (open_scansT (spec_bolt l) sc)"
  unfolding open_scansT_def by (intro wfTI)

lemma wfT_Ensure: "wfT (EnsureCurrentScan_tx (spec_bolt l) sc sn)"
  unfolding EnsureCurrentScan_tx_def by (intro wfTI)

lemma wfT_create_scan [wfTI]: "wfT (create_scanT (spec_bolt l) sc sn)"
  using wfT_create [of l "scans_path sc" sn]
  by (auto simp: wfT_def create_scanT_def split: sum.splits if_splits)

lemma wfT_Exclusive: "wfT (CreateCurrentScanExclusive_tx (spec_bolt l) sc sn)"
  unfolding CreateCurrentScanExclusive_tx_def by (intro wfTI)

section \<open>Reserving a scan\<close>

lemma create_scan_step:
  assumes "s (scans_path sc) = Some BBucket" "sn \<noteq> []"
  shows "create_scanT (spec_bolt l) sc sn (True, s) =
     (case s (scan_path sc sn) of
        Some BBucket \<Rightarrow> Inl (Wrapf (Sentinel ErrStateScanAlreadyExists) ''scope scan'')
      | Some (BVal v) \<Rightarrow> Inl (Sentinel BoltErrIncompatibleValue)
      | None \<Rightarrow> if length sn \<le> maxKeySize then Inr ((), (True, s(scan_path sc sn \<mapsto> BBucket)))
                else if errors_Is l BoltErrBucketExists
                  then Inl (Wrapf (Sentinel ErrStateScanAlreadyExists) ''scope scan'') else Inl l)"
  using assms
  by (auto simp: create_scanT_def execT_def spec_create_def path_defs split: option.splits bentry.splits)

lemma Exclusive_spec:
  assumes "schema_ok s" "scan_openable sc sn s"
  shows "CreateCurrentScanExclusive_tx (spec_bolt l) sc sn (True, s) =
     (if s (scan_path sc sn) = None then Inr ((), (True, with_scan sc sn s))
      else Inl (Wrapf (Sentinel ErrStateScanAlreadyExists) ''scope scan''))"
proof -
  have "with_scans sc s (scans_path sc) = Some BBucket" by (simp add: with_scans_def)
  then show ?thesis
    using assms
    by (auto simp: CreateCurrentScanExclusive_tx_def bindT_def validateT_ok open_scans_spec
        scan_openable_def create_scan_step no_value_cases with_scan_def)
qed

lemma Exclusive_spec_Inr:
  assumes "CreateCurrentScanExclusive_tx (spec_bolt l) sc sn (True, s) = Inr (u, t)"
    and "sc \<noteq> []" "sn \<noteq> []"
  shows "schema_ok s \<and> s (scan_path sc sn) = None \<and> snd t = with_scan sc sn s"
proof -
  have "with_scans sc s (scans_path sc) = Some BBucket" by (simp add: with_scans_def)
  then show ?thesis
    using assms
    by (auto simp: CreateCurrentScanExclusive_tx_def bindT_eq_Inr validateT_Inr create_scan_step
        with_scan_def dest!: open_scans_Inr split: option.splits bentry.splits if_splits)
qed

lemma Ensure_spec:
  assumes "schema_ok s" "scan_openable sc sn s"
  shows "EnsureCurrentScan_tx (spec_bolt l) sc sn (True, s) = Inr ((), (True, with_scan sc sn s))"
proof -
  have "execT (spec_create_if l (scans_path sc) sn) (True, with_scans sc s)
      = Inr ((), (True, with_scan sc sn s))"
    using assms by (subst create_if_step)
      (auto simp: scan_openable_def no_value_cases with_scan_def with_scans_def path_defs)
  then show ?thesis
    using assms
    by (simp add: EnsureCurrentScan_tx_def bindT_def validateT_ok open_scans_spec scan_openable_def)
qed

lemma Ensure_spec_Inr:
  assumes "EnsureCurrentScan_tx (spec_bolt l) sc sn (True, s) = Inr (u, t)" "sc \<noteq> []" "sn \<noteq> []"
  shows "schema_ok s \<and> snd t = with_scan sc sn s"
proof -
  have "t = (True, (with_scans sc s)(scan_path sc sn \<mapsto> BBucket))"
    if "execT (spec_create_if l (scans_path sc) sn) (True, with_scans sc s) = Inr (u', t)" for u'
    using that by (auto simp: execT_def spec_create_if_cases fun_upd_idem path_defs split: if_splits)
  then show ?thesis
    using assms
    by (auto simp: EnsureCurrentScan_tx_def bindT_eq_Inr validateT_Inr with_scan_def
        dest!: open_scans_Inr)
qed

context bbolt
begin

lemma Exclusive_wf:
  assumes "store_wf (dbv db)"
  shows "store_wf (dbv (snd (CreateCurrentScanExclusive B sc sn db)))"
  using assms Update_wf [OF sim_Exclusive wfT_Exclusive assms, of sc sn]
  by (simp add: CreateCurrentScanExclusive_def)

lemma Exclusive_result:
  assumes "CreateCurrentScanExclusive B sc sn db = (r, db')"
  shows "case r of
      Inr u \<Rightarrow> sc \<noteq> [] \<and> sn \<noteq> [] \<and> schema_ok (dbv db) \<and> dbv db (scan_path sc sn) = None
        \<and> dbv db' = with_scan sc sn (dbv db)
    | Inl e \<Rightarrow> dbv db' = dbv db
        \<and> (schema_ok (dbv db) \<and> scan_openable sc sn (dbv db)
            \<and> storage_ok B (CreateCurrentScanExclusive_tx B sc sn) db
            \<longrightarrow> dbv db (scan_path sc sn) = Some BBucket \<and> errors_Is e ErrStateScanAlreadyExists)"
proof (cases r)
  case (Inl e)
  have db': "dbv db' = dbv db"
    using Inl assms Update_Inl by (auto simp: CreateCurrentScanExclusive_def split: if_splits)
  moreover have "dbv db (scan_path sc sn) = Some BBucket \<and> errors_Is e ErrStateScanAlreadyExists"
    if h: "schema_ok (dbv db)" "scan_openable sc sn (dbv db)"
      "storage_ok B (CreateCurrentScanExclusive_tx B sc sn) db"
  proof -
    have "sc \<noteq> []" "sn \<noteq> []" using h(2) by (simp_all add: scan_openable_def scans_openable_def)
    then have "CreateCurrentScanExclusive_tx spec sc sn (True, dbv db) = Inl e"
      using assms Inl Update_error [OF sim_Exclusive h(3)]
      by (simp add: CreateCurrentScanExclusive_def)
    then show ?thesis
      using h by (auto simp: Exclusive_spec scan_openable_def no_value_cases split: if_splits)
  qed
  ultimately show ?thesis using Inl by simp
next
  case (Inr u)
  then show ?thesis
    using assms Update_Inr [OF sim_Exclusive, of sc sn db u db']
    by (auto simp: CreateCurrentScanExclusive_def split: if_splits dest!: Exclusive_spec_Inr)
qed

lemma Ensure_result:
  assumes "EnsureCurrentScan B sc sn db = (r, db')"
  shows "case r of
      Inr u \<Rightarrow> sc \<noteq> [] \<and> sn \<noteq> [] \<and> schema_ok (dbv db) \<and> dbv db' = with_scan sc sn (dbv db)
    | Inl e \<Rightarrow> dbv db' = dbv db
        \<and> \<not> (schema_ok (dbv db) \<and> scan_openable sc sn (dbv db)
              \<and> storage_ok B (EnsureCurrentScan_tx B sc sn) db)"
proof (cases r)
  case (Inl e)
  have db': "dbv db' = dbv db"
    using Inl assms Update_Inl by (auto simp: EnsureCurrentScan_def split: if_splits)
  moreover have False
    if h: "schema_ok (dbv db)" "scan_openable sc sn (dbv db)"
      "storage_ok B (EnsureCurrentScan_tx B sc sn) db"
  proof -
    have "sc \<noteq> []" "sn \<noteq> []" using h(2) by (simp_all add: scan_openable_def scans_openable_def)
    then show False
      using assms Inl Update_error [OF sim_Ensure h(3)] h
      by (simp add: EnsureCurrentScan_def Ensure_spec)
  qed
  ultimately show ?thesis using Inl by auto
next
  case (Inr u)
  then show ?thesis
    using assms Update_Inr [OF sim_Ensure, of sc sn db u db']
    by (auto simp: EnsureCurrentScan_def split: if_splits dest!: Ensure_spec_Inr)
qed

end

text \<open>C18: reserving a scan identifier. \<^verbatim>\<open>CreateCurrentScanExclusive\<close> succeeds only on an accepted
  schema and on an identifier that has no bucket yet in its scope; it then adds the empty bucket
  of the scan (and the buckets above it) and nothing else. When the schema is accepted, the names
  fit the store and the storage does not fail, the one reason for an error is that the identifier
  is taken, and the error says so. No failed call changes the database.\<close>
theorem CreateCurrentScanExclusive_fresh:
  assumes "bbolt B dbv txv" "CreateCurrentScanExclusive B scopeID scanID db = (r, db')"
  shows "case r of
      Inr u \<Rightarrow> scopeID \<noteq> [] \<and> scanID \<noteq> [] \<and> schema_ok (dbv db)
        \<and> dbv db (scan_path scopeID scanID) = None
        \<and> dbv db' = with_scan scopeID scanID (dbv db)
    | Inl e \<Rightarrow> dbv db' = dbv db
        \<and> (schema_ok (dbv db) \<and> scan_openable scopeID scanID (dbv db)
            \<and> storage_ok B (CreateCurrentScanExclusive_tx B scopeID scanID) db
            \<longrightarrow> dbv db (scan_path scopeID scanID) = Some BBucket
              \<and> errors_Is e ErrStateScanAlreadyExists)"
  using assms by (rule bbolt.Exclusive_result)

lemma scan_openable_fresh [simp]:
  "scan_openable sc sn (fresh_store now) \<longleftrightarrow>
     sc \<noteq> [] \<and> length sc \<le> maxKeySize \<and> sn \<noteq> [] \<and> length sn \<le> maxKeySize"
  by (auto simp: scan_openable_def scans_openable_def no_value_cases fresh_store_def path_defs)

lemma CreateCurrentScanExclusive_fresh_witness:
  "snd (CreateCurrentScanExclusive (spec_bolt (External ''name too long'')) ''s'' ''a''
      (fresh_store sample_time)) = with_scan ''s'' ''a'' (fresh_store sample_time)"
proof -
  let ?B = "spec_bolt (External ''name too long'')" and ?s = "fresh_store sample_time"
  obtain r db' where r: "CreateCurrentScanExclusive ?B ''s'' ''a'' ?s = (r, db')" by force
  have "schema_ok ?s" "scan_openable ''s'' ''a'' ?s"
    by (simp_all add: schema_ok_fresh maxKeySize_def)
  moreover have "?s (scan_path ''s'' ''a'') \<noteq> Some BBucket"
    by (simp add: fresh_store_def path_defs)
  ultimately show ?thesis
    using CreateCurrentScanExclusive_fresh [OF spec_store.bbolt_axioms r] r
    by (auto split: sum.splits)
qed

text \<open>\<^verbatim>\<open>EnsureCurrentScan\<close> makes the bucket of a scan exist, keeps everything else (what the
  scan already holds and every committed baseline included), and fails only when the schema is
  not accepted, a name does not fit the store or the storage fails.\<close>
lemma EnsureCurrentScan_keeps:
  assumes "bbolt B dbv txv" "EnsureCurrentScan B scopeID scanID db = (r, db')"
  shows "case r of
      Inr u \<Rightarrow> scopeID \<noteq> [] \<and> scanID \<noteq> [] \<and> schema_ok (dbv db)
        \<and> dbv db' = with_scan scopeID scanID (dbv db)
    | Inl e \<Rightarrow> dbv db' = dbv db
        \<and> \<not> (schema_ok (dbv db) \<and> scan_openable scopeID scanID (dbv db)
              \<and> storage_ok B (EnsureCurrentScan_tx B scopeID scanID) db)"
  using assms by (rule bbolt.Ensure_result)

lemma EnsureCurrentScan_keeps_witness:
  "snd (EnsureCurrentScan (spec_bolt (External ''name too long'')) ''s'' ''a''
      (fresh_store sample_time)) = with_scan ''s'' ''a'' (fresh_store sample_time)"
proof -
  let ?B = "spec_bolt (External ''name too long'')" and ?s = "fresh_store sample_time"
  obtain r db' where r: "EnsureCurrentScan ?B ''s'' ''a'' ?s = (r, db')" by force
  have "schema_ok ?s" "scan_openable ''s'' ''a'' ?s"
    by (simp_all add: schema_ok_fresh maxKeySize_def)
  then show ?thesis
    using EnsureCurrentScan_keeps [OF spec_store.bbolt_axioms r] r
    by (auto split: sum.splits)
qed

end
