(* ===== verification/Reservation.thy ===== *)
theory Reservation
  imports TargetPreparation StateScan
begin

text \<open>
  \<^verbatim>\<open>cmd/tcprecon/runtime_reservation.go\<close>: the identifier of a runtime scan and its reservation in
  the state, in at most four attempts. Entropy, the context and the creation of the scan bucket are
  arguments: \<open>ctxErr t\<close> is \<^verbatim>\<open>ctx.Err()\<close> at the \<open>t\<close>-th look, \<open>generate i\<close> the result of the generator
  in attempt \<open>i\<close>.
\<close>

definition runtimeScanIDBytes :: nat where
  "runtimeScanIDBytes = 16"

definition runtimeScanReservationAttempts :: nat where
  "runtimeScanReservationAttempts = 4"

section \<open>Identifiers\<close>

text \<open>\<^verbatim>\<open>io.ReadFull\<close>: the reader is the list of the results of its \<^verbatim>\<open>Read\<close> calls, at end of file
  once the list is used up. A reader returns no more than it is asked for.\<close>

fun io_ReadFull :: "nat \<Rightarrow> string \<Rightarrow> (string \<times> error option) list \<Rightarrow> error + string" where
  "io_ReadFull n buf [] =
     (if n \<le> length buf then Inr buf
      else Inl (Sentinel (if buf = [] then IoEOF else IoErrUnexpectedEOF)))"
| "io_ReadFull n buf ((chunk, err) # reads) =
     (if n \<le> length buf then Inr buf
      else
        (let buf' = buf @ take (n - length buf) chunk in
         if n \<le> length buf' then Inr buf'
         else (case err of
             None \<Rightarrow> io_ReadFull n buf' reads
           | Some e \<Rightarrow>
               Inl (if e = Sentinel IoEOF \<and> buf' \<noteq> [] then Sentinel IoErrUnexpectedEOF else e))))"

definition generateRuntimeScanID :: "(string \<times> error option) list \<Rightarrow> error + string" where
  "generateRuntimeScanID entropy =
     bindE (io_ReadFull runtimeScanIDBytes [] entropy) (\<lambda>val. Inr (hex_EncodeToString val))"

definition validRuntimeScanID :: "string \<Rightarrow> bool" where
  "validRuntimeScanID scanID =
     (if length scanID \<noteq> runtimeScanIDBytes * 2 then False
      else (case hex_DecodeString scanID of
              None \<Rightarrow> False
            | Some decoded \<Rightarrow> hex_EncodeToString decoded = scanID))"

section \<open>Reservation\<close>

type_synonym 'db creator = "string \<Rightarrow> string \<Rightarrow> 'db \<Rightarrow> (error + unit) \<times> 'db"

text \<open>The attempts: \<open>i\<close> is the number of the attempt, \<open>left\<close> how many are left. The joined error is
  never nil, its first part is not.\<close>

fun reserve_attempts ::
  "(nat \<Rightarrow> error option) \<Rightarrow> string \<Rightarrow> (nat \<Rightarrow> error + string) \<Rightarrow> 'db creator
     \<Rightarrow> nat \<Rightarrow> nat \<Rightarrow> error option \<Rightarrow> 'db \<Rightarrow> (error + string) \<times> 'db" where
  "reserve_attempts ctxErr scopeID generate create i 0 collisionErr db =
     (Inl (the (errors_Join [Some (Sentinel ErrRuntimeScanIDCollisions), collisionErr])), db)"
| "reserve_attempts ctxErr scopeID generate create i (Suc left) collisionErr db =
     (case ctxErr i of
        Some err \<Rightarrow> (Inl err, db)
      | None \<Rightarrow>
          (case generate i of
             Inl err \<Rightarrow> (Inl err, db)
           | Inr scanID \<Rightarrow>
               if \<not> validRuntimeScanID scanID
               then (Inl (Wrapf (Sentinel ErrInvalidRuntimeScanID) ''scan ID''), db)
               else (case create scopeID scanID db of
                   (Inr _, db') \<Rightarrow> (Inr scanID, db')
                 | (Inl err, db') \<Rightarrow>
                     if errors_Is err ErrStateScanAlreadyExists
                     then reserve_attempts ctxErr scopeID generate create (Suc i) left (Some err) db'
                     else (Inl err, db'))))"

definition reserveRuntimeScanWith ::
  "(nat \<Rightarrow> error option) \<Rightarrow> string \<Rightarrow> (nat \<Rightarrow> error + string) \<Rightarrow> 'db creator \<Rightarrow> 'db
     \<Rightarrow> (error + string) \<times> 'db" where
  "reserveRuntimeScanWith ctxErr scopeID generate create db =
     reserve_attempts ctxErr scopeID generate create 0 runtimeScanReservationAttempts None db"

definition reserveRuntimeScan ::
  "('db, 'tx) bolt \<Rightarrow> (nat \<Rightarrow> error option) \<Rightarrow> string \<Rightarrow> (nat \<Rightarrow> error + string) \<Rightarrow> 'db
     \<Rightarrow> (error + string) \<times> 'db" where
  "reserveRuntimeScan B ctxErr scopeID generate db =
     reserveRuntimeScanWith ctxErr scopeID generate (CreateCurrentScanExclusive B) db"

record owned_scan =
  owned_scopeID :: string
  owned_scanID :: string
  owned_prepared :: prepared_source

definition owned_ScopeID :: "owned_scan \<Rightarrow> string" where
  "owned_ScopeID s = owned_scopeID s"

definition owned_ScanID :: "owned_scan \<Rightarrow> string" where
  "owned_ScanID s = owned_scanID s"

definition owned_Reader :: "owned_scan \<Rightarrow> string" where
  "owned_Reader s = prepared_Reader (owned_prepared s)"

definition owned_Close :: "spool_env \<Rightarrow> owned_scan \<Rightarrow> error option \<times> owned_scan \<times> effect list" where
  "owned_Close env s =
     (case prepared_Close env (owned_prepared s) of
        (err, p, effects) \<Rightarrow> (err, s\<lparr>owned_prepared := p\<rparr>, effects))"

text \<open>The first look at the context is the look before the attempts. A failed reservation closes the
  prepared source; the \<open>ready\<close> callback, which does nothing in the program, is called in the
  successful case only.\<close>

definition reservePreparedRuntimeScanWith ::
  "(nat \<Rightarrow> error option) \<Rightarrow> spool_env \<Rightarrow> string \<Rightarrow> prepared_source \<Rightarrow> (nat \<Rightarrow> error + string)
     \<Rightarrow> 'db creator \<Rightarrow> 'db \<Rightarrow> ((error + owned_scan) \<times> effect list) \<times> 'db" where
  "reservePreparedRuntimeScanWith ctxErr env scopeID prepared generate create db =
     (case ctxErr 0 of
        Some err \<Rightarrow>
          (case prepared_Close env prepared of
             (closeErr, _, effects) \<Rightarrow> ((Inl (the (errors_Join [Some err, closeErr])), effects), db))
      | None \<Rightarrow>
          (case reserveRuntimeScanWith (\<lambda>i. ctxErr (Suc i)) scopeID generate create db of
             (Inl err, db') \<Rightarrow>
               (case prepared_Close env prepared of
                  (closeErr, _, effects) \<Rightarrow>
                    ((Inl (the (errors_Join [Some err, closeErr])), effects), db'))
           | (Inr scanID, db') \<Rightarrow>
               ((Inr \<lparr>owned_scopeID = scopeID, owned_scanID = scanID, owned_prepared = prepared\<rparr>, []),
                db')))"

section \<open>Valid identifiers\<close>

lemma validRuntimeScanID_iff:
  "validRuntimeScanID scanID \<longleftrightarrow> length scanID = 32 \<and> list_all is_lower_hex scanID"
  using canonical_hex_iff [of scanID]
  by (auto simp: validRuntimeScanID_def runtimeScanIDBytes_def canonical_hex_def split: option.splits)

lemma io_ReadFull_Inr: "io_ReadFull n buf reads = Inr v \<Longrightarrow> length buf \<le> n \<Longrightarrow> length v = n"
  by (induction n buf reads rule: io_ReadFull.induct)
    (auto simp: Let_def split: if_splits option.splits)

text \<open>What a generator over any entropy source makes is accepted.\<close>

lemma generateRuntimeScanID_valid:
  "generateRuntimeScanID entropy = Inr scanID \<Longrightarrow> validRuntimeScanID scanID"
  using io_ReadFull_Inr [of runtimeScanIDBytes "[]" entropy]
  by (auto simp: generateRuntimeScanID_def bindE_eq_Inr validRuntimeScanID_def hex_roundtrip
      length_hex_EncodeToString)

section \<open>Reserving exclusively\<close>

text \<open>What the reservation relies on: \<open>create\<close> makes the bucket of a scan that has none, and changes nothing
  when it fails.\<close>

locale scan_creator =
  fixes create :: "'db creator" and view :: "'db \<Rightarrow> store"
  assumes create_new: "create sc sn db = (Inr u, db')
      \<Longrightarrow> view db (scan_path sc sn) = None \<and> view db' = with_scan sc sn (view db)"
    and create_failed: "create sc sn db = (Inl e, db') \<Longrightarrow> view db' = view db"
begin

lemma reserve_attempts_result:
  assumes "reserve_attempts ctxErr sc generate create i left coll db = (r, db')"
    and "\<And>e. coll = Some e \<Longrightarrow> errors_Is e ErrStateScanAlreadyExists"
  shows "case r of
      Inr sn \<Rightarrow> validRuntimeScanID sn \<and> view db (scan_path sc sn) = None
        \<and> view db' = with_scan sc sn (view db) \<and> (\<exists>j. i \<le> j \<and> j < i + left \<and> generate j = Inr sn)
    | Inl e \<Rightarrow> view db' = view db
        \<and> ((\<exists>j. i \<le> j \<and> j < i + left \<and> (ctxErr j = Some e \<or> generate j = Inl e
              \<or> errors_Is e ErrInvalidRuntimeScanID
              \<or> (\<exists>sn d d'. create sc sn d = (Inl e, d') \<and> view d = view db
                   \<and> validRuntimeScanID sn \<and> \<not> errors_Is e ErrStateScanAlreadyExists)))
          \<or> errors_Is e ErrRuntimeScanIDCollisions)"
  using assms
proof (induction left arbitrary: i coll db)
  case 0
  then have "errors_Is (the (errors_Join [Some (Sentinel ErrRuntimeScanIDCollisions), coll]))
      ErrRuntimeScanIDCollisions"
    by (cases coll) (simp_all add: errors_Join_def map_filter_def)
  with 0 show ?case by auto
next
  case (Suc left)
  show ?case
  proof (cases "ctxErr i")
    case (Some e)
    then have "r = Inl e" "db' = db" using Suc.prems by auto
    with Some show ?thesis by (auto intro!: exI [of _ i])
  next
    case look: None
    show ?thesis
    proof (cases "generate i")
      case (Inl e)
      then have "r = Inl e" "db' = db" using Suc.prems look by auto
      with Inl show ?thesis by (auto intro!: exI [of _ i])
    next
      case gen: (Inr sn)
      show ?thesis
      proof (cases "validRuntimeScanID sn")
        case False
        then have "r = Inl (Wrapf (Sentinel ErrInvalidRuntimeScanID) ''scan ID'')" "db' = db"
          using Suc.prems look gen by auto
        then show ?thesis by (auto intro!: exI [of _ i])
      next
        case valid: True
        obtain q d where q: "create sc sn db = (q, d)" by force
        show ?thesis
        proof (cases q)
          case (Inr u)
          then have "r = Inr sn" "db' = d" using Suc.prems look gen valid q by auto
          with create_new [of sc sn db u d] q Inr valid gen show ?thesis by (auto intro!: exI [of _ i])
        next
          case (Inl e)
          then have d: "view d = view db" using create_failed q by simp
          show ?thesis
          proof (cases "errors_Is e ErrStateScanAlreadyExists")
            case True
            then have "reserve_attempts ctxErr sc generate create (Suc i) left
                (Some e) d = (r, db')"
              using Suc.prems look gen valid q Inl by simp
            note IH = Suc.IH [OF this]
            have widen: "\<exists>j\<ge>i. j < i + Suc left \<and> Q j"
              if "\<exists>j\<ge>Suc i. j < Suc i + left \<and> Q j" for Q
              using that by (metis Suc_leD add_Suc_shift)
            show ?thesis
            proof (cases r)
              case (Inl e1)
              let ?Q = "\<lambda>j. ctxErr j = Some e1 \<or> generate j = Inl e1
                \<or> errors_Is e1 ErrInvalidRuntimeScanID
                \<or> (\<exists>sn d d'. create sc sn d = (Inl e1, d') \<and> view d = view db
                     \<and> validRuntimeScanID sn \<and> \<not> errors_Is e1 ErrStateScanAlreadyExists)"
              have "view db' = view db" "(\<exists>j\<ge>Suc i. j < Suc i + left \<and> ?Q j)
                  \<or> errors_Is e1 ErrRuntimeScanIDCollisions"
                using IH True d Inl by simp_all
              with widen [of ?Q] Inl show ?thesis by (simp only: sum.case) blast
            next
              case (Inr sn1)
              then have "validRuntimeScanID sn1 \<and> view db (scan_path sc sn1) = None
                \<and> view db' = with_scan sc sn1 (view db)"
                "\<exists>j\<ge>Suc i. j < Suc i + left \<and> generate j = Inr sn1"
                using IH True d by simp_all
              with widen [of "\<lambda>j. generate j = Inr sn1"] Inr show ?thesis by simp
            qed
          next
            case False
            then have "r = Inl e" "db' = d" using Suc.prems look gen valid q Inl by auto
            with False q Inl d valid show ?thesis by (auto intro!: exI [of _ i])
          qed
        qed
      qed
    qed
  qed
qed

end

text \<open>The state of the program is such a creator.\<close>

sublocale bbolt \<subseteq> creator: scan_creator "CreateCurrentScanExclusive B" dbv
proof unfold_locales
  show "dbv db (scan_path sc sn) = None \<and> dbv db' = with_scan sc sn (dbv db)"
    if "CreateCurrentScanExclusive B sc sn db = (Inr u, db')" for sc sn db u db'
    using Exclusive_result [OF that] by simp
  show "dbv db' = dbv db" if "CreateCurrentScanExclusive B sc sn db = (Inl e, db')" for sc sn db e db'
    using Exclusive_result [OF that] by simp
qed

context bbolt
begin

lemmas reserve_attempts_state = creator.reserve_attempts_result

end

text \<open>C13: reserving a scan. The identifier that \<^verbatim>\<open>reserveRuntimeScan\<close> answers is 32 lower-case
  hexadecimal digits made by one of at most four calls of the generator, had no bucket in the scope
  before and has an empty one after, which is all that changes. A failed reservation changes
  nothing; its error is the one of the context, of the generator or of the state, or says that an
  identifier was malformed or that all attempts collided.\<close>
theorem reserveRuntimeScan_exclusive:
  assumes "bbolt B dbv txv" "reserveRuntimeScan B ctxErr scopeID generate db = (r, db')"
  shows "case r of
      Inr scanID \<Rightarrow> length scanID = 32 \<and> list_all is_lower_hex scanID
        \<and> (\<exists>i<4. generate i = Inr scanID)
        \<and> dbv db (scan_path scopeID scanID) = None
        \<and> dbv db' = with_scan scopeID scanID (dbv db)
    | Inl e \<Rightarrow> dbv db' = dbv db
        \<and> ((\<exists>i<4. ctxErr i = Some e \<or> generate i = Inl e
              \<or> (errors_Is e ErrInvalidRuntimeScanID)
              \<or> (\<exists>sn d d'. CreateCurrentScanExclusive B scopeID sn d = (Inl e, d') \<and> dbv d = dbv db
                   \<and> validRuntimeScanID sn \<and> \<not> errors_Is e ErrStateScanAlreadyExists))
          \<or> errors_Is e ErrRuntimeScanIDCollisions)"
  using bbolt.reserve_attempts_state [OF assms(1), of ctxErr scopeID generate 0 4 None db r db'] assms(2)
  by (auto simp: reserveRuntimeScan_def reserveRuntimeScanWith_def
      runtimeScanReservationAttempts_def validRuntimeScanID_iff split: sum.splits)


definition sample_scanID :: string where
  "sample_scanID = replicate 32 (CHR ''0'')"

lemma sample_scanID_valid: "validRuntimeScanID sample_scanID"
  by (simp add: validRuntimeScanID_iff sample_scanID_def list_all_iff is_lower_hex_def)

lemma reserveRuntimeScan_exclusive_witness:
  "snd (reserveRuntimeScan (spec_bolt (External ''name too long'')) (\<lambda>_. None) ''s''
      (\<lambda>i. Inr sample_scanID) (fresh_store sample_time))
   = with_scan ''s'' sample_scanID (fresh_store sample_time)"
proof -
  let ?B = "spec_bolt (External ''name too long'')" and ?s = "fresh_store sample_time"
  obtain q d where q: "CreateCurrentScanExclusive ?B ''s'' sample_scanID ?s = (q, d)" by force
  have "schema_ok ?s" by (simp add: schema_ok_fresh)
  moreover have "?s (scan_path ''s'' sample_scanID) \<noteq> Some BBucket"
    by (simp add: fresh_store_def path_defs)
  moreover have "scan_openable ''s'' sample_scanID ?s"
    by (simp add: maxKeySize_def sample_scanID_def)
  ultimately have "q = Inr ()"
    using spec_store.Exclusive_result [OF q] by (cases q) auto
  then obtain db' where r: "reserveRuntimeScan ?B (\<lambda>_. None) ''s'' (\<lambda>i. Inr sample_scanID) ?s
      = (Inr sample_scanID, db')"
    using q sample_scanID_valid
    by (simp add: reserveRuntimeScan_def reserveRuntimeScanWith_def
        runtimeScanReservationAttempts_def eval_nat_numeral)
  show ?thesis
    using reserveRuntimeScan_exclusive [OF spec_store.bbolt_axioms r] r by simp
qed

section \<open>The prepared source of a scan\<close>

text \<open>The prepared source follows the reservation. When reserving fails, for whatever reason, the
  temporary file has been closed and removed and the error carries the reason; when it succeeds,
  nothing has been closed and the reserved scan reads the prepared targets.\<close>
lemma reservePrepared_result:
  assumes "reservePreparedRuntimeScanWith ctxErr env scopeID prepared generate create db
      = ((r, effects), db')" "ps_closed prepared = None"
  shows "case r of
      Inr owned \<Rightarrow> effects = [] \<and> owned_ScopeID owned = scopeID
        \<and> owned_prepared owned = prepared \<and> owned_Reader owned = prepared_Reader prepared
        \<and> reserveRuntimeScanWith (\<lambda>i. ctxErr (Suc i)) scopeID generate create db
            = (Inr (owned_ScanID owned), db')
    | Inl e \<Rightarrow> effects = [SpoolClose, SpoolRemove (prepared_Path prepared)]
        \<and> (\<exists>cause. (ctxErr 0 = Some cause \<and> db' = db
              \<or> reserveRuntimeScanWith (\<lambda>i. ctxErr (Suc i)) scopeID generate create db = (Inl cause, db'))
            \<and> (\<forall>t. errors_Is cause t \<longrightarrow> errors_Is e t))"
proof -
  have join: "errors_Is (the (errors_Join [Some c, x])) t" if "errors_Is c t" for c x t
    using that by (cases x) (simp_all add: errors_Join_def map_filter_def)
  obtain q d where q: "reserveRuntimeScanWith (\<lambda>i. ctxErr (Suc i)) scopeID generate create db = (q, d)"
    by force
  show ?thesis
  proof (cases "ctxErr 0")
    case (Some c)
    with assms show ?thesis
      by (auto simp: reservePreparedRuntimeScanWith_def prepared_Close_def Let_def prepared_Path_def
          intro!: exI [of _ c] join)
  next
    case None
    with assms q join show ?thesis
      by (cases q) (auto simp: reservePreparedRuntimeScanWith_def prepared_Close_def Let_def
          prepared_Path_def owned_ScopeID_def owned_ScanID_def owned_Reader_def)
  qed
qed

end
