(* ===== verification/GoJson.thy ===== *)
theory GoJson
  imports GoStrings
begin

text \<open>
  The part of \<^verbatim>\<open>encoding/json\<close> the program uses: the text \<^verbatim>\<open>json.Marshal\<close> writes (HTML
  escaping on, invalid UTF-8 replaced by U+FFFD), and the parser behind \<^verbatim>\<open>json.Decoder\<close>.
  Values are trees; the typed side (which tree decodes into which struct) belongs to the
  structs. The section ends with the round trip: a marshalled tree parses back to itself, up
  to the replacement of invalid UTF-8.
\<close>

datatype json =
    JNull
  | JBool bool
  | JNum string
  | JStr string
  | JArr "json list"
  | JObj "(string \<times> json) list"

section \<open>Writing\<close>

definition hex4 :: "nat \<Rightarrow> string" where
  "hex4 r = map (\<lambda>i. hex_digit (r div 16 ^ (3 - i) mod 16)) [0..<4]"

definition u_escape :: "nat \<Rightarrow> string" where
  "u_escape r = CHR 0x5C # CHR ''u'' # hex4 r"

text \<open>The ASCII bytes that are written as they are.\<close>

definition json_safe :: "nat \<Rightarrow> bool" where
  "json_safe b \<longleftrightarrow> 0x20 \<le> b \<and> b < 0x80 \<and> b \<notin> {0x22, 0x5C, 0x3C, 0x3E, 0x26}"

definition escape_ascii :: "char \<Rightarrow> string" where
  "escape_ascii c =
     (let b = code c in
      if json_safe b then [c]
      else if b = 0x22 \<or> b = 0x5C then [CHR 0x5C, c]
      else if b = 0x08 then [CHR 0x5C, CHR ''b'']
      else if b = 0x0C then [CHR 0x5C, CHR ''f'']
      else if b = 0x0A then [CHR 0x5C, CHR ''n'']
      else if b = 0x0D then [CHR 0x5C, CHR ''r'']
      else if b = 0x09 then [CHR 0x5C, CHR ''t'']
      else u_escape b)"

function json_escape :: "string \<Rightarrow> string" where
  "json_escape [] = []"
| "json_escape (c # s) =
     (if code c < 0x80 then escape_ascii c @ json_escape s
      else (let (r, w) = decode_rune c s in
        (if w = 1 then u_escape runeError
         else if r = 0x2028 \<or> r = 0x2029 then u_escape r
         else c # take (w - 1) s) @ json_escape (drop (w - 1) s)))"
  by pat_completeness auto
termination
  by (relation "measure length") auto

definition json_quote :: "string \<Rightarrow> string" where
  "json_quote s = CHR 0x22 # json_escape s @ [CHR 0x22]"

fun json_text :: "json \<Rightarrow> string" where
  "json_text JNull = ''null''"
| "json_text (JBool b) = (if b then ''true'' else ''false'')"
| "json_text (JNum l) = l"
| "json_text (JStr s) = json_quote s"
| "json_text (JArr js) = ''['' @ strings_Join (map json_text js) '','' @ '']''"
| "json_text (JObj ms) =
     ''{'' @ strings_Join (map (\<lambda>m. json_quote (fst m) @ '':'' @ json_text (snd m)) ms) '','' @ ''}''"

text \<open>A Go slice of strings: nil is \<^verbatim>\<open>null\<close>.\<close>

definition json_int :: "int \<Rightarrow> json" where
  "json_int i = JNum (strconv_Itoa i)"

definition json_strings :: "string list option \<Rightarrow> json" where
  "json_strings ss = (case ss of None \<Rightarrow> JNull | Some xs \<Rightarrow> JArr (map JStr xs))"

section \<open>Reading\<close>

definition json_space :: "char \<Rightarrow> bool" where
  "json_space c \<longleftrightarrow> code c \<in> {0x20, 0x09, 0x0A, 0x0D}"

definition skip_ws :: "string \<Rightarrow> string" where
  "skip_ws s = dropWhile json_space s"

text \<open>Four hexadecimal digits of a \<^verbatim>\<open>\u\<close> escape.\<close>

definition read_hex4 :: "string \<Rightarrow> (nat \<times> string) option" where
  "read_hex4 s = (case s of
     a # b # c # d # t \<Rightarrow>
       (case (hex_val a, hex_val b, hex_val c, hex_val d) of
          (Some w, Some x, Some y, Some z) \<Rightarrow> Some (((w * 16 + x) * 16 + y) * 16 + z, t)
        | _ \<Rightarrow> None)
   | _ \<Rightarrow> None)"

definition is_surrogate :: "nat \<Rightarrow> bool" where
  "is_surrogate r \<longleftrightarrow> 0xD800 \<le> r \<and> r \<le> 0xDFFF"

text \<open>
  The value of a \<^verbatim>\<open>\u\<close> escape after its first four digits: a surrogate takes the escape
  that follows as its second half when the two form a pair, and is U+FFFD otherwise.
\<close>

definition read_u_tail :: "nat \<Rightarrow> string \<Rightarrow> nat \<times> string" where
  "read_u_tail r t =
     (if is_surrogate r then
        (if prefix [CHR 0x5C, CHR ''u''] t then
           (case read_hex4 (drop 2 t) of
              Some (r1, t1) \<Rightarrow>
                if r < 0xDC00 \<and> 0xDC00 \<le> r1 \<and> r1 \<le> 0xDFFF
                then (0x10000 + (r - 0xD800) * 0x400 + (r1 - 0xDC00), t1)
                else (runeError, t)
            | None \<Rightarrow> (runeError, t))
         else (runeError, t))
      else (r, t))"

lemma read_hex4_length: "read_hex4 s = Some (r, t) \<Longrightarrow> length t < length s"
  by (auto simp: read_hex4_def split: list.splits option.splits)

lemma read_u_tail_length: "length (snd (read_u_tail r t)) \<le> length t"
  by (auto simp: read_u_tail_def dest!: read_hex4_length split: option.splits)

definition simple_escape :: "char \<Rightarrow> char option" where
  "simple_escape c =
     (if c = CHR 0x22 \<or> c = CHR 0x5C \<or> c = CHR ''/'' then Some c
      else if c = CHR ''b'' then Some (chr 0x08)
      else if c = CHR ''f'' then Some (chr 0x0C)
      else if c = CHR ''n'' then Some (chr 0x0A)
      else if c = CHR ''r'' then Some (chr 0x0D)
      else if c = CHR ''t'' then Some (chr 0x09)
      else None)"

text \<open>The rest of a string after its opening quote: its value and what follows it.\<close>

function read_str :: "string \<Rightarrow> (string \<times> string) option" where
  "read_str [] = None"
| "read_str (c # s) =
     (if c = CHR 0x22 then Some ([], s)
      else if code c < 0x20 then None
      else if c = CHR 0x5C then
        (case s of
           [] \<Rightarrow> None
         | e # t \<Rightarrow>
             if e = CHR ''u'' then
               (case read_hex4 t of
                  None \<Rightarrow> None
                | Some (r, t1) \<Rightarrow>
                    map_option (map_prod ((@) (encode_rune (fst (read_u_tail r t1)))) id)
                      (read_str (snd (read_u_tail r t1))))
             else
               (case simple_escape e of
                  None \<Rightarrow> None
                | Some x \<Rightarrow> map_option (map_prod ((#) x) id) (read_str t)))
      else if code c < 0x80 then map_option (map_prod ((#) c) id) (read_str s)
      else (let (r, w) = decode_rune c s in
        map_option (map_prod ((@) (encode_rune r)) id) (read_str (drop (w - 1) s))))"
  by pat_completeness auto
termination
proof (relation "measure length", goal_cases)
  case (2 c s e t x2 r t1)
  then show ?case using read_u_tail_length [of r t1] read_hex4_length [of t r t1] by simp
qed auto

text \<open>The longest number literal at the front of a string.\<close>

definition read_frac :: "string \<Rightarrow> (string \<times> string) option" where
  "read_frac s = (case s of
     c # t \<Rightarrow> if c = CHR ''.'' then
         (if takeWhile is_digit t = [] then None
          else Some (c # takeWhile is_digit t, dropWhile is_digit t))
       else Some ([], s)
   | [] \<Rightarrow> Some ([], []))"

definition read_exp :: "string \<Rightarrow> (string \<times> string) option" where
  "read_exp s = (case s of
     c # t \<Rightarrow> if c = CHR ''e'' \<or> c = CHR ''E'' then
         (let sg = (case t of x # _ \<Rightarrow> if x = CHR ''+'' \<or> x = CHR ''-'' then [x] else [] | [] \<Rightarrow> []);
              u = drop (length sg) t in
          if takeWhile is_digit u = [] then None
          else Some (c # sg @ takeWhile is_digit u, dropWhile is_digit u))
       else Some ([], s)
   | [] \<Rightarrow> Some ([], []))"

definition read_int_part :: "string \<Rightarrow> (string \<times> string) option" where
  "read_int_part s = (case s of
     [] \<Rightarrow> None
   | c # t \<Rightarrow>
       if c = CHR ''0'' then Some ([c], t)
       else if is_digit c then Some (takeWhile is_digit s, dropWhile is_digit s)
       else None)"

definition read_num :: "string \<Rightarrow> (string \<times> string) option" where
  "read_num s =
     (let sg = (if prefix ''-'' s then ''-'' else []) in
      Option.bind (read_int_part (drop (length sg) s)) (\<lambda>(i, s1).
      Option.bind (read_frac s1) (\<lambda>(f, s2).
      Option.bind (read_exp s2) (\<lambda>(e, s3). Some (sg @ i @ f @ e, s3)))))"

text \<open>
  Values, array elements after the opening bracket or a comma, and members after the opening
  brace or a comma. The first argument bounds the depth of the recursion; every call consumes
  a byte, so one more than the length of the text is enough.
\<close>

fun json_value :: "nat \<Rightarrow> string \<Rightarrow> (json \<times> string) option"
  and json_elems :: "nat \<Rightarrow> string \<Rightarrow> (json list \<times> string) option"
  and json_members :: "nat \<Rightarrow> string \<Rightarrow> ((string \<times> json) list \<times> string) option" where
  "json_value 0 s = None"
| "json_value (Suc n) s0 = (case skip_ws s0 of
     [] \<Rightarrow> None
   | c # s \<Rightarrow>
       if c = CHR 0x22 then map_option (map_prod JStr id) (read_str s)
       else if c = CHR ''{'' then
         (if prefix ''}'' (skip_ws s) then Some (JObj [], tl (skip_ws s))
          else map_option (map_prod JObj id) (json_members n s))
       else if c = CHR ''['' then
         (if prefix '']'' (skip_ws s) then Some (JArr [], tl (skip_ws s))
          else map_option (map_prod JArr id) (json_elems n s))
       else if c = CHR ''n'' then
         (if prefix ''ull'' s then Some (JNull, drop 3 s) else None)
       else if c = CHR ''t'' then
         (if prefix ''rue'' s then Some (JBool True, drop 3 s) else None)
       else if c = CHR ''f'' then
         (if prefix ''alse'' s then Some (JBool False, drop 4 s) else None)
       else map_option (map_prod JNum id) (read_num (c # s)))"
| "json_elems 0 s = None"
| "json_elems (Suc n) s = (case json_value n s of
     None \<Rightarrow> None
   | Some (v, s1) \<Rightarrow> (case skip_ws s1 of
       [] \<Rightarrow> None
     | c # s2 \<Rightarrow>
         if c = CHR '','' then map_option (map_prod ((#) v) id) (json_elems n s2)
         else if c = CHR '']'' then Some ([v], s2)
         else None))"
| "json_members 0 s = None"
| "json_members (Suc n) s0 = (case skip_ws s0 of
     [] \<Rightarrow> None
   | q # s \<Rightarrow> if q \<noteq> CHR 0x22 then None else (case read_str s of
       None \<Rightarrow> None
     | Some (k, s1) \<Rightarrow> (case skip_ws s1 of
         [] \<Rightarrow> None
       | col # s2 \<Rightarrow> if col \<noteq> CHR '':'' then None else (case json_value n s2 of
           None \<Rightarrow> None
         | Some (v, s3) \<Rightarrow> (case skip_ws s3 of
             [] \<Rightarrow> None
           | c # s4 \<Rightarrow>
               if c = CHR '','' then map_option (map_prod ((#) (k, v)) id) (json_members n s4)
               else if c = CHR ''}'' then Some ([(k, v)], s4)
               else None)))))"

definition json_read :: "string \<Rightarrow> (json \<times> string) option" where
  "json_read s = json_value (Suc (length s)) s"

section \<open>Strings read back\<close>

text \<open>What reading back makes of a string: each invalid byte becomes U+FFFD.\<close>

definition utf8_sanitize :: "string \<Rightarrow> string" where
  "utf8_sanitize s = concat (map encode_rune (decode_runes s))"

definition utf8_ok :: "string \<Rightarrow> bool" where
  "utf8_ok s \<longleftrightarrow> utf8_sanitize s = s"

lemma utf8_sanitize_ascii [simp]: "ascii s \<Longrightarrow> utf8_sanitize s = s"
  by (simp add: utf8_sanitize_def decode_runes_ascii ascii_def o_def encode_rune_ascii
      cong: map_cong)

lemma utf8_ok_ascii [simp]: "ascii s \<Longrightarrow> utf8_ok s"
  by (simp add: utf8_ok_def)

lemma utf8_sanitize_Nil [simp]: "utf8_sanitize [] = []"
  by (simp add: utf8_sanitize_def)

lemma utf8_sanitize_Cons:
  "utf8_sanitize (c # s) =
     encode_rune (fst (decode_rune c s)) @ utf8_sanitize (drop (snd (decode_rune c s) - 1) s)"
  by (simp add: utf8_sanitize_def case_prod_beta Let_def)

definition rune_local :: "(string \<Rightarrow> nat \<times> nat) \<Rightarrow> bool" where
  "rune_local f \<longleftrightarrow>
     (\<forall>s t. 1 < snd (f s) \<longrightarrow> f (take (snd (f s) - 1) s @ t) = f s)
     \<and> (\<forall>s. snd (f s) = 1 \<longrightarrow> fst (f s) = runeError)"

lemma rune_local_decode:
  "rune_local (\<lambda>s. (runeError, 1))"
  "rune_local (decode2 b)" "rune_local (decode3 lo hi b)" "rune_local (decode4 lo hi b)"
  subgoal by (simp add: rune_local_def)
  subgoal by (auto simp: rune_local_def decode2_def split: list.splits)
  subgoal by (auto simp: rune_local_def decode3_def split: list.splits)
  subgoal by (auto simp: rune_local_def decode4_def split: list.splits)
  done

lemma rune_local_if:
  "rune_local f \<Longrightarrow> rune_local g \<Longrightarrow> rune_local (\<lambda>s. if b then f s else g s)"
  by (cases b) simp_all

lemma decode_rune_rune_local: "0x80 \<le> code c \<Longrightarrow> rune_local (decode_rune c)"
  by (simp add: decode_rune_def [abs_def] Let_def) (intro rune_local_if rune_local_decode)

lemma decode_rune_local:
  "1 < snd (decode_rune c s) \<Longrightarrow> 0x80 \<le> code c \<Longrightarrow>
     decode_rune c (take (snd (decode_rune c s) - 1) s @ t) = decode_rune c s"
  using decode_rune_rune_local [of c] by (simp add: rune_local_def)

lemma decode_rune_one:
  "snd (decode_rune c s) = 1 \<Longrightarrow> 0x80 \<le> code c \<Longrightarrow> fst (decode_rune c s) = runeError"
  using decode_rune_rune_local [of c] by (simp add: rune_local_def)

lemma read_hex4_hex4: "r < 0x10000 \<Longrightarrow> read_hex4 (hex4 r @ t) = Some (r, t)"
proof -
  assume r: "r < 0x10000"
  have "hex4 r = [hex_digit (r div 4096 mod 16), hex_digit (r div 256 mod 16),
                  hex_digit (r div 16 mod 16), hex_digit (r mod 16)]"
    by (simp add: hex4_def upt_rec)
  moreover have "((r div 4096 mod 16 * 16 + r div 256 mod 16) * 16 + r div 16 mod 16) * 16
      + r mod 16 = r"
  proof -
    have "r div 256 = r div 16 div 16" "r div 4096 = r div 16 div 16 div 16"
      by (simp_all flip: div_mult2_eq)
    moreover have "r div 16 div 16 div 16 < 16" using r by simp
    ultimately show ?thesis by (metis div_mult_mod_eq mod_less)
  qed
  moreover have "r div 4096 < 16" using r by simp
  ultimately show ?thesis by (simp add: read_hex4_def hex_val_digit)
qed

lemma read_str_u_escape:
  assumes "r < 0x10000" "\<not> is_surrogate r"
  shows "read_str (u_escape r @ t) = map_option (map_prod ((@) (encode_rune r)) id) (read_str t)"
  using assms
  by (simp add: u_escape_def read_hex4_hex4 read_u_tail_def)

lemma read_str_escape_ascii:
  assumes "code c < 0x80"
  shows "read_str (escape_ascii c @ t) = map_option (map_prod ((#) c) id) (read_str t)"
proof -
  have bk: "c = chr n" if "code c = n" for n using that by force
  have lits: "chr 0x22 = CHR 0x22" "chr 0x5C = CHR 0x5C" by code_simp+
  consider "json_safe (code c)" | "code c = 0x22" | "code c = 0x5C" | "code c = 8"
    | "code c = 0x0C" | "code c = 0x0A" | "code c = 0x0D" | "code c = 9"
    | "\<not> json_safe (code c)" "code c \<notin> {0x22, 0x5C, 8, 0x0C, 0x0A, 0x0D, 9}"
    by blast
  then show ?thesis
  proof cases
    case 1
    then have "c \<noteq> CHR 0x22" "c \<noteq> CHR 0x5C" "\<not> code c < 0x20"
      by (auto simp: json_safe_def)
    with 1 assms show ?thesis by (simp add: escape_ascii_def)
  next
    case 9
    with assms show ?thesis
      by (simp add: escape_ascii_def read_str_u_escape is_surrogate_def encode_rune_ascii
          del: read_str.simps)
        (simp add: append_Cons [abs_def] del: read_str.simps)
  qed (auto simp: escape_ascii_def json_safe_def simple_escape_def lits dest!: bk)
qed

theorem read_str_escape:
  "read_str (json_escape s @ CHR 0x22 # rest) = Some (utf8_sanitize s, rest)"
proof (induction s rule: json_escape.induct)
  case 1
  then show ?case by simp
next
  case (2 c s)
  show ?case
  proof (cases "code c < 0x80")
    case True
    then have "encode_rune (code c) = [c]" by (simp add: encode_rune_ascii)
    with True 2(1) show ?thesis
      by (simp add: read_str_escape_ascii utf8_sanitize_Cons decode_rune_def
          del: read_str.simps)
  next
    case False
    obtain r w where rw: "decode_rune c s = (r, w)" by force
    have w: "1 \<le> w" "w \<le> Suc (length s)" using decode_rune_width [of c s] rw by auto
    have IH: "read_str (json_escape (drop (w - 1) s) @ CHR 0x22 # rest)
        = Some (utf8_sanitize (drop (w - 1) s), rest)"
      using 2(2) [OF False rw [symmetric] refl] .
    have san: "utf8_sanitize (c # s) = encode_rune r @ utf8_sanitize (drop (w - 1) s)"
      by (simp add: utf8_sanitize_Cons rw)
    consider "w = 1" | "w \<noteq> 1" "r = 0x2028 \<or> r = 0x2029"
      | "w > 1" "\<not> (r = 0x2028 \<or> r = 0x2029)" using w by linarith
    then show ?thesis
    proof cases
      case 1
      then have "r = runeError" using decode_rune_one [of c s] rw False by simp
      with 1 False rw IH san show ?thesis
        by (simp add: read_str_u_escape runeError_def is_surrogate_def del: read_str.simps)
    next
      case 2
      then have "r < 0x10000" "\<not> is_surrogate r" by (auto simp: is_surrogate_def)
      with 2 False rw IH san show ?thesis
        by (auto simp add: read_str_u_escape simp del: read_str.simps)
    next
      case 3
      let ?t = "json_escape (drop (w - 1) s) @ CHR 0x22 # rest"
      have loc: "decode_rune c (take (w - 1) s @ ?t) = (r, w)"
        using decode_rune_local [of c s ?t] rw 3 False by simp
      have len: "length (take (w - 1) s) = w - 1" using w by simp
      have esc: "json_escape (c # s) @ CHR 0x22 # rest = c # (take (w - 1) s @ ?t)"
        using 3 False rw by simp
      have ne: "c \<noteq> CHR 0x22" "c \<noteq> CHR 0x5C" "\<not> code c < 0x20" using False by auto
      have "drop (w - 1) (take (w - 1) s @ ?t) = ?t" using len by simp
      with ne False loc IH san show ?thesis
        unfolding esc by (simp del: json_escape.simps drop_append)
    qed
  qed
qed

section \<open>Values read back\<close>

lemma nat_to_dec_head:
  "n > 0 \<Longrightarrow> \<exists>c t. nat_to_dec n = c # t \<and> is_digit c \<and> c \<noteq> CHR ''0''"
proof (induction n rule: nat_to_dec.induct)
  case (1 n)
  show ?case
  proof (cases "n < 10")
    case True
    have "chr (0x30 + n) \<noteq> CHR ''0''"
    proof
      assume "chr (0x30 + n) = CHR ''0''"
      then have "code (chr (0x30 + n)) = code (CHR ''0'')" by simp
      with True 1(2) show False by simp
    qed
    with True show ?thesis
      by (auto simp: nat_to_dec.simps [of n] is_digit_chr)
  next
    case False
    then have "0 < n div 10" by simp
    with 1(1) False obtain c t where "nat_to_dec (n div 10) = c # t" "is_digit c" "c \<noteq> CHR ''0''"
      by blast
    with False show ?thesis by (simp add: nat_to_dec.simps [of n])
  qed
qed

lemma nat_to_dec_0: "nat_to_dec 0 = ''0''"
  by (simp add: nat_to_dec.simps chr_lits)

text \<open>What may follow a number without becoming part of it.\<close>

definition num_end :: "string \<Rightarrow> bool" where
  "num_end s = (case s of [] \<Rightarrow> True | c # _ \<Rightarrow> c \<in> {CHR '','', CHR '']'', CHR ''}'', CHR 0x0A})"

lemma num_end_simps [simp]: "num_end []" "num_end (CHR '','' # s)" "num_end (CHR '']'' # s)"
  "num_end (CHR ''}'' # s)" "num_end (CHR 0x0A # s)"
  by (simp_all add: num_end_def)

lemma num_end_tail:
  assumes "num_end s"
  shows "takeWhile is_digit s = []" "dropWhile is_digit s = s" "read_frac s = Some ([], s)"
    "read_exp s = Some ([], s)"
  using assms
  by (auto simp: num_end_def is_digit_def read_frac_def read_exp_def split: list.splits)

lemma read_int_part_dec:
  assumes "num_end s"
  shows "read_int_part (nat_to_dec n @ s) = Some (nat_to_dec n, s)"
proof (cases "n = 0")
  case True
  then show ?thesis by (simp add: nat_to_dec_0 read_int_part_def)
next
  case False
  then obtain c t where ct: "nat_to_dec n = c # t" "is_digit c" "c \<noteq> CHR ''0''"
    using nat_to_dec_head [of n] by auto
  have "\<forall>x\<in>set t. is_digit x"
    using nat_to_dec_digits [of n] ct by (simp add: list_all_iff)
  then have "takeWhile is_digit (t @ s) = t" "dropWhile is_digit (t @ s) = s"
    using num_end_tail [OF assms] by (simp_all add: takeWhile_append2 dropWhile_append2)
  with ct show ?thesis by (simp add: read_int_part_def)
qed

lemma read_num_Itoa:
  assumes "num_end s"
  shows "read_num (strconv_Itoa i @ s) = Some (strconv_Itoa i, s)"
proof -
  have nm: "\<not> prefix ''-'' (nat_to_dec n @ s)" for n
    using nat_to_dec_no_sign(1) [of n] nat_to_dec_digits [of n]
    by (cases "nat_to_dec n") auto
  show ?thesis
    using assms nm by (simp add: read_num_def strconv_Itoa_def read_int_part_dec num_end_tail Let_def)
qed

lemma strconv_Itoa_Cons:
  "\<exists>c t. strconv_Itoa i = c # t \<and> (is_digit c \<or> c = CHR ''-'')"
proof -
  have "strconv_Itoa i \<noteq> []" using nat_to_dec_digits by (auto simp: strconv_Itoa_def)
  then obtain c t where "strconv_Itoa i = c # t" by (cases "strconv_Itoa i") auto
  with strconv_Itoa_ascii [of c i] show ?thesis by simp
qed

text \<open>Trees whose numbers are integers, and what marshalling and reading makes of a tree.\<close>

fun json_wf :: "json \<Rightarrow> bool" where
  "json_wf (JNum l) \<longleftrightarrow> (\<exists>i. l = strconv_Itoa i)"
| "json_wf (JArr js) \<longleftrightarrow> (\<forall>j\<in>set js. json_wf j)"
| "json_wf (JObj ms) \<longleftrightarrow> (\<forall>m\<in>set ms. json_wf (snd m))"
| "json_wf _ \<longleftrightarrow> True"

fun json_sanitize :: "json \<Rightarrow> json" where
  "json_sanitize (JStr s) = JStr (utf8_sanitize s)"
| "json_sanitize (JArr js) = JArr (map json_sanitize js)"
| "json_sanitize (JObj ms) = JObj (map (\<lambda>m. (utf8_sanitize (fst m), json_sanitize (snd m))) ms)"
| "json_sanitize j = j"

lemma skip_ws_simp [simp]: "\<not> json_space c \<Longrightarrow> skip_ws (c # s) = c # s"
  by (simp add: skip_ws_def)

lemma json_space_lits [simp]:
  "\<not> json_space CHR 0x22" "\<not> json_space CHR ''{''" "\<not> json_space CHR ''[''"
  "\<not> json_space CHR ''}''" "\<not> json_space CHR '']''" "\<not> json_space CHR '',''"
  "\<not> json_space CHR '':''" "\<not> json_space CHR ''n''" "\<not> json_space CHR ''t''"
  "\<not> json_space CHR ''f''" "\<not> json_space CHR ''-''"
  by (simp_all add: json_space_def)

lemma json_space_digit: "is_digit c \<Longrightarrow> \<not> json_space c"
  by (auto simp: json_space_def is_digit_def)

lemma json_text_Cons:
  "json_wf j \<Longrightarrow> \<exists>c t. json_text j = c # t \<and> \<not> json_space c \<and> c \<noteq> CHR '']'' \<and> c \<noteq> CHR ''}''"
proof (cases j)
  case (JNum l)
  moreover assume "json_wf j"
  ultimately obtain i where "l = strconv_Itoa i" by auto
  with JNum strconv_Itoa_Cons [of i] show ?thesis
    by (auto simp: json_space_digit is_digit_def)
qed (auto simp: json_quote_def)

lemma json_value_num:
  assumes "num_end rest"
  shows "json_value (Suc n) (strconv_Itoa i @ rest) = Some (JNum (strconv_Itoa i), rest)"
proof -
  obtain c t where ct: "strconv_Itoa i = c # t" "is_digit c \<or> c = CHR ''-''"
    using strconv_Itoa_Cons by blast
  have "\<not> json_space c" using ct json_space_digit by auto
  moreover have "c \<noteq> CHR 0x22" "c \<noteq> CHR ''{''" "c \<noteq> CHR ''[''" "c \<noteq> CHR ''n''" "c \<noteq> CHR ''t''"
    "c \<noteq> CHR ''f''" using ct by (auto simp: is_digit_def)
  moreover have "read_num (c # (t @ rest)) = Some (strconv_Itoa i, rest)"
    using read_num_Itoa [OF assms, of i] ct by simp
  ultimately show ?thesis unfolding ct(1) by simp
qed

lemma json_elems_text:
  assumes "js \<noteq> []"
    and "\<And>j n rest. j \<in> set js \<Longrightarrow> num_end rest \<Longrightarrow> length (json_text j) < n
      \<Longrightarrow> json_value n (json_text j @ rest) = Some (json_sanitize j, rest)"
    and "length (strings_Join (map json_text js) '','') + 1 < n"
  shows "json_elems n (strings_Join (map json_text js) '','' @ '']'' @ rest)
    = Some (map json_sanitize js, rest)"
  using assms
proof (induction js arbitrary: n rule: induct_list012)
  case 1
  then show ?case by simp
next
  case (2 j)
  then obtain m where "n = Suc m" by (cases n) auto
  with 2 show ?case by simp
next
  case (3 j k js)
  then obtain m where m: "n = Suc m" by (cases n) auto
  let ?J = "strings_Join (map json_text (k # js)) '',''"
  have "json_value m (json_text j @ '','' @ ?J @ '']'' @ rest)
      = Some (json_sanitize j, '','' @ ?J @ '']'' @ rest)"
    using 3 m by simp
  moreover have "json_elems m (?J @ '']'' @ rest) = Some (map json_sanitize (k # js), rest)"
    using 3 m by simp
  ultimately show ?case using m by simp
qed

lemma json_members_text:
  assumes "ms \<noteq> []"
    and "\<And>m n rest. m \<in> set ms \<Longrightarrow> num_end rest \<Longrightarrow> length (json_text (snd m)) < n
      \<Longrightarrow> json_value n (json_text (snd m) @ rest) = Some (json_sanitize (snd m), rest)"
    and "length (strings_Join (map (\<lambda>m. json_quote (fst m) @ '':'' @ json_text (snd m)) ms) '','')
      + 1 < n"
  shows "json_members n
      (strings_Join (map (\<lambda>m. json_quote (fst m) @ '':'' @ json_text (snd m)) ms) '','' @ ''}'' @ rest)
    = Some (map (\<lambda>m. (utf8_sanitize (fst m), json_sanitize (snd m))) ms, rest)"
  using assms
proof (induction ms arbitrary: n rule: induct_list012)
  case 1
  then show ?case by simp
next
  case (2 j)
  then obtain m where "n = Suc m" by (cases n) auto
  with 2 show ?case by (simp add: json_quote_def read_str_escape)
next
  case (3 j k js)
  then obtain m where m: "n = Suc m" by (cases n) auto
  let ?J = "strings_Join (map (\<lambda>m. json_quote (fst m) @ '':'' @ json_text (snd m)) (k # js)) '',''"
  have "json_value m (json_text (snd j) @ '','' @ ?J @ ''}'' @ rest)
      = Some (json_sanitize (snd j), '','' @ ?J @ ''}'' @ rest)"
    using 3 m by simp
  moreover have "json_members m (?J @ ''}'' @ rest)
      = Some (map (\<lambda>m. (utf8_sanitize (fst m), json_sanitize (snd m))) (k # js), rest)"
    using 3 m by simp
  ultimately show ?case using m by (simp add: json_quote_def read_str_escape)
qed

lemma json_value_text:
  "json_wf j \<Longrightarrow> num_end rest \<Longrightarrow> length (json_text j) < n \<Longrightarrow>
     json_value n (json_text j @ rest) = Some (json_sanitize j, rest)"
proof (induction j arbitrary: n rest rule: json.induct)
  case (JNum l)
  then obtain m i where "n = Suc m" "l = strconv_Itoa i" by (cases n) auto
  with JNum show ?case by (simp add: json_value_num del: json_value.simps)
next
  case (JArr js)
  then obtain m where m: "n = Suc m" by (cases n) auto
  show ?case
  proof (cases "js = []")
    case False
    then obtain j0 js' where js: "js = j0 # js'" by (cases js) auto
    let ?J = "strings_Join (map json_text js) '',''"
    have E: "json_elems m (?J @ '']'' @ rest) = Some (map json_sanitize js, rest)"
      using JArr m False by (intro json_elems_text) auto
    obtain c t where c: "json_text j0 = c # t" "\<not> json_space c" "c \<noteq> CHR '']''"
      using json_text_Cons [of j0] JArr.prems(1) js by auto
    have "\<exists>u. ?J = c # u" using c js by (cases js') auto
    then obtain u where "?J = c # u" by blast
    with m c E show ?thesis by simp
  qed (use m in simp)
next
  case (JObj ms)
  then obtain m where m: "n = Suc m" by (cases n) auto
  show ?case
  proof (cases "ms = []")
    case False
    then obtain j0 js' where js: "ms = j0 # js'" by (cases ms) auto
    let ?J = "strings_Join (map (\<lambda>m. json_quote (fst m) @ '':'' @ json_text (snd m)) ms) '',''"
    have E: "json_members m (?J @ ''}'' @ rest)
        = Some (map (\<lambda>m. (utf8_sanitize (fst m), json_sanitize (snd m))) ms, rest)"
    proof (rule json_members_text [OF False])
      show "json_value n (json_text (snd x) @ rest) = Some (json_sanitize (snd x), rest)"
        if "x \<in> set ms" "num_end rest" "length (json_text (snd x)) < n" for x n rest
        using JObj.IH [of x "snd x"] JObj.prems(1) that by (cases x) auto
    qed (use JObj m in auto)
    have "\<exists>u. ?J = CHR 0x22 # u" using js by (cases js') (auto simp: json_quote_def)
    then obtain u where "?J = CHR 0x22 # u" by blast
    with m E show ?thesis by simp
  qed (use m in simp)
next
  case (JStr s)
  then show ?case by (cases n) (auto simp: json_quote_def read_str_escape)
next
  case (JBool b)
  then show ?case by (cases n) auto
next
  case JNull
  then show ?case by (cases n) auto
qed

lemma json_read_text:
  "json_wf j \<Longrightarrow> num_end rest \<Longrightarrow> json_read (json_text j @ rest) = Some (json_sanitize j, rest)"
  by (simp add: json_read_def json_value_text del: json_value.simps)

section \<open>What is read is valid UTF-8\<close>

definition norm_rune :: "nat \<Rightarrow> nat" where
  "norm_rune r = (if r > 0x10FFFF \<or> (0xD800 \<le> r \<and> r \<le> 0xDFFF) then runeError else r)"

lemma encode_norm_rune [simp]: "encode_rune (norm_rune r) = encode_rune r"
  by (simp add: encode_rune_def norm_rune_def runeError_def)

lemma norm_rune_range: "norm_rune r \<le> 0x10FFFF" "\<not> (0xD800 \<le> norm_rune r \<and> norm_rune r \<le> 0xDFFF)"
  by (auto simp: norm_rune_def runeError_def)

lemma code_chr: "n < 256 \<Longrightarrow> code (chr n) = n"
  by simp

lemma decode_encode2:
  assumes "0x80 \<le> r" "r < 0x800"
  shows "decode_rune (chr (0xC0 + r div 64)) (chr (0x80 + r mod 64) # t) = (r, 2)"
proof -
  have "2 \<le> r div 64" "r div 64 < 32" "r mod 64 < 64" using assms by auto
  then show ?thesis by (simp add: decode_rune_def decode2_def cont_def)
qed

lemma decode_encode3:
  assumes "0x800 \<le> r" "r < 0x10000" "\<not> (0xD800 \<le> r \<and> r \<le> 0xDFFF)"
  shows "decode_rune (chr (0xE0 + r div 4096))
    (chr (0x80 + r div 64 mod 64) # chr (0x80 + r mod 64) # t) = (r, 3)"
proof -
  define a b c where abc: "a = r div 4096" "b = r div 64 mod 64" "c = r mod 64"
  obtain q where q: "q = r div 64" by simp
  have "a = q div 64" unfolding abc q by (simp flip: div_mult2_eq)
  then have "q = a * 64 + b" unfolding abc(2) q by (simp only: div_mult_mod_eq)
  moreover have "r = q * 64 + c" unfolding abc(3) q by (simp only: div_mult_mod_eq)
  ultimately have r: "r = a * 4096 + b * 64 + c" by simp
  have bounds: "a < 16" "b < 64" "c < 64"
    unfolding abc using assms(2) by (simp_all add: less_mult_imp_div_less)
  have lo: "0x20 \<le> b" if "a = 0"
  proof -
    have "0x800 \<le> b * 64 + c" using assms(1) r that by simp
    with bounds(3) show ?thesis by linarith
  qed
  have hi: "b < 0x20" if "a = 13"
  proof -
    have r': "r = 53248 + b * 64 + c" using r that by simp
    then have "r \<le> 0xDFFF" using bounds by linarith
    then have "r < 0xD800" using assms(3) by simp
    with r' show ?thesis by linarith
  qed
  have codes: "code (chr (0xE0 + a)) = 0xE0 + a" "code (chr (0x80 + b)) = 0x80 + b"
    "code (chr (0x80 + c)) = 0x80 + c"
    using bounds by (auto intro: code_chr)
  have "decode_rune (chr (0xE0 + a)) (chr (0x80 + b) # chr (0x80 + c) # t)
      = (a * 4096 + b * 64 + c, 3)"
    unfolding decode_rune_def decode3_def cont_def Let_def list.case codes
    using bounds lo hi by (cases "a = 0"; cases "a = 13") simp_all
  then show ?thesis by (simp only: abc [symmetric] r [symmetric])
qed

lemma decode_encode4:
  assumes "0x10000 \<le> r" "r \<le> 0x10FFFF"
  shows "decode_rune (chr (0xF0 + r div 262144))
    (chr (0x80 + r div 4096 mod 64) # chr (0x80 + r div 64 mod 64) # chr (0x80 + r mod 64) # t)
    = (r, 4)"
proof -
  define a b c d where abc: "a = r div 262144" "b = r div 4096 mod 64" "c = r div 64 mod 64"
    "d = r mod 64"
  obtain q where q: "q = r div 64" by simp
  obtain p where p: "p = q div 64" by simp
  have p': "p = r div 4096" unfolding p q by (simp flip: div_mult2_eq)
  have "a = p div 64" unfolding abc p' by (simp flip: div_mult2_eq)
  then have "p = a * 64 + b" unfolding abc(2) p' by (simp only: div_mult_mod_eq)
  moreover have "q = p * 64 + c" unfolding abc(3) p q by (simp only: div_mult_mod_eq)
  moreover have "r = q * 64 + d" unfolding abc(4) q by (simp only: div_mult_mod_eq)
  ultimately have r: "r = a * 262144 + b * 4096 + c * 64 + d" by simp
  have bounds: "a < 5" "b < 64" "c < 64" "d < 64"
    unfolding abc using assms(2) by (simp_all add: less_mult_imp_div_less)
  have lo: "0x10 \<le> b" if "a = 0"
  proof -
    have "0x10000 \<le> b * 4096 + c * 64 + d" using assms(1) r that by simp
    with bounds show ?thesis by linarith
  qed
  have hi: "b < 0x10" if "a = 4"
  proof -
    have "1048576 + b * 4096 + c * 64 + d \<le> 0x10FFFF" using assms(2) r that by simp
    then show ?thesis by linarith
  qed
  have codes: "code (chr (0xF0 + a)) = 0xF0 + a" "code (chr (0x80 + b)) = 0x80 + b"
    "code (chr (0x80 + c)) = 0x80 + c" "code (chr (0x80 + d)) = 0x80 + d"
    using bounds by (auto intro: code_chr)
  have "decode_rune (chr (0xF0 + a)) (chr (0x80 + b) # chr (0x80 + c) # chr (0x80 + d) # t)
      = (a * 262144 + b * 4096 + c * 64 + d, 4)"
    unfolding decode_rune_def decode4_def cont_def Let_def list.case codes
    using bounds lo hi by (cases "a = 0"; cases "a = 4") simp_all
  then show ?thesis by (simp only: abc [symmetric] r [symmetric])
qed

lemma utf8_sanitize_encode: "utf8_sanitize (encode_rune r @ t) = encode_rune r @ utf8_sanitize t"
proof -
  let ?r = "norm_rune r"
  have rng: "?r \<le> 0x10FFFF" "\<not> (0xD800 \<le> ?r \<and> ?r \<le> 0xDFFF)" using norm_rune_range by auto
  have enc: "encode_rune r =
      (if ?r < 0x80 then [chr ?r]
       else if ?r < 0x800 then [chr (0xC0 + ?r div 64), chr (0x80 + ?r mod 64)]
       else if ?r < 0x10000 then
         [chr (0xE0 + ?r div 4096), chr (0x80 + ?r div 64 mod 64), chr (0x80 + ?r mod 64)]
       else [chr (0xF0 + ?r div 262144), chr (0x80 + ?r div 4096 mod 64),
             chr (0x80 + ?r div 64 mod 64), chr (0x80 + ?r mod 64)])"
    by (simp add: encode_rune_def norm_rune_def Let_def)
  consider "?r < 0x80" | "0x80 \<le> ?r" "?r < 0x800" | "0x800 \<le> ?r" "?r < 0x10000" | "0x10000 \<le> ?r"
    by linarith
  then show ?thesis
  proof cases
    case 1
    then have "decode_rune (chr ?r) t = (?r, 1)" by (simp add: decode_rune_def)
    moreover have "encode_rune r = [chr ?r]" using 1 enc by simp
    ultimately show ?thesis by (simp add: utf8_sanitize_Cons)
  next
    case 2
    then have "encode_rune r = [chr (0xC0 + ?r div 64), chr (0x80 + ?r mod 64)]" using enc by simp
    with decode_encode2 [OF 2] show ?thesis by (simp add: utf8_sanitize_Cons)
  next
    case 3
    then have "encode_rune r =
        [chr (0xE0 + ?r div 4096), chr (0x80 + ?r div 64 mod 64), chr (0x80 + ?r mod 64)]"
      using enc by simp
    with decode_encode3 [OF 3 rng(2)] show ?thesis by (simp add: utf8_sanitize_Cons)
  next
    case 4
    then have "encode_rune r = [chr (0xF0 + ?r div 262144), chr (0x80 + ?r div 4096 mod 64),
        chr (0x80 + ?r div 64 mod 64), chr (0x80 + ?r mod 64)]"
      using enc by simp
    with decode_encode4 [OF 4 rng(1)] show ?thesis by (simp add: utf8_sanitize_Cons)
  qed
qed

lemma utf8_ok_Nil [simp]: "utf8_ok []"
  by (simp add: utf8_ok_def)

lemma utf8_ok_encode: "utf8_ok t \<Longrightarrow> utf8_ok (encode_rune r @ t)"
  by (simp add: utf8_ok_def utf8_sanitize_encode)

lemma utf8_ok_ascii_Cons: "code c < 0x80 \<Longrightarrow> utf8_ok t \<Longrightarrow> utf8_ok (c # t)"
  using utf8_ok_encode [of t "code c"] by (simp add: encode_rune_ascii)

lemma utf8_ok_sanitize [simp]: "utf8_ok (utf8_sanitize s)"
proof -
  have "utf8_ok (concat (map encode_rune rs))" for rs
    by (induction rs) (simp_all add: utf8_ok_encode)
  then show ?thesis by (simp add: utf8_sanitize_def)
qed

lemma simple_escape_ascii: "simple_escape e = Some x \<Longrightarrow> code x < 0x80"
  by (auto simp: simple_escape_def split: if_splits)

lemma read_str_utf8: "read_str s = Some (v, rest) \<Longrightarrow> utf8_ok v"
proof (induction s arbitrary: v rest rule: read_str.induct)
  case (2 c s)
  show ?case
  proof (cases "c = CHR 0x22 \<or> code c < 0x20")
    case True
    with 2(5) show ?thesis by (auto split: if_splits)
  next
    case nq: False
    show ?thesis
    proof (cases "c = CHR 0x5C")
      case True
      then obtain e t where s: "s = e # t" using 2(5) nq by (cases s) auto
      show ?thesis
      proof (cases "e = CHR ''u''")
        case u: True
        then obtain r t1 where r: "read_hex4 t = Some (r, t1)"
          using 2(5) nq True s by (auto split: option.splits)
        obtain w where "read_str (snd (read_u_tail r t1)) = Some (w, rest)"
          "v = encode_rune (fst (read_u_tail r t1)) @ w"
          using 2(5) nq True s u r by auto
        with 2(1) nq True s u r show ?thesis using utf8_ok_encode by blast
      next
        case nu: False
        then obtain x where x: "simple_escape e = Some x"
          using 2(5) nq True s by (auto split: option.splits)
        obtain w where "read_str t = Some (w, rest)" "v = x # w"
          using 2(5) nq True s nu x by auto
        with 2(2) nq True s nu x simple_escape_ascii [OF x] show ?thesis
          using utf8_ok_ascii_Cons by blast
      qed
    next
      case nb: False
      show ?thesis
      proof (cases "code c < 0x80")
        case True
        then obtain w where "read_str s = Some (w, rest)" "v = c # w"
          using 2(5) nq nb by auto
        with 2(3) nq nb True show ?thesis using utf8_ok_ascii_Cons by blast
      next
        case False
        obtain r w where rw: "decode_rune c s = (r, w)" by force
        obtain u where "read_str (drop (w - 1) s) = Some (u, rest)" "v = encode_rune r @ u"
          using 2(5) nq nb False rw by auto
        with 2(4) nq nb False rw show ?thesis using utf8_ok_encode by metis
      qed
    qed
  qed
qed simp

fun json_utf8 :: "json \<Rightarrow> bool" where
  "json_utf8 (JStr s) \<longleftrightarrow> utf8_ok s"
| "json_utf8 (JArr js) \<longleftrightarrow> (\<forall>j\<in>set js. json_utf8 j)"
| "json_utf8 (JObj ms) \<longleftrightarrow> (\<forall>m\<in>set ms. json_utf8 (snd m))"
| "json_utf8 _ \<longleftrightarrow> True"

lemma json_value_utf8:
  "json_value n s = Some (j, rest) \<Longrightarrow> json_utf8 j"
  "json_elems n s = Some (js, rest) \<Longrightarrow> \<forall>j\<in>set js. json_utf8 j"
  "json_members n s = Some (ms, rest) \<Longrightarrow> \<forall>m\<in>set ms. json_utf8 (snd m)"
proof (induction n s and n s and n s arbitrary: j rest and js rest and ms rest
    rule: json_value_json_elems_json_members.induct)
  case (2 n s0)
  then show ?case
    by (auto split: list.splits if_splits dest: read_str_utf8)
next
  case (4 n s)
  then show ?case by (fastforce split: option.splits list.splits if_splits)
next
  case (6 n s0)
  then show ?case by (fastforce split: option.splits list.splits if_splits)
qed auto

lemma json_read_utf8: "json_read s = Some (j, rest) \<Longrightarrow> json_utf8 j"
  unfolding json_read_def by (rule json_value_utf8)

section \<open>Decoding into Go values\<close>

text \<open>
  \<^verbatim>\<open>encoding/json\<close> finds the field of a member key exactly or else by Unicode case folding, the
  first field that matches winning; beyond ASCII case, folding identifies U+017F with \<open>s\<close> and
  U+212A with \<open>k\<close>. \<^verbatim>\<open>null\<close> leaves a string or an integer as it is; a value of the wrong kind and a
  number that is not a 64-bit integer are errors.
\<close>

definition fold_rune :: "nat \<Rightarrow> nat" where
  "fold_rune r =
     (if r = 0x17F then 0x73 else if r = 0x212A then 0x6B else ascii_lower r)"

definition find_field :: "(string \<times> 'f) list \<Rightarrow> string \<Rightarrow> 'f option" where
  "find_field fields key =
     (case map_of fields key of
        Some f \<Rightarrow> Some f
      | None \<Rightarrow>
          map_option snd (find (\<lambda>nf. map fold_rune (decode_runes (fst nf))
                                      = map fold_rune (decode_runes key)) fields))"

definition decode_string :: "json \<Rightarrow> string \<Rightarrow> string option" where
  "decode_string j old = (case j of JStr s \<Rightarrow> Some s | JNull \<Rightarrow> Some old | _ \<Rightarrow> None)"

text \<open>\<^verbatim>\<open>strconv.ParseInt\<close> on a JSON number literal, which never starts with a plus sign.\<close>

definition decode_int :: "json \<Rightarrow> int \<Rightarrow> int option" where
  "decode_int j old =
     (case j of
        JNum l \<Rightarrow> (case strconv_Atoi l of Inr i \<Rightarrow> Some i | Inl _ \<Rightarrow> None)
      | JNull \<Rightarrow> Some old
      | _ \<Rightarrow> None)"

text \<open>\<^verbatim>\<open>json.Unmarshal\<close> first checks the whole text: one value, nested at most 10000 deep, and white
  space.\<close>

fun json_depth :: "json \<Rightarrow> nat" where
  "json_depth (JArr js) = Suc (foldr (\<lambda>j n. max (json_depth j) n) js 0)"
| "json_depth (JObj ms) = Suc (foldr (\<lambda>m n. max (json_depth (snd m)) n) ms 0)"
| "json_depth _ = 0"

definition json_document :: "string \<Rightarrow> json option" where
  "json_document s =
     (case json_read s of
        None \<Rightarrow> None
      | Some (j, rest) \<Rightarrow> if skip_ws rest = [] \<and> json_depth j \<le> 10000 then Some j else None)"

end
