(* ===== verification/Sha256.thy ===== *)
theory Sha256
  imports GoStrings
begin

unbundle bit_operations_syntax

text \<open>
  \<^verbatim>\<open>crypto/sha256\<close>: FIPS 180-4 SHA-256 on byte strings, over 32-bit words whose addition
  wraps. The scope and service identifiers are hexadecimal digests of canonical JSON.
\<close>

type_synonym w32 = "32 word"

definition rotr :: "nat \<Rightarrow> w32 \<Rightarrow> w32" where
  "rotr n w = (drop_bit n w) OR (push_bit (32 - n) w)"

definition big_sigma0 :: "w32 \<Rightarrow> w32" where
  "big_sigma0 x = rotr 2 x XOR rotr 13 x XOR rotr 22 x"

definition big_sigma1 :: "w32 \<Rightarrow> w32" where
  "big_sigma1 x = rotr 6 x XOR rotr 11 x XOR rotr 25 x"

definition small_sigma0 :: "w32 \<Rightarrow> w32" where
  "small_sigma0 x = rotr 7 x XOR rotr 18 x XOR drop_bit 3 x"

definition small_sigma1 :: "w32 \<Rightarrow> w32" where
  "small_sigma1 x = rotr 17 x XOR rotr 19 x XOR drop_bit 10 x"

definition sha_ch :: "w32 \<Rightarrow> w32 \<Rightarrow> w32 \<Rightarrow> w32" where
  "sha_ch x y z = (x AND y) XOR (NOT x AND z)"

definition sha_maj :: "w32 \<Rightarrow> w32 \<Rightarrow> w32 \<Rightarrow> w32" where
  "sha_maj x y z = (x AND y) XOR (x AND z) XOR (y AND z)"

text \<open>
  The constants are the first 32 bits of the fractional parts of the roots of the first primes:
  cube roots for the rounds, square roots for the initial state. \<open>iroot k m\<close> is the integer
  \<open>k\<close>-th root, found bit by bit from bit 36 down; the arguments stay below \<open>2 ^ (36 * k)\<close>.
\<close>

definition first_primes :: "nat \<Rightarrow> nat list" where
  "first_primes bound = filter (\<lambda>n. list_all (\<lambda>d. n mod d \<noteq> 0) [2..<n]) [2..<bound]"

definition iroot :: "nat \<Rightarrow> nat \<Rightarrow> nat" where
  "iroot k m = foldl (\<lambda>r b. if (r + 2 ^ b) ^ k \<le> m then r + 2 ^ b else r) 0 (rev [0..<37])"

definition root_bits :: "nat \<Rightarrow> nat \<Rightarrow> w32" where
  "root_bits k p = word_of_nat (iroot k (p * 2 ^ (32 * k)))"

definition sha_k :: "w32 list" where
  "sha_k = map (root_bits 3) (first_primes 312)"

record sha_state =
  sha_a :: w32
  sha_b :: w32
  sha_c :: w32
  sha_d :: w32
  sha_e :: w32
  sha_f :: w32
  sha_g :: w32
  sha_h :: w32

definition sha_init :: sha_state where
  "sha_init =
     \<lparr>sha_a = root_bits 2 2, sha_b = root_bits 2 3, sha_c = root_bits 2 5, sha_d = root_bits 2 7,
      sha_e = root_bits 2 11, sha_f = root_bits 2 13, sha_g = root_bits 2 17, sha_h = root_bits 2 19\<rparr>"

text \<open>The message schedule is built with its last word first.\<close>

fun sha_extend :: "nat \<Rightarrow> w32 list \<Rightarrow> w32 list" where
  "sha_extend 0 ws = ws"
| "sha_extend (Suc n) ws =
     sha_extend n ((small_sigma1 (ws ! 1) + ws ! 6 + small_sigma0 (ws ! 14) + ws ! 15) # ws)"

definition sha_round :: "w32 \<times> w32 \<Rightarrow> sha_state \<Rightarrow> sha_state" where
  "sha_round kw s =
     (let t1 = sha_h s + big_sigma1 (sha_e s) + sha_ch (sha_e s) (sha_f s) (sha_g s)
               + fst kw + snd kw;
          t2 = big_sigma0 (sha_a s) + sha_maj (sha_a s) (sha_b s) (sha_c s)
      in \<lparr>sha_a = t1 + t2, sha_b = sha_a s, sha_c = sha_b s, sha_d = sha_c s,
          sha_e = sha_d s + t1, sha_f = sha_e s, sha_g = sha_f s, sha_h = sha_g s\<rparr>)"

definition be_word :: "string \<Rightarrow> w32" where
  "be_word cs = word_of_nat (foldl (\<lambda>n c. 256 * n + code c) 0 cs)"

fun sha_words :: "string \<Rightarrow> w32 list" where
  "sha_words (a # b # c # d # cs) = be_word [a, b, c, d] # sha_words cs"
| "sha_words _ = []"

definition sha_block :: "string \<Rightarrow> sha_state \<Rightarrow> sha_state" where
  "sha_block blk s =
     (let ws = rev (sha_extend 48 (rev (sha_words blk)));
          r = fold sha_round (zip sha_k ws) s
      in \<lparr>sha_a = sha_a s + sha_a r, sha_b = sha_b s + sha_b r, sha_c = sha_c s + sha_c r,
          sha_d = sha_d s + sha_d r, sha_e = sha_e s + sha_e r, sha_f = sha_f s + sha_f r,
          sha_g = sha_g s + sha_g r, sha_h = sha_h s + sha_h r\<rparr>)"

function sha_blocks :: "string \<Rightarrow> sha_state \<Rightarrow> sha_state" where
  "sha_blocks msg s = (if msg = [] then s else sha_blocks (drop 64 msg) (sha_block (take 64 msg) s))"
  by pat_completeness auto
termination
  by (relation "measure (\<lambda>(msg, s). length msg)") auto

declare sha_blocks.simps [simp del]

definition sha_pad :: "string \<Rightarrow> string" where
  "sha_pad msg =
     (let bits = 8 * length msg;
          zeros = (119 - length msg mod 64) mod 64
      in msg @ chr 0x80 # replicate zeros (chr 0)
         @ map (\<lambda>i. chr (bits div 256 ^ (7 - i) mod 256)) [0..<8])"

definition word_bytes :: "w32 \<Rightarrow> string" where
  "word_bytes w = map (\<lambda>i. chr (unat w div 256 ^ (3 - i) mod 256)) [0..<4]"

definition sha256_Sum256 :: "string \<Rightarrow> string" where
  "sha256_Sum256 msg =
     (let s = sha_blocks (sha_pad msg) sha_init in
      concat (map word_bytes
        [sha_a s, sha_b s, sha_c s, sha_d s, sha_e s, sha_f s, sha_g s, sha_h s]))"

lemma length_sha256 [simp]: "length (sha256_Sum256 msg) = 32"
  by (simp add: sha256_Sum256_def word_bytes_def Let_def)

text \<open>The hexadecimal digest: 64 lower-case hexadecimal characters.\<close>

definition sha256_hex :: "string \<Rightarrow> string" where
  "sha256_hex msg = hex_EncodeToString (sha256_Sum256 msg)"

lemma length_sha256_hex [simp]: "length (sha256_hex msg) = 64"
  by (simp add: sha256_hex_def length_hex_EncodeToString)

lemma sha256_hex_canonical [simp]: "canonical_hex (sha256_hex msg)"
  by (simp add: sha256_hex_def)

lemma sha256_hex_nonempty [simp]: "sha256_hex msg \<noteq> []"
  using length_sha256_hex [of msg] by (metis list.size(3) zero_neq_numeral)

lemma sha256_hex_eq: "sha256_hex m = sha256_hex n \<longleftrightarrow> sha256_Sum256 m = sha256_Sum256 n"
  unfolding sha256_hex_def using hex_EncodeToString_inj by metis

end
