(* ===== verification/Scope.thy ===== *)
theory Scope
  imports GoJson NetAddr Sha256
begin

text \<open>
  \<^verbatim>\<open>internal/scanner/scope.go\<close>: the scan scope and its identifier, the SHA-256 of a canonical
  JSON form of the targets and ports. Lower-casing beyond ASCII takes the Unicode table
  \<^verbatim>\<open>uni\<close>.
\<close>

record scan_scope =
  ss_Targets :: "string list"
  ss_TCPPorts :: "int list"
  ss_UDPPorts :: "int list"

definition scanScopeSchemaVersion :: int where
  "scanScopeSchemaVersion = 1"

record canonical_scan_scope =
  cs_Version :: int
  cs_Targets :: "string list"
  cs_TCPPorts :: "int list"
  cs_UDPPorts :: "int list"

definition normalizeScopeTarget :: "(nat \<Rightarrow> nat) \<Rightarrow> string \<Rightarrow> string" where
  "normalizeScopeTarget uni raw =
     (let target = strings_TrimSpace raw in
      case netip_ParsePrefix target of
        Inr p \<Rightarrow> prefix_String (prefix_Masked p)
      | Inl _ \<Rightarrow>
          (case netip_ParseAddr target of
             Inr addr \<Rightarrow> addr_String (addr_Unmap addr)
           | Inl _ \<Rightarrow> strings_TrimSuffix (strings_ToLower uni target) ''.''))"

fun canonical_targets_loop :: "(nat \<Rightarrow> nat) \<Rightarrow> string set \<Rightarrow> string list \<Rightarrow> string list" where
  "canonical_targets_loop uni seen [] = []"
| "canonical_targets_loop uni seen (item # vals) =
     (let normalizedItem = normalizeScopeTarget uni item in
      if normalizedItem = [] \<or> normalizedItem \<in> seen then canonical_targets_loop uni seen vals
      else normalizedItem # canonical_targets_loop uni (insert normalizedItem seen) vals)"

definition canonicalTargets :: "(nat \<Rightarrow> nat) \<Rightarrow> string list \<Rightarrow> string list" where
  "canonicalTargets uni vals = sort (canonical_targets_loop uni {} vals)"

definition canonicalPorts :: "int list \<Rightarrow> int list" where
  "canonicalPorts vals = sort (dedup_seen {} vals)"

definition canonical_scope :: "(nat \<Rightarrow> nat) \<Rightarrow> scan_scope \<Rightarrow> canonical_scan_scope" where
  "canonical_scope uni s =
     \<lparr>cs_Version = scanScopeSchemaVersion,
      cs_Targets = canonicalTargets uni (ss_Targets s),
      cs_TCPPorts = canonicalPorts (ss_TCPPorts s),
      cs_UDPPorts = canonicalPorts (ss_UDPPorts s)\<rparr>"

text \<open>The result slices start as nil, and a nil slice is marshalled as \<^verbatim>\<open>null\<close>.\<close>

definition json_slice :: "('a \<Rightarrow> json) \<Rightarrow> 'a list \<Rightarrow> json" where
  "json_slice f xs = (if xs = [] then JNull else JArr (map f xs))"

definition canonical_scope_json :: "canonical_scan_scope \<Rightarrow> json" where
  "canonical_scope_json c =
     JObj [(''version'', json_int (cs_Version c)),
           (''targets'', json_slice JStr (cs_Targets c)),
           (''tcp_ports'', json_slice json_int (cs_TCPPorts c)),
           (''udp_ports'', json_slice json_int (cs_UDPPorts c))]"

definition ScanScope_ID :: "(nat \<Rightarrow> nat) \<Rightarrow> scan_scope \<Rightarrow> string" where
  "ScanScope_ID uni s = sha256_hex (json_text (canonical_scope_json (canonical_scope uni s)))"

section \<open>The canonical form\<close>

lemma canonical_targets_loop_dedup:
  "canonical_targets_loop uni seen vals =
     dedup_seen seen (filter (\<lambda>t. t \<noteq> []) (map (normalizeScopeTarget uni) vals))"
  by (induction vals arbitrary: seen) (auto simp: Let_def)

lemma canonicalTargets_set:
  "canonicalTargets uni vals =
     sorted_list_of_set (normalizeScopeTarget uni ` set vals - {[]})"
proof -
  have "set (filter (\<lambda>t. t \<noteq> []) (map (normalizeScopeTarget uni) vals))
      = normalizeScopeTarget uni ` set vals - {[]}" by auto
  then show ?thesis
    by (simp only: canonicalTargets_def canonical_targets_loop_dedup sort_dedup_sorted_list_of_set)
qed

lemma canonicalPorts_set: "canonicalPorts vals = sorted_list_of_set (set vals)"
  by (simp add: canonicalPorts_def sort_dedup_sorted_list_of_set)

lemma ascii_lits [simp]:
  "ascii [] = True" "ascii (c # s) \<longleftrightarrow> code c < 128 \<and> ascii s"
  by (auto simp: ascii_def)

lemma ScanScope_ID_shape: "length (ScanScope_ID uni s) = 64" "canonical_hex (ScanScope_ID uni s)"
  "ScanScope_ID uni s \<noteq> []"
  by (simp_all add: ScanScope_ID_def)

lemma json_slice_inj:
  assumes "json_slice f xs = json_slice f ys" "inj_on f (set xs \<union> set ys)"
  shows "xs = ys"
  using assms by (auto simp: json_slice_def inj_on_map_eq_map split: if_splits)

lemma json_int_inj [simp]: "json_int i = json_int j \<longleftrightarrow> i = j"
  by (auto simp: json_int_def dest: strconv_Itoa_inj)

lemma json_sanitize_int [simp]: "json_sanitize (json_int i) = json_int i"
  by (simp add: json_int_def)

lemma json_wf_int [simp]: "json_wf (json_int i)"
  by (auto simp: json_int_def)

lemma json_text_inj:
  assumes "json_text j = json_text k" "json_wf j" "json_wf k"
  shows "json_sanitize j = json_sanitize k"
  using json_read_text [OF assms(2), of "[]"] json_read_text [OF assms(3), of "[]"] assms(1)
  by simp

lemma canonical_scope_json_inj:
  assumes "json_text (canonical_scope_json c) = json_text (canonical_scope_json d)"
    and "\<forall>t\<in>set (cs_Targets c) \<union> set (cs_Targets d). utf8_ok t"
  shows "c = d"
proof -
  have wf: "json_wf (canonical_scope_json x)" for x
    by (auto simp: canonical_scope_json_def json_slice_def)
  have strs: "json_sanitize (json_slice JStr ts) = json_slice JStr (map utf8_sanitize ts)" for ts
    by (simp add: json_slice_def)
  have ints: "json_sanitize (json_slice json_int ps) = json_slice json_int ps" for ps
    by (simp add: json_slice_def)
  have "json_sanitize (canonical_scope_json c) = json_sanitize (canonical_scope_json d)"
    using json_text_inj [OF assms(1) wf wf] .
  then have "cs_Version c = cs_Version d"
    and T: "json_slice JStr (map utf8_sanitize (cs_Targets c))
        = json_slice JStr (map utf8_sanitize (cs_Targets d))"
    and "json_slice json_int (cs_TCPPorts c) = json_slice json_int (cs_TCPPorts d)"
    and "json_slice json_int (cs_UDPPorts c) = json_slice json_int (cs_UDPPorts d)"
    by (simp_all add: canonical_scope_json_def strs ints)
  then have "cs_Version c = cs_Version d"
    "map utf8_sanitize (cs_Targets c) = map utf8_sanitize (cs_Targets d)"
    "cs_TCPPorts c = cs_TCPPorts d" "cs_UDPPorts c = cs_UDPPorts d"
    by (auto intro: json_slice_inj simp: inj_on_def)
  moreover have "map utf8_sanitize (cs_Targets c) = cs_Targets c"
    "map utf8_sanitize (cs_Targets d) = cs_Targets d"
    using assms(2) by (simp_all add: map_idI utf8_ok_def)
  ultimately show ?thesis by (cases c; cases d) simp
qed

section \<open>What the identifier identifies\<close>

definition scope_payload :: "(nat \<Rightarrow> nat) \<Rightarrow> scan_scope \<Rightarrow> string" where
  "scope_payload uni s = json_text (canonical_scope_json (canonical_scope uni s))"

text \<open>Two different messages with one digest.\<close>

definition sha256_collision :: "string \<Rightarrow> string \<Rightarrow> bool" where
  "sha256_collision m n \<longleftrightarrow> m \<noteq> n \<and> sha256_Sum256 m = sha256_Sum256 n"

definition same_scope :: "(nat \<Rightarrow> nat) \<Rightarrow> scan_scope \<Rightarrow> scan_scope \<Rightarrow> bool" where
  "same_scope uni s t \<longleftrightarrow>
     normalizeScopeTarget uni ` set (ss_Targets s) - {[]}
       = normalizeScopeTarget uni ` set (ss_Targets t) - {[]}
     \<and> set (ss_TCPPorts s) = set (ss_TCPPorts t)
     \<and> set (ss_UDPPorts s) = set (ss_UDPPorts t)"

lemma sorted_list_of_set_eq_iff:
  "finite A \<Longrightarrow> finite B \<Longrightarrow> sorted_list_of_set A = sorted_list_of_set B \<longleftrightarrow> A = B"
  by (metis set_sorted_list_of_set)

lemma canonical_scope_eq_iff: "canonical_scope uni s = canonical_scope uni t \<longleftrightarrow> same_scope uni s t"
  by (simp add: canonical_scope_def same_scope_def canonicalTargets_set canonicalPorts_set
      sorted_list_of_set_eq_iff)

text \<open>C24: the identifier of a scan scope depends on the set of its normalised targets and on its
  two sets of ports only - neither on their order nor on repetitions nor on empty targets - and
  two scopes with different sets have different identifiers, unless their canonical JSON texts are
  a collision of SHA-256. Stated for targets whose normal form is valid UTF-8.\<close>
theorem ScanScope_ID_identifies:
  assumes "\<forall>t\<in>set (ss_Targets s1) \<union> set (ss_Targets s2). utf8_ok (normalizeScopeTarget uni t)"
  shows "ScanScope_ID uni s1 = ScanScope_ID uni s2 \<longleftrightarrow>
     same_scope uni s1 s2 \<or> sha256_collision (scope_payload uni s1) (scope_payload uni s2)"
proof -
  have "\<forall>t\<in>set (cs_Targets (canonical_scope uni s1)) \<union> set (cs_Targets (canonical_scope uni s2)).
      utf8_ok t"
    using assms by (auto simp: canonical_scope_def canonicalTargets_set)
  then have "scope_payload uni s1 = scope_payload uni s2 \<longleftrightarrow> same_scope uni s1 s2"
    using canonical_scope_json_inj unfolding scope_payload_def by (metis canonical_scope_eq_iff)
  then show ?thesis
    by (auto simp: ScanScope_ID_def scope_payload_def [symmetric] sha256_hex_eq
        sha256_collision_def)
qed

lemma normalizeScopeTarget_host:
  assumes "\<forall>c\<in>set h. graphic c" "ascii h"
    and "isl (netip_ParsePrefix h)" "isl (netip_ParseAddr h)"
  shows "normalizeScopeTarget uni h
    = strings_TrimSuffix (map (\<lambda>c. chr (ascii_lower (code c))) h) ''.''"
  using assms strings_TrimSpace_graphic [OF assms(1)]
  by (auto simp: normalizeScopeTarget_def Let_def strings_ToLower_def split: sum.splits)

lemma ScanScope_ID_identifies_witness:
  "ScanScope_ID id \<lparr>ss_Targets = [''WEB'', ''web'', ''web.''], ss_TCPPorts = [443, 22, 443],
       ss_UDPPorts = []\<rparr>
   = ScanScope_ID id \<lparr>ss_Targets = [''web''], ss_TCPPorts = [22, 443], ss_UDPPorts = []\<rparr>"
proof -
  have p: "isl (netip_ParsePrefix ''WEB'')" "isl (netip_ParseAddr ''WEB'')"
    "isl (netip_ParsePrefix ''web'')" "isl (netip_ParseAddr ''web'')"
    "isl (netip_ParsePrefix ''web.'')" "isl (netip_ParseAddr ''web.'')"
    by code_simp+
  have t: "strings_TrimSuffix (map (\<lambda>c. chr (ascii_lower (code c))) ''WEB'') ''.'' = ''web''"
    "strings_TrimSuffix (map (\<lambda>c. chr (ascii_lower (code c))) ''web'') ''.'' = ''web''"
    "strings_TrimSuffix (map (\<lambda>c. chr (ascii_lower (code c))) ''web.'') ''.'' = ''web''"
    by (simp_all add: ascii_lower_def chr_lits strings_TrimSuffix_def suffix_to_prefix, code_simp)
  have "normalizeScopeTarget id ''WEB'' = ''web''" "normalizeScopeTarget id ''web'' = ''web''"
    "normalizeScopeTarget id ''web.'' = ''web''"
    by (subst normalizeScopeTarget_host, simp_all only: p t, simp_all add: graphic_def)+
  then show ?thesis
    by (subst ScanScope_ID_identifies) (auto simp: same_scope_def)
qed

end
