(* ===== verification/ServiceIdentity.thy ===== *)
theory ServiceIdentity
  imports Scope
begin

text \<open>
  \<^verbatim>\<open>internal/scanner/service_identity.go\<close> and \<^verbatim>\<open>address.go\<close>: the identity of a service and
  its key, the SHA-256 of the canonical JSON of scope, address, port and protocol.
\<close>

definition serviceIdentitySchemaVersion :: int where
  "serviceIdentitySchemaVersion = 1"

record service_identity =
  id_ScopeID :: string
  id_IP :: string
  id_Port :: int
  id_Protocol :: string

record canonical_service_identity =
  ci_Version :: int
  ci_ScopeID :: string
  ci_IP :: string
  ci_Port :: int
  ci_Protocol :: string

definition normalizeServiceIP :: "string \<Rightarrow> error + string" where
  "normalizeServiceIP raw =
     bindE (netip_ParseAddr raw) (\<lambda>addr. Inr (addr_String (addr_Unmap addr)))"

definition validateServiceProtocol :: "string \<Rightarrow> error option" where
  "validateServiceProtocol raw =
     (if raw = ''tcp'' \<or> raw = ''udp'' then None else Some (Errorf ''unsupported protocol''))"

definition validateServicePort :: "int \<Rightarrow> error option" where
  "validateServicePort port =
     (if port < 1 \<or> port > 65535 then Some (Errorf ''invalid service port'') else None)"

definition validateServiceScopeID :: "string \<Rightarrow> error option" where
  "validateServiceScopeID scopeID =
     (if scopeID = [] then Some (Errorf ''scope ID cannot be empty'') else None)"

text \<open>\<^verbatim>\<open>if err := f(); err != nil { return ..., err }\<close>\<close>

definition okE :: "error option \<Rightarrow> error + unit" where
  "okE r = (case r of None \<Rightarrow> Inr () | Some e \<Rightarrow> Inl e)"

lemma okE_simps [simp]: "okE None = Inr ()" "okE (Some e) = Inl e"
  by (simp_all add: okE_def)

lemma okE_eq_Inr [simp]: "okE r = Inr u \<longleftrightarrow> r = None"
  by (cases r) auto

definition canonical_identity :: "service_identity \<Rightarrow> string \<Rightarrow> canonical_service_identity" where
  "canonical_identity s normalizedIP =
     \<lparr>ci_Version = serviceIdentitySchemaVersion, ci_ScopeID = id_ScopeID s, ci_IP = normalizedIP,
      ci_Port = id_Port s, ci_Protocol = id_Protocol s\<rparr>"

definition canonical_identity_json :: "canonical_service_identity \<Rightarrow> json" where
  "canonical_identity_json c =
     JObj [(''version'', json_int (ci_Version c)), (''scope_id'', JStr (ci_ScopeID c)),
           (''ip'', JStr (ci_IP c)), (''port'', json_int (ci_Port c)),
           (''protocol'', JStr (ci_Protocol c))]"

definition ServiceIdentity_Key :: "service_identity \<Rightarrow> error + string" where
  "ServiceIdentity_Key s =
     bindE (normalizeServiceIP (id_IP s)) (\<lambda>normalizedIP.
     bindE (okE (validateServiceProtocol (id_Protocol s))) (\<lambda>_.
     bindE (okE (validateServicePort (id_Port s))) (\<lambda>_.
     bindE (okE (validateServiceScopeID (id_ScopeID s))) (\<lambda>_.
       Inr (sha256_hex (json_text (canonical_identity_json
         (canonical_identity s normalizedIP))))))))"

text \<open>\<^verbatim>\<open>net.JoinHostPort\<close>: a host with a colon is an IPv6 literal and is bracketed.\<close>

definition net_JoinHostPort :: "string \<Rightarrow> string \<Rightarrow> string" where
  "net_JoinHostPort host port =
     (if CHR '':'' \<in> set host then ''['' @ host @ '']:'' @ port else host @ '':'' @ port)"

definition joinHostPort :: "string \<Rightarrow> int \<Rightarrow> string" where
  "joinHostPort host port = net_JoinHostPort host (strconv_Itoa port)"

section \<open>Canonical addresses and keys\<close>

lemma normalizeServiceIP_idem:
  assumes "normalizeServiceIP raw = Inr ip"
  shows "normalizeServiceIP ip = Inr ip"
proof -
  obtain a where a: "netip_ParseAddr raw = Inr a" "ip = addr_String (addr_Unmap a)"
    using assms by (auto simp: normalizeServiceIP_def bindE_eq_Inr)
  then have "addr_IsValid a" by (blast dest: ParseAddr_valid)
  moreover have "addr_IsValid (addr_Unmap a)"
    using \<open>addr_IsValid a\<close> by (cases a) (auto simp: addr_Unmap_def addr_IsValid_def)
  ultimately show ?thesis
    using ParseAddr_String a by (fastforce simp: normalizeServiceIP_def)
qed

text \<open>The conditions under which an identity has a key.\<close>

definition identity_ok :: "service_identity \<Rightarrow> bool" where
  "identity_ok s \<longleftrightarrow>
     (\<exists>ip. normalizeServiceIP (id_IP s) = Inr ip) \<and> id_Protocol s \<in> {''tcp'', ''udp''}
     \<and> 1 \<le> id_Port s \<and> id_Port s \<le> 65535 \<and> id_ScopeID s \<noteq> []"

lemma ServiceIdentity_Key_Inr:
  "ServiceIdentity_Key s = Inr k \<longleftrightarrow>
     (\<exists>ip. normalizeServiceIP (id_IP s) = Inr ip
        \<and> k = sha256_hex (json_text (canonical_identity_json (canonical_identity s ip))))
     \<and> id_Protocol s \<in> {''tcp'', ''udp''} \<and> 1 \<le> id_Port s \<and> id_Port s \<le> 65535
     \<and> id_ScopeID s \<noteq> []"
  by (auto simp: ServiceIdentity_Key_def bindE_eq_Inr validateServiceProtocol_def
      validateServicePort_def validateServiceScopeID_def)

lemma ServiceIdentity_Key_ok: "(\<exists>k. ServiceIdentity_Key s = Inr k) \<longleftrightarrow> identity_ok s"
  by (auto simp: ServiceIdentity_Key_Inr identity_ok_def)

lemma ServiceIdentity_Key_shape:
  assumes "ServiceIdentity_Key s = Inr k"
  shows "length k = 64" "canonical_hex k" "k \<noteq> []"
  using assms by (auto simp: ServiceIdentity_Key_Inr)

text \<open>The canonical address takes the place of the given one without changing the key.\<close>

lemma ServiceIdentity_Key_normalized:
  assumes "normalizeServiceIP (id_IP s) = Inr ip"
  shows "ServiceIdentity_Key (s\<lparr>id_IP := ip\<rparr>) = ServiceIdentity_Key s"
  using assms normalizeServiceIP_idem [OF assms]
  by (simp add: ServiceIdentity_Key_def canonical_identity_def)

definition identity_payload :: "service_identity \<Rightarrow> string" where
  "identity_payload s =
     (case normalizeServiceIP (id_IP s) of
        Inl _ \<Rightarrow> [] | Inr ip \<Rightarrow> json_text (canonical_identity_json (canonical_identity s ip)))"

definition same_service :: "service_identity \<Rightarrow> service_identity \<Rightarrow> bool" where
  "same_service s t \<longleftrightarrow>
     normalizeServiceIP (id_IP s) = normalizeServiceIP (id_IP t)
     \<and> id_ScopeID s = id_ScopeID t \<and> id_Port s = id_Port t \<and> id_Protocol s = id_Protocol t"

lemma canonical_identity_json_inj:
  assumes "json_text (canonical_identity_json c) = json_text (canonical_identity_json d)"
    and "utf8_ok (ci_ScopeID c)" "utf8_ok (ci_ScopeID d)" "utf8_ok (ci_IP c)" "utf8_ok (ci_IP d)"
    and "ci_Protocol c \<in> {''tcp'', ''udp''}" "ci_Protocol d \<in> {''tcp'', ''udp''}"
  shows "c = d"
proof -
  have wf: "json_wf (canonical_identity_json x)" for x
    by (auto simp: canonical_identity_json_def)
  have p: "utf8_sanitize (ci_Protocol c) = ci_Protocol c" "utf8_sanitize (ci_Protocol d) = ci_Protocol d"
    using assms(6,7) by auto
  have "json_sanitize (canonical_identity_json c) = json_sanitize (canonical_identity_json d)"
    using json_text_inj [OF assms(1) wf wf] .
  with assms(2-5) show ?thesis
    by (cases c; cases d) (use p in \<open>auto simp: canonical_identity_json_def utf8_ok_def\<close>)
qed

lemma Key_eq_iff:
  assumes s: "ServiceIdentity_Key s = Inr k" and t: "ServiceIdentity_Key t = Inr l"
    and utf8: "utf8_ok (id_ScopeID s)" "utf8_ok (id_ScopeID t)"
      "\<forall>ip. normalizeServiceIP (id_IP s) = Inr ip \<longrightarrow> utf8_ok ip"
      "\<forall>ip. normalizeServiceIP (id_IP t) = Inr ip \<longrightarrow> utf8_ok ip"
  shows "identity_ok s \<and> identity_ok t \<and> length k = 64 \<and> canonical_hex k \<and>
    (k = l \<longleftrightarrow> same_service s t \<or> sha256_collision (identity_payload s) (identity_payload t))"
proof -
  obtain ip iq where ips: "normalizeServiceIP (id_IP s) = Inr ip" "normalizeServiceIP (id_IP t) = Inr iq"
    and kl: "k = sha256_hex (identity_payload s)" "l = sha256_hex (identity_payload t)"
    using s t by (auto simp: ServiceIdentity_Key_Inr identity_payload_def)
  have protos: "id_Protocol s \<in> {''tcp'', ''udp''}" "id_Protocol t \<in> {''tcp'', ''udp''}"
    using s t by (auto simp: ServiceIdentity_Key_Inr)
  have "identity_payload s = identity_payload t \<longleftrightarrow> same_service s t"
  proof
    assume "identity_payload s = identity_payload t"
    then have "canonical_identity s ip = canonical_identity t iq"
      using ips utf8 protos by (intro canonical_identity_json_inj)
        (simp_all add: identity_payload_def, auto simp: canonical_identity_def)
    with ips show "same_service s t" by (simp add: canonical_identity_def same_service_def)
  next
    assume "same_service s t"
    with ips show "identity_payload s = identity_payload t"
      by (simp add: identity_payload_def same_service_def canonical_identity_def)
  qed
  moreover have "identity_ok s" "identity_ok t" using s t ServiceIdentity_Key_ok by auto
  ultimately show ?thesis
    using kl by (auto simp: sha256_hex_eq sha256_collision_def)
qed

text \<open>C23: an identity has a key exactly when its address parses, its protocol is tcp or udp, its
  port is a port and its scope is not empty; the key is 64 lower-case hexadecimal digits; and two
  identities share a key exactly when they are the same service (the same scope, canonical
  address, port and protocol), unless their canonical JSON texts are a collision of SHA-256.\<close>
theorem ServiceIdentity_Key_identifies:
  assumes s: "ServiceIdentity_Key s = Inr k" and t: "ServiceIdentity_Key t = Inr l"
    and utf8: "utf8_ok (id_ScopeID s)" "utf8_ok (id_ScopeID t)"
      "\<forall>ip. normalizeServiceIP (id_IP s) = Inr ip \<longrightarrow> utf8_ok ip"
      "\<forall>ip. normalizeServiceIP (id_IP t) = Inr ip \<longrightarrow> utf8_ok ip"
  shows "identity_ok s \<and> identity_ok t \<and> length k = 64 \<and> canonical_hex k \<and>
    (k = l \<longleftrightarrow> same_service s t \<or> sha256_collision (identity_payload s) (identity_payload t))"
  using assms by (rule Key_eq_iff)

lemma normalizeServiceIP_v4: "normalizeServiceIP (string4 w) = Inr (string4 w)"
  by (simp add: normalizeServiceIP_def ParseAddr_print4 addr_Unmap_def addr_String_def)

lemma string4_sample: "string4 0x0A000001 = ''10.0.0.1''"
  by (simp add: string4_def v4_octets_def digits_be_4 nat_to_dec.simps chr_lits)

lemmas normalizeServiceIP_sample = normalizeServiceIP_v4 [of "0x0A000001", unfolded string4_sample]

lemma ServiceIdentity_Key_identifies_witness:
  "identity_ok \<lparr>id_ScopeID = ''s'', id_IP = ''10.0.0.1'', id_Port = 443, id_Protocol = ''tcp''\<rparr>
   \<and> (ServiceIdentity_Key \<lparr>id_ScopeID = ''s'', id_IP = ''10.0.0.1'', id_Port = 443, id_Protocol = ''tcp''\<rparr>
      = ServiceIdentity_Key \<lparr>id_ScopeID = ''s'', id_IP = ''10.0.0.1'', id_Port = 443, id_Protocol = ''udp''\<rparr>
     \<longleftrightarrow> sha256_collision
      (identity_payload \<lparr>id_ScopeID = ''s'', id_IP = ''10.0.0.1'', id_Port = 443, id_Protocol = ''tcp''\<rparr>)
      (identity_payload \<lparr>id_ScopeID = ''s'', id_IP = ''10.0.0.1'', id_Port = 443, id_Protocol = ''udp''\<rparr>))"
  (is "identity_ok ?s \<and> (ServiceIdentity_Key ?s = ServiceIdentity_Key ?t \<longleftrightarrow> ?coll)")
proof -
  have ok: "identity_ok ?s" "identity_ok ?t"
    by (simp_all add: identity_ok_def normalizeServiceIP_sample)
  then obtain k l where kl: "ServiceIdentity_Key ?s = Inr k" "ServiceIdentity_Key ?t = Inr l"
    by (metis ServiceIdentity_Key_ok)
  show ?thesis
    using ServiceIdentity_Key_identifies [OF kl] kl
    by (simp add: normalizeServiceIP_sample same_service_def)
qed

end
