(* ===== verification/StateRecords.thy ===== *)
theory StateRecords
  imports StateScan ServiceIdentity
begin

text \<open>
  \<^verbatim>\<open>internal/scanner/state_records.go\<close>: the persistent record of a service, its JSON form, the
  validation of what is read back, and the operations that save an observation and load a
  committed baseline or a current scan.
\<close>

section \<open>Records\<close>

definition ServiceStatusOpen :: string where
  "ServiceStatusOpen = ''open''"

definition ServiceStatusClosed :: string where
  "ServiceStatusClosed = ''closed''"

definition sha256HexLength :: nat where
  "sha256HexLength = 64"

lemmas status_defs = ServiceStatusOpen_def ServiceStatusClosed_def

lemma status_distinct [simp]: "ServiceStatusOpen \<noteq> ServiceStatusClosed"
  "ServiceStatusClosed \<noteq> ServiceStatusOpen"
  by (simp_all add: status_defs)

record service_observation =
  obs_Banner :: string
  obs_OSHint :: string
  obs_CertSubject :: string
  obs_CertIssuer :: string
  obs_SANs :: "string list"

text \<open>The list of names may be nil (\<^const>\<open>None\<close>), which validation tells from an empty list.\<close>

record service_record =
  rec_IP :: string
  rec_Port :: int
  rec_Protocol :: string
  rec_Status :: string
  rec_Banner :: string
  rec_OSHint :: string
  rec_CertSubject :: string
  rec_CertIssuer :: string
  rec_SANs :: "string list option"

definition zero_service_record :: service_record where
  "zero_service_record =
     \<lparr>rec_IP = [], rec_Port = 0, rec_Protocol = [], rec_Status = [], rec_Banner = [],
      rec_OSHint = [], rec_CertSubject = [], rec_CertIssuer = [], rec_SANs = None\<rparr>"

definition canonicalObservationStrings :: "string list \<Rightarrow> string list" where
  "canonicalObservationStrings vals = sort (dedup_seen {} vals)"

definition serviceRecordFromObservation ::
  "service_identity \<Rightarrow> service_observation \<Rightarrow> error + service_record \<times> string" where
  "serviceRecordFromObservation identity observation =
     bindE (ServiceIdentity_Key identity) (\<lambda>serviceKey.
     bindE (normalizeServiceIP (id_IP identity)) (\<lambda>canonicalIP.
       Inr (\<lparr>rec_IP = canonicalIP, rec_Port = id_Port identity,
             rec_Protocol = id_Protocol identity, rec_Status = ServiceStatusOpen,
             rec_Banner = obs_Banner observation, rec_OSHint = obs_OSHint observation,
             rec_CertSubject = obs_CertSubject observation,
             rec_CertIssuer = obs_CertIssuer observation,
             rec_SANs = Some (canonicalObservationStrings (obs_SANs observation))\<rparr>,
            serviceKey)))"

section \<open>JSON\<close>

definition record_json :: "service_record \<Rightarrow> json" where
  "record_json r =
     JObj [(''ip'', JStr (rec_IP r)), (''port'', json_int (rec_Port r)),
           (''protocol'', JStr (rec_Protocol r)), (''status'', JStr (rec_Status r)),
           (''banner'', JStr (rec_Banner r)), (''os_hint'', JStr (rec_OSHint r)),
           (''tls_subject'', JStr (rec_CertSubject r)), (''tls_issuer'', JStr (rec_CertIssuer r)),
           (''tls_sans'', json_strings (rec_SANs r))]"

definition marshal_record :: "service_record \<Rightarrow> string" where
  "marshal_record r = json_text (record_json r)"

text \<open>
  Decoding into the struct. A key selects a field by its exact name or, failing that, by case
  folding; on these names the folding identifies, beyond ASCII case, U+017F with \<open>s\<close> and U+212A
  with \<open>k\<close>. \<^verbatim>\<open>null\<close> leaves a string or an integer as it is and makes the slice nil. A value of
  the wrong kind, a number that is not a 64-bit integer and an unknown key are errors. A slice
  that is decoded a second time reuses its memory, so that a \<^verbatim>\<open>null\<close> element keeps what an
  earlier member wrote there: the state of the slice is its memory and its length.
\<close>

datatype field =
  FIP | FPort | FProtocol | FStatus | FBanner | FOSHint | FCertSubject | FCertIssuer | FSANs

definition record_fields :: "(string \<times> field) list" where
  "record_fields =
     [(''ip'', FIP), (''port'', FPort), (''protocol'', FProtocol), (''status'', FStatus),
      (''banner'', FBanner), (''os_hint'', FOSHint), (''tls_subject'', FCertSubject),
      (''tls_issuer'', FCertIssuer), (''tls_sans'', FSANs)]"

definition field_of :: "string \<Rightarrow> field option" where
  "field_of key = find_field record_fields key"

fun decode_elems :: "nat \<Rightarrow> json list \<Rightarrow> string list \<Rightarrow> string list option" where
  "decode_elems i [] mem = Some mem"
| "decode_elems i (j # js) mem =
     (let mem' = (if i < length mem then mem else mem @ [[]]) in
      case decode_string j (mem' ! i) of
        None \<Rightarrow> None
      | Some v \<Rightarrow> decode_elems (Suc i) js (mem'[i := v]))"

type_synonym go_slice = "(string list \<times> nat) option"

definition decode_strings :: "json \<Rightarrow> go_slice \<Rightarrow> go_slice option" where
  "decode_strings j old =
     (case j of
        JNull \<Rightarrow> Some None
      | JArr [] \<Rightarrow> Some (Some ([], 0))
      | JArr js \<Rightarrow>
          map_option (\<lambda>mem. Some (mem, length js))
            (decode_elems 0 js (case old of None \<Rightarrow> [] | Some (mem, n) \<Rightarrow> mem))
      | _ \<Rightarrow> None)"

definition decode_field ::
  "field \<Rightarrow> json \<Rightarrow> service_record \<times> go_slice \<Rightarrow> (service_record \<times> go_slice) option" where
  "decode_field f j st =
     (case st of (r, sans) \<Rightarrow>
       (case f of
          FIP \<Rightarrow> map_option (\<lambda>v. (r\<lparr>rec_IP := v\<rparr>, sans)) (decode_string j (rec_IP r))
        | FPort \<Rightarrow> map_option (\<lambda>v. (r\<lparr>rec_Port := v\<rparr>, sans)) (decode_int j (rec_Port r))
        | FProtocol \<Rightarrow>
            map_option (\<lambda>v. (r\<lparr>rec_Protocol := v\<rparr>, sans)) (decode_string j (rec_Protocol r))
        | FStatus \<Rightarrow> map_option (\<lambda>v. (r\<lparr>rec_Status := v\<rparr>, sans)) (decode_string j (rec_Status r))
        | FBanner \<Rightarrow> map_option (\<lambda>v. (r\<lparr>rec_Banner := v\<rparr>, sans)) (decode_string j (rec_Banner r))
        | FOSHint \<Rightarrow> map_option (\<lambda>v. (r\<lparr>rec_OSHint := v\<rparr>, sans)) (decode_string j (rec_OSHint r))
        | FCertSubject \<Rightarrow>
            map_option (\<lambda>v. (r\<lparr>rec_CertSubject := v\<rparr>, sans)) (decode_string j (rec_CertSubject r))
        | FCertIssuer \<Rightarrow>
            map_option (\<lambda>v. (r\<lparr>rec_CertIssuer := v\<rparr>, sans)) (decode_string j (rec_CertIssuer r))
        | FSANs \<Rightarrow> map_option (\<lambda>v. (r, v)) (decode_strings j sans)))"

fun decode_members ::
  "(string \<times> json) list \<Rightarrow> service_record \<times> go_slice \<Rightarrow> (service_record \<times> go_slice) option" where
  "decode_members [] st = Some st"
| "decode_members ((k, j) # ms) st =
     (case field_of k of
        None \<Rightarrow> None
      | Some f \<Rightarrow> Option.bind (decode_field f j st) (decode_members ms))"

definition with_slice :: "service_record \<times> go_slice \<Rightarrow> service_record" where
  "with_slice st = (fst st)\<lparr>rec_SANs := map_option (\<lambda>(mem, n). take n mem) (snd st)\<rparr>"

definition decode_record :: "json \<Rightarrow> service_record option" where
  "decode_record j =
     (case j of
        JNull \<Rightarrow> Some zero_service_record
      | JObj ms \<Rightarrow> map_option with_slice (decode_members ms (zero_service_record, None))
      | _ \<Rightarrow> None)"

text \<open>One value, the right kind, and nothing but white space after it.\<close>

definition decodeServiceRecord :: "string \<Rightarrow> error + service_record" where
  "decodeServiceRecord val =
     (case json_read val of
        None \<Rightarrow> Inl (External ''json: syntax error or end of input'')
      | Some (j, rest) \<Rightarrow>
          (case decode_record j of
             None \<Rightarrow> Inl (External ''json: cannot unmarshal'')
           | Some record \<Rightarrow>
               if skip_ws rest = [] then Inr record
               else
                 (case json_read rest of
                    Some (JObj [], _) \<Rightarrow> Inl (Errorf ''multiple JSON values'')
                  | Some (JNull, _) \<Rightarrow> Inl (Errorf ''multiple JSON values'')
                  | _ \<Rightarrow> Inl (External ''json: trailing data''))))"

section \<open>Validation\<close>

definition validServiceKeyV1 :: "string \<Rightarrow> bool" where
  "validServiceKeyV1 key =
     (if length key \<noteq> sha256HexLength then False
      else (case hex_DecodeString key of
              None \<Rightarrow> False
            | Some decoded \<Rightarrow> hex_EncodeToString decoded = key))"

definition validatePersistentServiceRecord ::
  "string \<Rightarrow> string \<Rightarrow> service_record \<Rightarrow> bool \<Rightarrow> error option" where
  "validatePersistentServiceRecord scopeID serviceKey record current =
     (if rec_Status record \<noteq> ServiceStatusOpen \<and> rec_Status record \<noteq> ServiceStatusClosed
      then Some (Errorf ''unsupported status'')
      else if current \<and> rec_Status record \<noteq> ServiceStatusOpen
      then Some (Errorf ''current observation status must be open'')
      else if normalizeServiceIP (rec_IP record) \<noteq> Inr (rec_IP record)
      then Some (Errorf ''non-canonical IP'')
      else
        (case ServiceIdentity_Key
           \<lparr>id_ScopeID = scopeID, id_IP = rec_IP record, id_Port = rec_Port record,
            id_Protocol = rec_Protocol record\<rparr> of
           Inl err \<Rightarrow> Some err
         | Inr expectedKey \<Rightarrow>
             if expectedKey \<noteq> serviceKey
             then Some (Errorf ''service key does not match stored identity'')
             else (case rec_SANs record of
                 None \<Rightarrow> Some (Errorf ''tls_sans are not canonical'')
               | Some sans \<Rightarrow>
                   if sans \<noteq> canonicalObservationStrings sans
                   then Some (Errorf ''tls_sans are not canonical'') else None)))"

section \<open>Loading\<close>

type_synonym service_map = "string \<rightharpoonup> service_record"

text \<open>The body of the \<^verbatim>\<open>ForEach\<close> loop and the loop.\<close>

definition load_entry ::
  "string \<Rightarrow> bool \<Rightarrow> string \<Rightarrow> string option \<Rightarrow> error + service_record" where
  "load_entry scopeID current key val =
     (case val of
        None \<Rightarrow> Inl (Wrapf (Sentinel ErrInvalidPersistentServiceRecord) ''invalid service key'')
      | Some v \<Rightarrow>
          if \<not> validServiceKeyV1 key
          then Inl (Wrapf (Sentinel ErrInvalidPersistentServiceRecord) ''invalid service key'')
          else
            (case decodeServiceRecord v of
               Inl err \<Rightarrow> Inl (Wrapf (Sentinel ErrInvalidPersistentServiceRecord) ''service'')
             | Inr record \<Rightarrow>
                 (case validatePersistentServiceRecord scopeID key record current of
                    Some err \<Rightarrow> Inl (Wrapf (Sentinel ErrInvalidPersistentServiceRecord) ''service'')
                  | None \<Rightarrow> Inr record)))"

fun load_entries ::
  "string \<Rightarrow> bool \<Rightarrow> (string \<times> string option) list \<Rightarrow> service_map \<Rightarrow> error + service_map" where
  "load_entries scopeID current [] records = Inr records"
| "load_entries scopeID current ((key, val) # es) records =
     bindE (load_entry scopeID current key val) (\<lambda>record.
       load_entries scopeID current es (records(key \<mapsto> record)))"

definition loadServiceRecords ::
  "('db, 'tx) bolt \<Rightarrow> path \<Rightarrow> string \<Rightarrow> bool \<Rightarrow> 'tx \<Rightarrow> error + service_map" where
  "loadServiceRecords B bucket scopeID current tx =
     load_entries scopeID current (bolt_entries B bucket tx) Map.empty"

text \<open>The results are the records (\<^const>\<open>None\<close> for a nil map), whether the bucket exists, and the
  error. The captured variables keep what the closure assigned when it fails.\<close>

type_synonym load_result = "service_map option \<times> bool \<times> error option"

definition load_bucket ::
  "('db, 'tx) bolt \<Rightarrow> path \<Rightarrow> string \<Rightarrow> bool \<Rightarrow> 'tx \<Rightarrow> load_result" where
  "load_bucket B bucket scopeID current tx =
     (case loadServiceRecords B bucket scopeID current tx of
        Inl err \<Rightarrow> (None, True, Some err)
      | Inr records \<Rightarrow> (Some records, True, None))"

definition finish_load :: "error + load_result \<Rightarrow> load_result" where
  "finish_load r =
     (case r of
        Inl err \<Rightarrow> (None, False, Some err)
      | Inr (records, found, err) \<Rightarrow>
          (if records = None \<and> err = None then Some Map.empty else records, found, err))"

definition LoadCommittedBaseline :: "('db, 'tx) bolt \<Rightarrow> string \<Rightarrow> 'db \<Rightarrow> load_result" where
  "LoadCommittedBaseline B scopeID db =
     (if scopeID = [] then (None, False, Some (Sentinel ErrInvalidStateScopeID))
      else finish_load (db_View B (\<lambda>tx.
        case validateStateSchema B tx of
          Some err \<Rightarrow> (None, False, Some err)
        | None \<Rightarrow>
            if \<not> bolt_bucket B [] stateScopeBucket tx then (None, False, None)
            else if \<not> bolt_bucket B [stateScopeBucket] scopeID tx then (None, False, None)
            else if \<not> bolt_bucket B (scope_path scopeID) stateBaselineBucket tx
            then (None, False, None)
            else load_bucket B (baseline_path scopeID) scopeID False tx) db))"

definition LoadCurrentScan :: "('db, 'tx) bolt \<Rightarrow> string \<Rightarrow> string \<Rightarrow> 'db \<Rightarrow> load_result" where
  "LoadCurrentScan B scopeID scanID db =
     (if scopeID = [] then (None, False, Some (Sentinel ErrInvalidStateScopeID))
      else if scanID = [] then (None, False, Some (Sentinel ErrInvalidStateScanID))
      else finish_load (db_View B (\<lambda>tx.
        case validateStateSchema B tx of
          Some err \<Rightarrow> (None, False, Some err)
        | None \<Rightarrow>
            if \<not> bolt_bucket B [] stateScopeBucket tx then (None, False, None)
            else if \<not> bolt_bucket B [stateScopeBucket] scopeID tx then (None, False, None)
            else if \<not> bolt_bucket B (scope_path scopeID) stateScanBucket tx
            then (None, False, None)
            else if \<not> bolt_bucket B (scans_path scopeID) scanID tx then (None, False, None)
            else load_bucket B (scan_path scopeID scanID) scopeID True tx) db))"

section \<open>Saving\<close>

definition SaveCurrentService_tx ::
  "('db, 'tx) bolt \<Rightarrow> string \<Rightarrow> string \<Rightarrow> string \<Rightarrow> string \<Rightarrow> ('tx, unit) txm" where
  "SaveCurrentService_tx B scopeID scanID serviceKey payload =
     bindT (validateT B) (\<lambda>_.
     bindT (open_scansT B scopeID) (\<lambda>_.
     bindT (execT (bolt_create_if B (scans_path scopeID) scanID)) (\<lambda>_.
     execT (bolt_put B (scan_path scopeID scanID) serviceKey payload))))"

definition SaveCurrentService ::
  "('db, 'tx) bolt \<Rightarrow> string \<Rightarrow> string \<Rightarrow> service_identity \<Rightarrow> service_observation \<Rightarrow> 'db
     \<Rightarrow> (error + unit) \<times> 'db" where
  "SaveCurrentService B scopeID scanID identity observation db =
     (if scopeID = [] then (Inl (Sentinel ErrInvalidStateScopeID), db)
      else if scanID = [] then (Inl (Sentinel ErrInvalidStateScanID), db)
      else if id_ScopeID identity \<noteq> scopeID
      then (Inl (Wrapf (Sentinel ErrServiceIdentityScopeMismatch)
              ''identity scope does not match destination scope''), db)
      else
        (case serviceRecordFromObservation identity observation of
           Inl err \<Rightarrow> (Inl err, db)
         | Inr (record, serviceKey) \<Rightarrow>
             db_Update B
               (SaveCurrentService_tx B scopeID scanID serviceKey (marshal_record record)) db))"

section \<open>A marshalled record reads back\<close>

lemma canonicalObservationStrings_set:
  "canonicalObservationStrings vals = sorted_list_of_set (set vals)"
  by (simp add: canonicalObservationStrings_def sort_dedup_sorted_list_of_set)

lemma canonicalObservationStrings_idem [simp]:
  "canonicalObservationStrings (canonicalObservationStrings vals) = canonicalObservationStrings vals"
  by (simp add: canonicalObservationStrings_set)

lemma set_canonicalObservationStrings [simp]:
  "set (canonicalObservationStrings vals) = set vals"
  by (simp add: canonicalObservationStrings_set)

definition record_sanitize :: "service_record \<Rightarrow> service_record" where
  "record_sanitize r =
     \<lparr>rec_IP = utf8_sanitize (rec_IP r), rec_Port = rec_Port r,
      rec_Protocol = utf8_sanitize (rec_Protocol r), rec_Status = utf8_sanitize (rec_Status r),
      rec_Banner = utf8_sanitize (rec_Banner r), rec_OSHint = utf8_sanitize (rec_OSHint r),
      rec_CertSubject = utf8_sanitize (rec_CertSubject r),
      rec_CertIssuer = utf8_sanitize (rec_CertIssuer r),
      rec_SANs = map_option (map utf8_sanitize) (rec_SANs r)\<rparr>"

definition record_utf8 :: "service_record \<Rightarrow> bool" where
  "record_utf8 r \<longleftrightarrow>
     (\<forall>v\<in>{rec_IP r, rec_Protocol r, rec_Status r, rec_Banner r, rec_OSHint r, rec_CertSubject r,
          rec_CertIssuer r}. utf8_ok v)
     \<and> (\<forall>sans. rec_SANs r = Some sans \<longrightarrow> (\<forall>v\<in>set sans. utf8_ok v))"

lemma record_sanitize_utf8: "record_utf8 r \<Longrightarrow> record_sanitize r = r"
  by (cases r; cases "rec_SANs r")
     (auto simp: record_utf8_def record_sanitize_def utf8_ok_def intro: map_idI)

lemma json_wf_record [simp]: "json_wf (record_json r)"
  by (auto simp: record_json_def json_strings_def split: option.splits)

lemma json_sanitize_strings [simp]:
  "json_sanitize (json_strings ss) = json_strings (map_option (map utf8_sanitize) ss)"
  by (simp add: json_strings_def split: option.splits)

lemma json_sanitize_record: "json_sanitize (record_json r) = record_json (record_sanitize r)"
  by (simp add: record_json_def record_sanitize_def)

lemma decode_elems_strings:
  "i = length mem \<Longrightarrow> decode_elems i (map JStr ss) mem = Some (mem @ ss)"
proof (induction ss arbitrary: i mem)
  case (Cons v ss)
  then have "decode_elems (Suc (length mem)) (map JStr ss) (mem @ [v]) = Some ((mem @ [v]) @ ss)"
    by (intro Cons.IH) simp
  with Cons.prems show ?case by (simp add: decode_string_def list_update_append)
qed simp

lemma decode_strings_json:
  "decode_strings (json_strings ss) None = Some (map_option (\<lambda>xs. (xs, length xs)) ss)"
proof (cases ss)
  case (Some xs)
  then show ?thesis
    using decode_elems_strings [of 0 "[]" xs]
    by (cases xs) (simp_all add: decode_strings_def json_strings_def del: decode_elems.simps)
qed (simp add: decode_strings_def json_strings_def)

lemma decode_int_json:
  "- (2 ^ 63) \<le> i \<Longrightarrow> i \<le> 2 ^ 63 - 1 \<Longrightarrow> decode_int (json_int i) old = Some i"
  by (simp add: decode_int_def json_int_def strconv_Atoi_Itoa)

lemma field_of_names [simp]:
  "field_of ''ip'' = Some FIP" "field_of ''port'' = Some FPort"
  "field_of ''protocol'' = Some FProtocol" "field_of ''status'' = Some FStatus"
  "field_of ''banner'' = Some FBanner" "field_of ''os_hint'' = Some FOSHint"
  "field_of ''tls_subject'' = Some FCertSubject" "field_of ''tls_issuer'' = Some FCertIssuer"
  "field_of ''tls_sans'' = Some FSANs"
  by (simp_all add: field_of_def find_field_def record_fields_def)

lemma decode_record_json:
  assumes "- (2 ^ 63) \<le> rec_Port r" "rec_Port r \<le> 2 ^ 63 - 1"
  shows "decode_record (record_json r) = Some r"
  using assms
  by (cases r; cases "rec_SANs r")
     (simp_all add: decode_record_def record_json_def decode_field_def decode_string_def
      decode_int_json decode_strings_json with_slice_def)

lemma decode_marshal_sanitized:
  assumes "- (2 ^ 63) \<le> rec_Port r" "rec_Port r \<le> 2 ^ 63 - 1"
  shows "decodeServiceRecord (marshal_record r) = Inr (record_sanitize r)"
proof -
  have "json_read (marshal_record r) = Some (record_json (record_sanitize r), [])"
    using json_read_text [of "record_json r" "[]"]
    by (simp add: marshal_record_def json_sanitize_record)
  moreover have "decode_record (record_json (record_sanitize r)) = Some (record_sanitize r)"
    using assms by (intro decode_record_json) (simp_all add: record_sanitize_def)
  ultimately show ?thesis
    by (simp add: decodeServiceRecord_def skip_ws_def)
qed

text \<open>C21: what is written is read back. The JSON text of a record decodes to the same record, up
  to the replacement of invalid UTF-8 by U+FFFD, whatever the record holds in its string fields
  and whether its list of names is nil or not; records of valid UTF-8 come back unchanged.\<close>
theorem decode_marshal_record:
  assumes "- (2 ^ 63) \<le> rec_Port r" "rec_Port r \<le> 2 ^ 63 - 1"
  shows "decodeServiceRecord (marshal_record r) = Inr (record_sanitize r)
    \<and> (record_utf8 r \<longrightarrow> decodeServiceRecord (marshal_record r) = Inr r)"
  using decode_marshal_sanitized [OF assms] by (simp add: record_sanitize_utf8)

lemma decode_marshal_record_witness:
  "decodeServiceRecord (marshal_record (zero_service_record\<lparr>rec_Port := 443, rec_Banner := ''SSH-2.0''\<rparr>))
     = Inr (zero_service_record\<lparr>rec_Port := 443, rec_Banner := ''SSH-2.0''\<rparr>)"
  using decode_marshal_record [of "zero_service_record\<lparr>rec_Port := 443, rec_Banner := ''SSH-2.0''\<rparr>"]
  by (simp add: zero_service_record_def record_utf8_def del: decode_elems.simps)
    (simp add: record_sanitize_def)

section \<open>Loading a bucket\<close>

text \<open>The records a bucket holds, and whether every entry is one.\<close>

definition entry_record :: "string \<Rightarrow> bool \<Rightarrow> string \<Rightarrow> bentry option \<Rightarrow> service_record option" where
  "entry_record scopeID current k e =
     (case load_entry scopeID current k (bval e) of Inl _ \<Rightarrow> None | Inr r \<Rightarrow> Some r)"

definition records_at :: "string \<Rightarrow> bool \<Rightarrow> store \<Rightarrow> path \<Rightarrow> service_map" where
  "records_at scopeID current s p = (\<lambda>k. entry_record scopeID current k (s (p @ [k])))"

definition records_valid :: "string \<Rightarrow> bool \<Rightarrow> store \<Rightarrow> path \<Rightarrow> bool" where
  "records_valid scopeID current s p \<longleftrightarrow>
     (\<forall>k\<in>children s p. records_at scopeID current s p k \<noteq> None)"

lemma load_entry_error:
  "load_entry scopeID current k v = Inl e \<Longrightarrow> errors_Is e ErrInvalidPersistentServiceRecord"
  by (auto simp: load_entry_def split: option.splits if_splits sum.splits)

lemma load_entry_None [simp]: "isl (load_entry scopeID current k None)"
  by (simp add: load_entry_def)

lemma entry_record_None [simp]: "entry_record scopeID current k None = None"
  by (simp add: entry_record_def load_entry_def)

lemma load_entries_Inr:
  "(\<forall>e\<in>set es. load_entry sc cur (fst e) (snd e) = Inr (f (fst e))) \<Longrightarrow>
     load_entries sc cur es m = Inr (\<lambda>k. if k \<in> fst ` set es then Some (f k) else m k)"
  by (induction es arbitrary: m) (auto simp: fun_eq_iff)

lemma load_entries_Inl:
  "\<exists>e\<in>set es. isl (load_entry sc cur (fst e) (snd e)) \<Longrightarrow>
     \<exists>err. load_entries sc cur es m = Inl err \<and> errors_Is err ErrInvalidPersistentServiceRecord"
proof (induction es arbitrary: m)
  case (Cons e es)
  obtain k v where e: "e = (k, v)" by force
  show ?case
  proof (cases "load_entry sc cur k v")
    case (Inl err)
    then show ?thesis using e load_entry_error by simp
  next
    case (Inr r)
    with Cons e show ?thesis by simp
  qed
qed simp

lemma set_spec_entries:
  "store_wf (snd t) \<Longrightarrow>
     set (spec_entries p t) = (\<lambda>k. (k, bval (snd t (p @ [k])))) ` children (snd t) p"
  by (simp add: spec_entries_def)

lemma load_spec:
  assumes "store_wf (snd t)"
  shows "case loadServiceRecords (spec_bolt l) p sc cur t of
      Inr m \<Rightarrow> records_valid sc cur (snd t) p \<and> m = records_at sc cur (snd t) p
    | Inl e \<Rightarrow> \<not> records_valid sc cur (snd t) p \<and> errors_Is e ErrInvalidPersistentServiceRecord"
proof (cases "records_valid sc cur (snd t) p")
  case True
  let ?f = "\<lambda>k. the (records_at sc cur (snd t) p k)"
  have "load_entry sc cur k (bval (snd t (p @ [k]))) = Inr (?f k)" if "k \<in> children (snd t) p" for k
    using True that
    by (force simp: records_valid_def records_at_def entry_record_def split: sum.splits)
  then have "loadServiceRecords (spec_bolt l) p sc cur t
      = Inr (\<lambda>k. if k \<in> children (snd t) p then Some (?f k) else None)"
    unfolding loadServiceRecords_def
    by (subst load_entries_Inr [where f = ?f]) (auto simp: set_spec_entries [OF assms] image_image)
  moreover have "(\<lambda>k. if k \<in> children (snd t) p then Some (?f k) else None)
      = records_at sc cur (snd t) p"
    using True by (auto simp: fun_eq_iff records_valid_def children_def records_at_def)
  ultimately show ?thesis using True by simp
next
  case False
  then obtain k where k: "k \<in> children (snd t) p" "records_at sc cur (snd t) p k = None"
    by (auto simp: records_valid_def)
  then have "isl (load_entry sc cur k (bval (snd t (p @ [k]))))"
    by (auto simp: records_at_def entry_record_def split: sum.splits)
  with k(1) have "\<exists>e\<in>set (spec_entries p t). isl (load_entry sc cur (fst e) (snd e))"
    by (auto simp: set_spec_entries [OF assms])
  then obtain err where "load_entries sc cur (spec_entries p t) Map.empty = Inl err"
    "errors_Is err ErrInvalidPersistentServiceRecord"
    using load_entries_Inl by blast
  with False show ?thesis by (simp add: loadServiceRecords_def)
qed

lemma dom_records_at: "dom (records_at sc cur s p) \<subseteq> children s p"
proof
  fix k
  assume "k \<in> dom (records_at sc cur s p)"
  then have "entry_record sc cur k (s (p @ [k])) \<noteq> None" by (auto simp: records_at_def)
  then show "k \<in> children s p" by (cases "s (p @ [k])") (auto simp: children_def)
qed

lemma finite_records_at [simp]: "store_wf s \<Longrightarrow> finite (dom (records_at sc cur s p))"
  using dom_records_at finite_children finite_subset by metis

lemma dom_records_valid: "records_valid sc cur s p \<Longrightarrow> dom (records_at sc cur s p) = children s p"
  using dom_records_at by (fastforce simp: records_valid_def)

lemma records_at_cong:
  "(\<And>k. s (p @ [k]) = s' (p @ [k])) \<Longrightarrow> records_at sc cur s p = records_at sc cur s' p"
  by (simp add: records_at_def)

lemma records_valid_cong:
  "(\<And>k. s (p @ [k]) = s' (p @ [k])) \<Longrightarrow> records_valid sc cur s p = records_valid sc cur s' p"
  by (simp add: records_valid_def records_at_def children_def)

text \<open>What loading accepts.\<close>

lemma entry_record_Some:
  "entry_record sc cur k e = Some r \<longleftrightarrow>
     (\<exists>v. e = Some (BVal v) \<and> decodeServiceRecord v = Inr r) \<and> validServiceKeyV1 k
     \<and> validatePersistentServiceRecord sc k r cur = None"
  by (auto simp: entry_record_def load_entry_def bval_def
      split: option.splits bentry.splits if_splits sum.splits)

lemma validate_record_None:
  "validatePersistentServiceRecord sc k r cur = None \<longleftrightarrow>
     rec_Status r \<in> {ServiceStatusOpen, ServiceStatusClosed}
     \<and> (cur \<longrightarrow> rec_Status r = ServiceStatusOpen)
     \<and> normalizeServiceIP (rec_IP r) = Inr (rec_IP r)
     \<and> ServiceIdentity_Key \<lparr>id_ScopeID = sc, id_IP = rec_IP r, id_Port = rec_Port r,
          id_Protocol = rec_Protocol r\<rparr> = Inr k
     \<and> (\<exists>sans. rec_SANs r = Some sans \<and> canonicalObservationStrings sans = sans)"
  by (auto simp: validatePersistentServiceRecord_def split: sum.splits option.splits)

lemma validServiceKey_Key: "ServiceIdentity_Key i = Inr k \<Longrightarrow> validServiceKeyV1 k"
  using ServiceIdentity_Key_shape [of i k]
  by (auto simp: validServiceKeyV1_def sha256HexLength_def canonical_hex_def split: option.splits)

text \<open>A valid record that is valid UTF-8 is accepted under its own key.\<close>

definition record_ok :: "string \<Rightarrow> bool \<Rightarrow> string \<Rightarrow> service_record \<Rightarrow> bool" where
  "record_ok sc cur k r \<longleftrightarrow> validatePersistentServiceRecord sc k r cur = None \<and> record_utf8 r"

lemma record_ok_port: "validatePersistentServiceRecord sc k r cur = None \<Longrightarrow>
    - (2 ^ 63) \<le> rec_Port r \<and> rec_Port r \<le> 2 ^ 63 - 1"
  by (auto simp: validate_record_None ServiceIdentity_Key_Inr)

lemma decode_marshal_valid:
  assumes "validatePersistentServiceRecord sc k r cur = None" "record_utf8 r"
  shows "decodeServiceRecord (marshal_record r) = Inr r"
  using decode_marshal_sanitized [of r] record_ok_port [OF assms(1)] record_sanitize_utf8 [OF assms(2)] by simp

lemma entry_record_marshal:
  assumes "record_ok sc cur k r"
  shows "entry_record sc cur k (Some (BVal (marshal_record r))) = Some r"
  using assms decode_marshal_valid validServiceKey_Key
  by (auto simp: entry_record_Some record_ok_def validate_record_None)

section \<open>The load operations\<close>

text \<open>What a load of the bucket at \<open>p\<close> answers, error cases included.\<close>

definition load_outcome :: "string \<Rightarrow> bool \<Rightarrow> store \<Rightarrow> path \<Rightarrow> load_result \<Rightarrow> bool" where
  "load_outcome sc cur s p res \<longleftrightarrow>
     (if \<not> schema_ok s then \<exists>e. res = (None, False, Some e) \<and> schema_error e
      else if s p \<noteq> Some BBucket then res = (Some Map.empty, False, None)
      else if records_valid sc cur s p then res = (Some (records_at sc cur s p), True, None)
      else \<exists>e. res = (None, True, Some e) \<and> errors_Is e ErrInvalidPersistentServiceRecord)"

lemma bucket_parents:
  assumes "store_wf s" "s (baseline_path sc) = Some BBucket \<or> s (scans_path sc) = Some BBucket"
  shows "s [stateScopeBucket] = Some BBucket" "s (scope_path sc) = Some BBucket"
proof -
  have up: "is_bucket s p" if "s (p @ [k]) = Some BBucket" for p k
    using store_wf_parent [OF assms(1), of p k] that by simp
  show sc: "s (scope_path sc) = Some BBucket"
    using assms(2) up [of "scope_path sc"] by (auto simp: path_defs)
  show "s [stateScopeBucket] = Some BBucket"
    using sc up [of "[stateScopeBucket]" sc] by (simp add: path_defs)
qed

lemma scan_parent:
  assumes "store_wf s" "s (scan_path sc sn) = Some BBucket"
  shows "s (scans_path sc) = Some BBucket"
  using store_wf_parent [OF assms(1), of "scans_path sc" sn] assms(2) by (simp add: path_defs)

lemma load_bucket_spec:
  assumes "store_wf (snd t)" "schema_ok (snd t)" "snd t p = Some BBucket"
  shows "load_outcome sc cur (snd t) p (finish_load (Inr (load_bucket (spec_bolt l) p sc cur t)))"
  using load_spec [OF assms(1), where l = l and p = p and sc = sc and cur = cur] assms
  by (cases "loadServiceRecords (spec_bolt l) p sc cur t")
    (auto simp: load_outcome_def load_bucket_def finish_load_def)

context bbolt
begin

lemma load_bucket_view: "load_bucket B p sc cur tx = load_bucket spec p sc cur (txv tx)"
  by (simp add: load_bucket_def loadServiceRecords_def entries_view)

lemma LoadCommittedBaseline_outcome:
  assumes "store_wf (dbv db)" "sc \<noteq> []" "bolt_begin B False db = Inr tx"
  shows "load_outcome sc False (dbv db) (baseline_path sc) (LoadCommittedBaseline B sc db)"
proof -
  have tx: "txv tx = (False, dbv db)" using begin_view [OF assms(3)] .
  show ?thesis
  proof (cases "schema_ok (dbv db)")
    case False
    then obtain e where "validateStateSchema spec (False, dbv db) = Some e"
      using validate_schema_ok [of "bolt_long_name B" "(False, dbv db)"] by auto
    with False validate_schema_error [OF this] show ?thesis
      using assms tx by (simp add: LoadCommittedBaseline_def db_View_def load_outcome_def
        validate_view finish_load_def)
  next
    case True
    then have v: "validateStateSchema spec (False, dbv db) = None"
      by (simp add: validate_schema_ok)
    show ?thesis
    proof (cases "dbv db (baseline_path sc) = Some BBucket")
      case bp: True
      then show ?thesis
        using load_bucket_spec [of "(False, dbv db)" "baseline_path sc" sc False "bolt_long_name B"]
          assms tx True v bucket_parents [OF assms(1), of sc]
        by (simp add: LoadCommittedBaseline_def db_View_def validate_view bucket_view spec_bucket_def
            load_bucket_view path_defs)
    next
      case bp: False
      then show ?thesis
        using assms tx True v
        by (simp add: LoadCommittedBaseline_def db_View_def validate_view bucket_view spec_bucket_def
            load_bucket_view path_defs finish_load_def load_outcome_def)
    qed
  qed
qed

lemma LoadCurrentScan_outcome:
  assumes "store_wf (dbv db)" "sc \<noteq> []" "sn \<noteq> []" "bolt_begin B False db = Inr tx"
  shows "load_outcome sc True (dbv db) (scan_path sc sn) (LoadCurrentScan B sc sn db)"
proof -
  have tx: "txv tx = (False, dbv db)" using begin_view [OF assms(4)] .
  show ?thesis
  proof (cases "schema_ok (dbv db)")
    case False
    then obtain e where "validateStateSchema spec (False, dbv db) = Some e"
      using validate_schema_ok [of "bolt_long_name B" "(False, dbv db)"] by auto
    with False validate_schema_error [OF this] show ?thesis
      using assms tx by (simp add: LoadCurrentScan_def db_View_def load_outcome_def
        validate_view finish_load_def)
  next
    case True
    then have v: "validateStateSchema spec (False, dbv db) = None"
      by (simp add: validate_schema_ok)
    show ?thesis
    proof (cases "dbv db (scan_path sc sn) = Some BBucket")
      case bp: True
      then show ?thesis
        using load_bucket_spec [of "(False, dbv db)" "scan_path sc sn" sc True "bolt_long_name B"]
          assms tx True v bucket_parents [OF assms(1), of sc] scan_parent [OF assms(1) bp]
        by (simp add: LoadCurrentScan_def db_View_def validate_view bucket_view spec_bucket_def
            load_bucket_view path_defs)
    next
      case bp: False
      then show ?thesis
        using assms tx True v
        by (simp add: LoadCurrentScan_def db_View_def validate_view bucket_view spec_bucket_def
            load_bucket_view path_defs finish_load_def load_outcome_def)
    qed
  qed
qed

end

text \<open>C20: loading. \<^verbatim>\<open>LoadCommittedBaseline\<close> and \<^verbatim>\<open>LoadCurrentScan\<close> return exactly the records of
  the bucket when every entry in it is a valid record under its own key, an empty map and
  "does not exist" when there is no bucket, and an error of the right kind, never a partial map,
  when the schema or any entry is not valid.\<close>
theorem load_records_outcome:
  assumes "bbolt B dbv txv" "store_wf (dbv db)" "scopeID \<noteq> []" "scanID \<noteq> []"
    and "bolt_begin B False db = Inr tx"
  shows "load_outcome scopeID False (dbv db) (baseline_path scopeID)
           (LoadCommittedBaseline B scopeID db)
    \<and> load_outcome scopeID True (dbv db) (scan_path scopeID scanID)
           (LoadCurrentScan B scopeID scanID db)"
  using assms bbolt.LoadCommittedBaseline_outcome bbolt.LoadCurrentScan_outcome by metis

lemma load_records_outcome_witness:
  "LoadCommittedBaseline (spec_bolt (External ''name too long'')) ''s'' (fresh_store sample_time)
     = (Some Map.empty, False, None)"
  using load_records_outcome [OF spec_store.bbolt_axioms, of "fresh_store sample_time" "''s''" "''a''"
      "External ''name too long''"]
  by (simp add: load_outcome_def schema_ok_fresh path_defs)

section \<open>Saving an observation\<close>

definition saved_store :: "string \<Rightarrow> string \<Rightarrow> string \<Rightarrow> string \<Rightarrow> store \<Rightarrow> store" where
  "saved_store sc sn key payload s =
     (with_scan sc sn s)(scan_path sc sn @ [key] \<mapsto> BVal payload)"

lemma with_scan_at_scan: "with_scan sc sn s (scan_path sc sn @ [k]) = s (scan_path sc sn @ [k])"
  by (simp add: with_scan_def with_scans_def path_defs)

lemma put_scan_step:
  assumes "s (scan_path sc sn) = Some BBucket"
  shows "execT (spec_put (scan_path sc sn) k v) (True, s) =
     (if k = [] then Inl (Sentinel BoltErrKeyRequired)
      else if maxKeySize < length k then Inl (Sentinel BoltErrKeyTooLarge)
      else if maxValueSize < length v then Inl (Sentinel BoltErrValueTooLarge)
      else if s (scan_path sc sn @ [k]) = Some BBucket then Inl (Sentinel BoltErrIncompatibleValue)
      else Inr ((), (True, s(scan_path sc sn @ [k] \<mapsto> BVal v))))"
  using assms by (simp add: execT_def spec_put_def is_bucket_def)

lemma with_scan_bucket [simp]: "with_scan sc sn s (scan_path sc sn) = Some BBucket"
  by (simp add: with_scan_def)

lemma Save_unfold:
  "SaveCurrentService_tx B sc sn k v =
     bindT (EnsureCurrentScan_tx B sc sn) (\<lambda>_. execT (bolt_put B (scan_path sc sn) k v))"
  by (rule ext)
    (simp add: SaveCurrentService_tx_def EnsureCurrentScan_tx_def bindT_def split: sum.splits)

lemma Save_spec:
  assumes "schema_ok s" "scan_openable sc sn s" "k \<noteq> []" "length k \<le> maxKeySize"
    "length v \<le> maxValueSize" "s (scan_path sc sn @ [k]) \<noteq> Some BBucket"
  shows "SaveCurrentService_tx (spec_bolt l) sc sn k v (True, s)
     = Inr ((), (True, saved_store sc sn k v s))"
  using assms
  by (simp add: Save_unfold bindT_def Ensure_spec put_scan_step saved_store_def with_scan_at_scan)

lemma Save_spec_Inr:
  assumes "SaveCurrentService_tx (spec_bolt l) sc sn k v (True, s) = Inr (u, t)"
    and "sc \<noteq> []" "sn \<noteq> []"
  shows "schema_ok s \<and> snd t = saved_store sc sn k v s"
proof -
  obtain t' where t': "EnsureCurrentScan_tx (spec_bolt l) sc sn (True, s) = Inr ((), t')"
    "execT (spec_put (scan_path sc sn) k v) t' = Inr (u, t)"
    using assms(1) by (auto simp: Save_unfold bindT_eq_Inr)
  have s: "schema_ok s" "snd t' = with_scan sc sn s"
    using Ensure_spec_Inr [OF t'(1) assms(2,3)] by auto
  moreover have "fst t'" using t'(2) by (auto simp: execT_def spec_put_def split: if_splits)
  ultimately have "t' = (True, with_scan sc sn s)" by (cases t') auto
  then show ?thesis
    using t'(2) s by (auto simp: put_scan_step saved_store_def split: if_splits)
qed

context bbolt
begin

lemma sim_Save:
  "simT txv (SaveCurrentService_tx B sc sn k v) (SaveCurrentService_tx spec sc sn k v)"
  unfolding SaveCurrentService_tx_def by (intro simI sim_ops sim_validate sim_open_scans)

end

lemma wfT_Save: "wfT (SaveCurrentService_tx (spec_bolt l) sc sn k v)"
  unfolding SaveCurrentService_tx_def by (intro wfTI)

lemma recordFromObservation_Inr:
  assumes "serviceRecordFromObservation i obs = Inr (r, k)"
  shows "ServiceIdentity_Key i = Inr k"
    "validatePersistentServiceRecord (id_ScopeID i) k r cur = None"
    "rec_SANs r = Some (canonicalObservationStrings (obs_SANs obs))"
    "rec_Status r = ServiceStatusOpen"
proof -
  obtain ip where ip: "ServiceIdentity_Key i = Inr k" "normalizeServiceIP (id_IP i) = Inr ip"
    "rec_IP r = ip" "rec_Port r = id_Port i" "rec_Protocol r = id_Protocol i"
    "rec_Status r = ServiceStatusOpen"
    "rec_SANs r = Some (canonicalObservationStrings (obs_SANs obs))"
    using assms by (auto simp: serviceRecordFromObservation_def bindE_eq_Inr)
  have i: "\<lparr>id_ScopeID = id_ScopeID i, id_IP = ip, id_Port = id_Port i, id_Protocol = id_Protocol i\<rparr>
      = i\<lparr>id_IP := ip\<rparr>" by simp
  have "ServiceIdentity_Key \<lparr>id_ScopeID = id_ScopeID i, id_IP = rec_IP r,
      id_Port = rec_Port r, id_Protocol = rec_Protocol r\<rparr> = Inr k"
    using ServiceIdentity_Key_normalized [OF ip(2)] by (simp only: ip(1,3,4,5) i)
  then show "validatePersistentServiceRecord (id_ScopeID i) k r cur = None"
    using ip normalizeServiceIP_idem [OF ip(2)]
    by (simp add: validate_record_None)
qed (use assms in \<open>auto simp: serviceRecordFromObservation_def bindE_eq_Inr\<close>)

lemma children_saved:
  "children (saved_store sc sn k v s) (scan_path sc sn) = insert k (children s (scan_path sc sn))"
  by (auto simp: children_def saved_store_def with_scan_at_scan)

text \<open>What a load makes of a saved record: JSON replaces invalid UTF-8 by U+FFFD, and the record that is read
  back is checked again.\<close>

definition stored_record :: "string \<Rightarrow> string \<Rightarrow> service_record \<Rightarrow> service_record option" where
  "stored_record sc k r =
     (if validatePersistentServiceRecord sc k (record_sanitize r) True = None
      then Some (record_sanitize r) else None)"

lemma entry_record_stored:
  assumes "validatePersistentServiceRecord sc k r True = None"
  shows "entry_record sc True k (Some (BVal (marshal_record r))) = stored_record sc k r"
proof -
  have d: "decodeServiceRecord (marshal_record r) = Inr (record_sanitize r)"
    using record_ok_port [OF assms] by (intro decode_marshal_sanitized) auto
  have k: "validServiceKeyV1 k" using assms validServiceKey_Key by (auto simp: validate_record_None)
  have "entry_record sc True k (Some (BVal (marshal_record r))) = Some q
      \<longleftrightarrow> stored_record sc k r = Some q" for q
    using d k by (auto simp: entry_record_Some stored_record_def)
  then show ?thesis by (metis not_Some_eq)
qed

lemma stored_record_utf8:
  "validatePersistentServiceRecord sc k r True = None \<Longrightarrow> record_utf8 r \<Longrightarrow> stored_record sc k r = Some r"
  by (simp add: stored_record_def record_sanitize_utf8)

lemma records_at_saved:
  assumes "validatePersistentServiceRecord sc k r True = None"
  shows "records_at sc True (saved_store sc sn k (marshal_record r) s) (scan_path sc sn)
     = (records_at sc True s (scan_path sc sn))(k := stored_record sc k r)"
  using entry_record_stored [OF assms]
  by (auto simp: records_at_def saved_store_def with_scan_at_scan fun_eq_iff)

text \<open>The names of a certificate and the address are valid UTF-8; a banner may hold any bytes.\<close>

definition plain_observation :: "service_identity \<Rightarrow> service_observation \<Rightarrow> bool" where
  "plain_observation identity observation \<longleftrightarrow>
     list_all utf8_ok (obs_SANs observation)
     \<and> (case normalizeServiceIP (id_IP identity) of Inl e \<Rightarrow> True | Inr ip \<Rightarrow> utf8_ok ip)"

lemma stored_record_plain:
  assumes "serviceRecordFromObservation i obs = Inr (r, k)" "plain_observation i obs"
  shows "stored_record (id_ScopeID i) k r = Some (record_sanitize r)"
proof -
  note v = recordFromObservation_Inr [OF assms(1)]
  have val: "validatePersistentServiceRecord (id_ScopeID i) k r True = None" by (rule v(2))
  obtain ip where ip: "normalizeServiceIP (id_IP i) = Inr ip" "rec_IP r = ip" "rec_Protocol r = id_Protocol i"
    using assms(1) by (auto simp: serviceRecordFromObservation_def bindE_eq_Inr)
  have "utf8_sanitize (rec_IP r) = rec_IP r"
    using assms(2) ip by (simp add: plain_observation_def utf8_ok_def)
  moreover have "rec_Protocol r \<in> {''tcp'', ''udp''}"
    using v(1) ip(3) by (auto simp: ServiceIdentity_Key_Inr)
  then have "utf8_sanitize (rec_Protocol r) = rec_Protocol r" by auto
  moreover have "utf8_sanitize (rec_Status r) = rec_Status r" using v(4) by (simp add: status_defs)
  moreover have "map_option (map utf8_sanitize) (rec_SANs r) = rec_SANs r"
    using v(3) assms(2)
    by (auto simp: plain_observation_def list_all_iff canonicalObservationStrings_set utf8_ok_def intro: map_idI)
  ultimately have "validatePersistentServiceRecord (id_ScopeID i) k (record_sanitize r) True = None"
    using val by (simp add: validate_record_None record_sanitize_def)
  then show ?thesis by (simp add: stored_record_def)
qed

text \<open>Every bucket of records other than the one written to, and every baseline, is untouched.\<close>

lemma saved_store_frame:
  "saved_store sc sn k v s (baseline_path sc' @ q) = s (baseline_path sc' @ q)"
  "(sc', sn') \<noteq> (sc, sn) \<Longrightarrow>
     saved_store sc sn k v s (scan_path sc' sn' @ [j]) = s (scan_path sc' sn' @ [j])"
  by (auto simp: saved_store_def path_defs with_scan_def with_scans_def)

text \<open>When a save can succeed.\<close>

definition saveable ::
  "string \<Rightarrow> string \<Rightarrow> service_identity \<Rightarrow> service_observation \<Rightarrow> store \<Rightarrow> bool" where
  "saveable sc sn i obs s \<longleftrightarrow>
     id_ScopeID i = sc \<and> identity_ok i \<and> schema_ok s \<and> scan_openable sc sn s
     \<and> (\<forall>r k. serviceRecordFromObservation i obs = Inr (r, k) \<longrightarrow>
          length (marshal_record r) \<le> maxValueSize \<and> s (scan_path sc sn @ [k]) \<noteq> Some BBucket)"

lemma recordFromObservation_ok:
  "identity_ok i \<Longrightarrow> \<exists>r k. serviceRecordFromObservation i obs = Inr (r, k)"
  unfolding ServiceIdentity_Key_ok [symmetric]
  by (auto simp: serviceRecordFromObservation_def ServiceIdentity_Key_Inr bindE_eq_Inr)

context bbolt
begin

lemma Save_result:
  assumes "SaveCurrentService B sc sn i obs db = (r, db')"
  shows "case r of
      Inr u \<Rightarrow> \<exists>rec k. serviceRecordFromObservation i obs = Inr (rec, k)
        \<and> sc \<noteq> [] \<and> sn \<noteq> [] \<and> id_ScopeID i = sc \<and> schema_ok (dbv db)
        \<and> dbv db' = saved_store sc sn k (marshal_record rec) (dbv db)
    | Inl e \<Rightarrow> dbv db' = dbv db
        \<and> (saveable sc sn i obs (dbv db) \<longrightarrow>
            (\<exists>rec k. serviceRecordFromObservation i obs = Inr (rec, k)
              \<and> \<not> storage_ok B (SaveCurrentService_tx B sc sn k (marshal_record rec)) db))"
proof (cases r)
  case (Inl e)
  have "dbv db' = dbv db"
    using Inl assms Update_Inl
    by (auto simp: SaveCurrentService_def split: if_splits sum.splits prod.splits)
  moreover have "\<exists>rec k. serviceRecordFromObservation i obs = Inr (rec, k)
      \<and> \<not> storage_ok B (SaveCurrentService_tx B sc sn k (marshal_record rec)) db"
    if s: "saveable sc sn i obs (dbv db)"
  proof -
    obtain rec k where rk: "serviceRecordFromObservation i obs = Inr (rec, k)"
      using s recordFromObservation_ok unfolding saveable_def by blast
    have k: "k \<noteq> []" "length k = 64"
      using ServiceIdentity_Key_shape recordFromObservation_Inr(1) [OF rk] by auto
    have "sc \<noteq> []" "sn \<noteq> []" using s by (auto simp: saveable_def scan_openable_def scans_openable_def)
    then have U: "db_Update B (SaveCurrentService_tx B sc sn k (marshal_record rec)) db = (Inl e, db')"
      using assms Inl rk s by (simp add: SaveCurrentService_def saveable_def)
    have "SaveCurrentService_tx spec sc sn k (marshal_record rec) (True, dbv db)
        = Inr ((), (True, saved_store sc sn k (marshal_record rec) (dbv db)))"
      using s rk k by (intro Save_spec) (auto simp: saveable_def maxKeySize_def)
    then show ?thesis using Update_error [OF sim_Save _ U] rk by auto
  qed
  ultimately show ?thesis using Inl by simp
next
  case (Inr u)
  then obtain rec k where rk: "serviceRecordFromObservation i obs = Inr (rec, k)"
    and ne: "sc \<noteq> []" "sn \<noteq> []" "id_ScopeID i = sc"
    and U: "db_Update B (SaveCurrentService_tx B sc sn k (marshal_record rec)) db = (Inr u, db')"
    using assms by (auto simp: SaveCurrentService_def split: if_splits sum.splits prod.splits)
  with Update_Inr [OF sim_Save U] Save_spec_Inr [OF _ ne(1,2)] Inr show ?thesis by fastforce
qed

end

text \<open>C17: saving an observation. A successful \<^verbatim>\<open>SaveCurrentService\<close> adds one entry to the bucket
  of the scan (opening it if need be), under the key of the identity, and touches no baseline and
  no other scan; a failed one changes nothing, and it fails only when the identity has no key or
  another scope, when the schema or the layout does not allow the write, or when the storage
  fails. What loading then finds under the key, the last write winning, is the record with every
  invalid UTF-8 sequence of its strings replaced by U+FFFD, provided that this record is still valid; it is
  when the address and the names of the certificate are valid UTF-8, whatever bytes the banner and the
  other strings hold, and when all strings are valid UTF-8 it is the record as it was saved.\<close>
theorem SaveCurrentService_correct:
  assumes "bbolt B dbv txv" "SaveCurrentService B scopeID scanID identity observation db = (r, db')"
  shows "case r of
      Inr u \<Rightarrow> \<exists>rec k. serviceRecordFromObservation identity observation = Inr (rec, k)
        \<and> dbv db' = saved_store scopeID scanID k (marshal_record rec) (dbv db)
        \<and> records_at scopeID True (dbv db') (scan_path scopeID scanID)
              = (records_at scopeID True (dbv db) (scan_path scopeID scanID))(k := stored_record scopeID k rec)
        \<and> (plain_observation identity observation \<longrightarrow> stored_record scopeID k rec = Some (record_sanitize rec))
        \<and> (record_utf8 rec \<longrightarrow> stored_record scopeID k rec = Some rec)
        \<and> (\<forall>sc q. dbv db' (baseline_path sc @ q) = dbv db (baseline_path sc @ q))
        \<and> (\<forall>sc sn j. (sc, sn) \<noteq> (scopeID, scanID) \<longrightarrow>
            dbv db' (scan_path sc sn @ [j]) = dbv db (scan_path sc sn @ [j]))
    | Inl e \<Rightarrow> dbv db' = dbv db
        \<and> (saveable scopeID scanID identity observation (dbv db) \<longrightarrow>
            (\<exists>rec k. serviceRecordFromObservation identity observation = Inr (rec, k)
              \<and> \<not> storage_ok B
                  (SaveCurrentService_tx B scopeID scanID k (marshal_record rec)) db))"
proof (cases r)
  case (Inl e)
  then show ?thesis using bbolt.Save_result [OF assms] by simp
next
  case (Inr u)
  then obtain rec k where rk: "serviceRecordFromObservation identity observation = Inr (rec, k)"
    "id_ScopeID identity = scopeID"
    "dbv db' = saved_store scopeID scanID k (marshal_record rec) (dbv db)"
    using bbolt.Save_result [OF assms] by auto
  moreover have "validatePersistentServiceRecord scopeID k rec True = None"
    using rk(2) recordFromObservation_Inr(2) [OF rk(1), of True] by simp
  ultimately show ?thesis
    using Inr records_at_saved stored_record_plain stored_record_utf8 saved_store_frame by auto
qed

section \<open>A sample service\<close>

text \<open>Concrete values for the witnesses.\<close>

definition sample_identity :: service_identity where
  "sample_identity =
     \<lparr>id_ScopeID = ''s'', id_IP = ''10.0.0.1'', id_Port = 443, id_Protocol = ''tcp''\<rparr>"

definition sample_observation :: service_observation where
  "sample_observation =
     \<lparr>obs_Banner = ''hi'', obs_OSHint = [], obs_CertSubject = [], obs_CertIssuer = [],
      obs_SANs = [''b'', ''a'', ''b'']\<rparr>"

definition sample_key :: string where
  "sample_key =
     sha256_hex (json_text (canonical_identity_json (canonical_identity sample_identity ''10.0.0.1'')))"

definition sample_record :: service_record where
  "sample_record =
     \<lparr>rec_IP = ''10.0.0.1'', rec_Port = 443, rec_Protocol = ''tcp'', rec_Status = ''open'',
      rec_Banner = ''hi'', rec_OSHint = [], rec_CertSubject = [], rec_CertIssuer = [],
      rec_SANs = Some [''a'', ''b'']\<rparr>"

lemma sample_Key: "ServiceIdentity_Key sample_identity = Inr sample_key"
  by (simp add: ServiceIdentity_Key_Inr sample_key_def)
    (simp add: sample_identity_def normalizeServiceIP_sample)

lemma sample_from_observation:
  "serviceRecordFromObservation sample_identity sample_observation = Inr (sample_record, sample_key)"
  by (simp add: serviceRecordFromObservation_def sample_Key)
    (simp add: sample_identity_def normalizeServiceIP_sample sample_record_def status_defs
      sample_observation_def canonicalObservationStrings_def less_list_code less_char_def)

lemma sample_record_utf8 [simp]: "record_utf8 sample_record"
  by (simp add: record_utf8_def sample_record_def)

lemma sample_payload_short: "length (marshal_record sample_record) \<le> 200"
  by code_simp

lemma sample_scan_free [simp]: "scan_openable ''s'' ''a'' (fresh_store now)"
  by (simp add: maxKeySize_def)

lemma sample_identity_ok: "identity_ok sample_identity"
  using sample_Key ServiceIdentity_Key_ok by blast

lemma sample_saveable: "saveable ''s'' ''a'' sample_identity sample_observation (fresh_store sample_time)"
proof -
  have "id_ScopeID sample_identity = ''s''" by (simp add: sample_identity_def)
  then show ?thesis
    using sample_payload_short sample_identity_ok
    by (simp add: saveable_def sample_from_observation schema_ok_fresh maxValueSize_def
        maxKeySize_def path_defs)
qed

lemma SaveCurrentService_correct_witness:
  "snd (SaveCurrentService (spec_bolt (External ''name too long'')) ''s'' ''a'' sample_identity
      sample_observation (fresh_store sample_time))
   = saved_store ''s'' ''a'' sample_key (marshal_record sample_record) (fresh_store sample_time)"
proof -
  let ?B = "spec_bolt (External ''name too long'')" and ?s = "fresh_store sample_time"
  obtain r db' where r: "SaveCurrentService ?B ''s'' ''a'' sample_identity sample_observation ?s
      = (r, db')" by force
  show ?thesis
    using SaveCurrentService_correct [OF spec_store.bbolt_axioms r] sample_saveable r
    by (auto simp: sample_from_observation split: sum.splits)
qed

section \<open>Records that were read are valid UTF-8\<close>

definition slice_utf8 :: "go_slice \<Rightarrow> bool" where
  "slice_utf8 sl \<longleftrightarrow> (\<forall>mem n. sl = Some (mem, n) \<longrightarrow> (\<forall>v\<in>set mem. utf8_ok v))"

lemma decode_string_utf8: "decode_string j old = Some v \<Longrightarrow> json_utf8 j \<Longrightarrow> utf8_ok old \<Longrightarrow> utf8_ok v"
  by (auto simp: decode_string_def split: json.splits)

lemma decode_elems_utf8:
  "decode_elems i js mem = Some mem' \<Longrightarrow> \<forall>j\<in>set js. json_utf8 j \<Longrightarrow> \<forall>v\<in>set mem. utf8_ok v
     \<Longrightarrow> i \<le> length mem \<Longrightarrow> \<forall>v\<in>set mem'. utf8_ok v"
proof (induction i js mem rule: decode_elems.induct)
  case (2 i j js mem)
  define m where "m = (if i < length mem then mem else mem @ [[]])"
  have m: "\<forall>v\<in>set m. utf8_ok v" "i < length m" using 2(4,5) by (auto simp: m_def)
  obtain v where v: "decode_string j (m ! i) = Some v"
    and rest: "decode_elems (Suc i) js (m[i := v]) = Some mem'"
    using 2(2) by (auto simp: Let_def m_def [symmetric] split: option.splits)
  have "utf8_ok v" using decode_string_utf8 [OF v] m 2(3) by simp
  then have "\<forall>x\<in>set (m[i := v]). utf8_ok x"
    using m(1) set_update_subset_insert [of m i v] by blast
  then show ?case
    using 2(1) [OF m_def v rest] 2(3) m(2) by simp
qed simp

lemma decode_strings_utf8:
  assumes "decode_strings j old = Some sl" "json_utf8 j" "slice_utf8 old"
  shows "slice_utf8 sl"
proof -
  have "\<forall>v\<in>set mem. utf8_ok v"
    if "decode_elems 0 js (case old of None \<Rightarrow> [] | Some (mem, n) \<Rightarrow> mem) = Some mem"
      "\<forall>j\<in>set js. json_utf8 j" for js mem
    using decode_elems_utf8 [OF that] assms(3)
    by (auto simp: slice_utf8_def split: option.splits)
  then show ?thesis
    using assms
    by (auto simp: decode_strings_def slice_utf8_def simp del: decode_elems.simps
        split: json.splits list.splits)
qed

definition fields_utf8 :: "service_record \<Rightarrow> bool" where
  "fields_utf8 r \<longleftrightarrow> record_utf8 (r\<lparr>rec_SANs := None\<rparr>)"

lemma decode_field_utf8:
  assumes "decode_field f j (r, sl) = Some (r', sl')" "json_utf8 j" "fields_utf8 r" "slice_utf8 sl"
  shows "fields_utf8 r' \<and> slice_utf8 sl'"
  using assms decode_string_utf8 decode_strings_utf8
  by (cases f) (auto simp: decode_field_def fields_utf8_def record_utf8_def)

lemma decode_members_utf8:
  "decode_members ms (r, sl) = Some (r', sl') \<Longrightarrow> \<forall>m\<in>set ms. json_utf8 (snd m) \<Longrightarrow> fields_utf8 r
     \<Longrightarrow> slice_utf8 sl \<Longrightarrow> fields_utf8 r' \<and> slice_utf8 sl'"
proof (induction ms arbitrary: r sl)
  case (Cons m ms)
  obtain k j where m: "m = (k, j)" by force
  obtain f r1 sl1 where f: "field_of k = Some f" "decode_field f j (r, sl) = Some (r1, sl1)"
    "decode_members ms (r1, sl1) = Some (r', sl')"
    using Cons.prems(1) m by (auto split: option.splits simp: bind_eq_Some_conv)
  with decode_field_utf8 [OF f(2)] Cons.prems m have "fields_utf8 r1 \<and> slice_utf8 sl1" by simp
  with Cons.IH [OF f(3)] Cons.prems show ?case by simp
qed simp

lemma decode_record_utf8:
  assumes "decode_record j = Some r" "json_utf8 j"
  shows "record_utf8 r"
proof -
  have zero: "fields_utf8 zero_service_record" "slice_utf8 None"
    by (simp_all add: fields_utf8_def record_utf8_def zero_service_record_def slice_utf8_def)
  show ?thesis
  proof (cases j)
    case (JObj ms)
    then obtain r' sl where "decode_members ms (zero_service_record, None) = Some (r', sl)"
      and r: "r = with_slice (r', sl)"
      using assms(1) by (auto simp: decode_record_def)
    with decode_members_utf8 [OF this(1) _ zero] assms(2) JObj
    have "fields_utf8 r'" "slice_utf8 sl" by auto
    then show ?thesis
      unfolding r by (cases sl) (auto simp: with_slice_def fields_utf8_def record_utf8_def slice_utf8_def
          dest: in_set_takeD)
  qed (use assms(1) zero in \<open>auto simp: decode_record_def fields_utf8_def zero_service_record_def\<close>)
qed

lemma decodeServiceRecord_utf8: "decodeServiceRecord v = Inr r \<Longrightarrow> record_utf8 r"
  by (auto simp: decodeServiceRecord_def dest!: json_read_utf8 intro: decode_record_utf8
      split: option.splits if_splits json.splits list.splits prod.splits)

lemma records_at_ok: "records_at sc cur s p k = Some r \<Longrightarrow> record_ok sc cur k r"
  by (auto simp: records_at_def entry_record_Some record_ok_def decodeServiceRecord_utf8)

end
