(* ===== verification/Completion.thy ===== *)
theory Completion
  imports GoErrors
begin

text \<open>
  \<^verbatim>\<open>internal/scanner/scan_completion.go\<close>, the completion part of \<^verbatim>\<open>dispatcher.go\<close> and
  \<^verbatim>\<open>finalizeScanCompletion\<close> of \<^verbatim>\<open>cmd/tcprecon/main.go\<close>: how the outcomes of the producer, the
  router, the workers and the persistence of a scan become one status.
\<close>

definition ScanStatusCompleted :: string where
  "ScanStatusCompleted = ''completed''"

definition ScanStatusCancelled :: string where
  "ScanStatusCancelled = ''cancelled''"

definition ScanStatusResolutionFailed :: string where
  "ScanStatusResolutionFailed = ''resolution_failed''"

definition ScanStatusParseFailed :: string where
  "ScanStatusParseFailed = ''parse_failed''"

definition ScanStatusWorkerFailed :: string where
  "ScanStatusWorkerFailed = ''worker_failed''"

definition ScanStatusStateFailed :: string where
  "ScanStatusStateFailed = ''state_failed''"

lemmas scan_status_defs = ScanStatusCompleted_def ScanStatusCancelled_def
  ScanStatusResolutionFailed_def ScanStatusParseFailed_def ScanStatusWorkerFailed_def
  ScanStatusStateFailed_def

record scan_completion =
  comp_Status :: string
  comp_Err :: "error option"

definition Successful :: "scan_completion \<Rightarrow> bool" where
  "Successful c \<longleftrightarrow> comp_Status c = ScanStatusCompleted \<and> comp_Err c = None"

definition scanCompletionFromProducerError :: "error option \<Rightarrow> scan_completion" where
  "scanCompletionFromProducerError r =
     (case r of
        None \<Rightarrow> \<lparr>comp_Status = ScanStatusCompleted, comp_Err = None\<rparr>
      | Some err \<Rightarrow>
          if errors_Is err ContextCanceled
          then \<lparr>comp_Status = ScanStatusCancelled, comp_Err = Some err\<rparr>
          else if errors_Is err ErrTargetParse
          then \<lparr>comp_Status = ScanStatusParseFailed, comp_Err = Some err\<rparr>
          else if errors_Is err ErrTargetResolution
          then \<lparr>comp_Status = ScanStatusResolutionFailed, comp_Err = Some err\<rparr>
          else \<lparr>comp_Status = [], comp_Err = Some err\<rparr>)"

text \<open>
  \<^verbatim>\<open>awaitScannerCompletion\<close> receives once from each channel. A receive gives \<^const>\<open>None\<close> when the
  channel was closed empty and the value otherwise; \<open>ctxErr\<close> is \<^verbatim>\<open>ctx.Err()\<close> when it is read,
  after the workers have exited.
\<close>

definition awaitScannerCompletion ::
  "error option \<Rightarrow> error option option \<Rightarrow> error option option \<Rightarrow> error option option
     \<Rightarrow> scan_completion" where
  "awaitScannerCompletion ctxErr producer router worker =
     (case (producer, router) of
        (Some producerResult, Some routerResult) \<Rightarrow>
          (case ctxErr of
             Some err \<Rightarrow> \<lparr>comp_Status = ScanStatusCancelled, comp_Err = Some err\<rparr>
           | None \<Rightarrow>
               if producerResult \<noteq> None then scanCompletionFromProducerError producerResult
               else if routerResult \<noteq> None then \<lparr>comp_Status = [], comp_Err = routerResult\<rparr>
               else
                 (case worker of
                    Some (Some workerResult) \<Rightarrow>
                      \<lparr>comp_Status = ScanStatusWorkerFailed, comp_Err = Some workerResult\<rparr>
                  | _ \<Rightarrow> \<lparr>comp_Status = ScanStatusCompleted, comp_Err = None\<rparr>))
      | _ \<Rightarrow> \<lparr>comp_Status = [], comp_Err = None\<rparr>)"

definition finalizeScanCompletion :: "scan_completion \<Rightarrow> error option \<Rightarrow> scan_completion" where
  "finalizeScanCompletion scannerCompletion stateErr =
     (if stateErr = None then scannerCompletion
      else if Successful scannerCompletion
      then \<lparr>comp_Status = ScanStatusStateFailed, comp_Err = stateErr\<rparr>
      else \<lparr>comp_Status = comp_Status scannerCompletion,
            comp_Err = errors_Join [comp_Err scannerCompletion, stateErr]\<rparr>)"

section \<open>When a scan is successful\<close>

lemma scan_status_distinct [simp]:
  "ScanStatusCancelled \<noteq> ScanStatusCompleted" "ScanStatusParseFailed \<noteq> ScanStatusCompleted"
  "ScanStatusResolutionFailed \<noteq> ScanStatusCompleted" "ScanStatusWorkerFailed \<noteq> ScanStatusCompleted"
  "ScanStatusStateFailed \<noteq> ScanStatusCompleted" "ScanStatusCompleted \<noteq> []"
  "[] \<noteq> ScanStatusCompleted"
  by (simp_all add: scan_status_defs)

lemma Successful_producer [simp]: "Successful (scanCompletionFromProducerError r) \<longleftrightarrow> r = None"
  by (simp add: scanCompletionFromProducerError_def Successful_def split: option.splits)

lemma Successful_finalize [simp]:
  "Successful (finalizeScanCompletion c stateErr) \<longleftrightarrow> Successful c \<and> stateErr = None"
  by (auto simp: finalizeScanCompletion_def Successful_def)

lemma Successful_await:
  "Successful (awaitScannerCompletion ctxErr producer router worker) \<longleftrightarrow>
     ctxErr = None \<and> producer = Some None \<and> router = Some None
     \<and> (worker = None \<or> worker = Some None)"
  by (auto simp: awaitScannerCompletion_def Successful_def scanCompletionFromProducerError_def
      split: option.splits)

text \<open>C22: a scan is reported as completed exactly when the producer and the router both reported
  success, no worker reported an error and the context was not done when the last worker had
  exited; and recording a persistence error on top of it makes any completion unsuccessful while
  it keeps every error that was there. An outcome that is missing counts as failure.\<close>
theorem awaitScannerCompletion_successful:
  "(Successful (awaitScannerCompletion ctxErr producer router worker) \<longleftrightarrow>
      ctxErr = None \<and> producer = Some None \<and> router = Some None
      \<and> (worker = None \<or> worker = Some None))
   \<and> (Successful (finalizeScanCompletion c stateErr) \<longleftrightarrow> Successful c \<and> stateErr = None)
   \<and> (\<forall>e s. stateErr = Some e \<longrightarrow>
        (\<exists>f. comp_Err (finalizeScanCompletion c stateErr) = Some f
           \<and> (errors_Is e s \<or> (\<exists>e0. comp_Err c = Some e0 \<and> errors_Is e0 s) \<longrightarrow> errors_Is f s)))"
proof (intro conjI allI impI)
  show "Successful (awaitScannerCompletion ctxErr producer router worker) \<longleftrightarrow>
      ctxErr = None \<and> producer = Some None \<and> router = Some None
      \<and> (worker = None \<or> worker = Some None)"
    by (rule Successful_await)
next
  fix e s
  assume "stateErr = Some e"
  then show "\<exists>f. comp_Err (finalizeScanCompletion c stateErr) = Some f
      \<and> (errors_Is e s \<or> (\<exists>e0. comp_Err c = Some e0 \<and> errors_Is e0 s) \<longrightarrow> errors_Is f s)"
    by (cases "comp_Err c")
       (auto simp: finalizeScanCompletion_def Successful_def errors_Join_def map_filter_def)
qed simp

lemma awaitScannerCompletion_successful_witness:
  "Successful (awaitScannerCompletion None (Some None) (Some None) None)
   \<and> comp_Err (finalizeScanCompletion \<lparr>comp_Status = ScanStatusCompleted, comp_Err = None\<rparr>
       (Some (Sentinel IoEOF))) \<noteq> None"
  using awaitScannerCompletion_successful [of None "Some None" "Some None" None
      "\<lparr>comp_Status = ScanStatusCompleted, comp_Err = None\<rparr>" "Some (Sentinel IoEOF)"]
  by auto

end
