(* ===== verification/Reconcile.thy ===== *)
theory Reconcile
  imports StateRecords Completion
begin

text \<open>
  \<^verbatim>\<open>internal/scanner/state_reconcile.go\<close>: the comparison of the records of a finished scan with
  the committed baseline. Both are Go maps, so the loops run in an order Go does not specify:
  \<open>rng\<close> gives the order of each \<^verbatim>\<open>range\<close> statement, numbered, on each map.
\<close>

datatype change_kind = ChangeOpened | ChangeChanged | ChangeClosed | ChangeReopened

record service_change =
  sc_Kind :: change_kind
  sc_ServiceKey :: string
  sc_Previous :: "service_record option"
  sc_Current :: "service_record option"

type_synonym range_env = "nat \<Rightarrow> service_map \<Rightarrow> string list"

definition ranges_ok :: "range_env \<Rightarrow> bool" where
  "ranges_ok rng \<longleftrightarrow> (\<forall>n m. finite (dom m) \<longrightarrow> range_order m (rng n m))"

definition go_list :: "'a list option \<Rightarrow> 'a list" where
  "go_list s = (case s of None \<Rightarrow> [] | Some xs \<Rightarrow> xs)"

definition serviceComparisonEqual :: "service_record \<Rightarrow> service_record \<Rightarrow> bool" where
  "serviceComparisonEqual first second =
     (if rec_Banner first \<noteq> rec_Banner second \<or> rec_OSHint first \<noteq> rec_OSHint second
         \<or> rec_CertSubject first \<noteq> rec_CertSubject second
         \<or> rec_CertIssuer first \<noteq> rec_CertIssuer second
         \<or> length (go_list (rec_SANs first)) \<noteq> length (go_list (rec_SANs second))
      then False
      else list_all (\<lambda>i. go_list (rec_SANs first) ! i = go_list (rec_SANs second) ! i)
             [0..<length (go_list (rec_SANs first))])"

text \<open>The two loops of \<^verbatim>\<open>reconcileServiceRecords\<close>.\<close>

fun reconcile_current ::
  "service_map \<Rightarrow> service_map \<Rightarrow> string list \<Rightarrow> service_change list" where
  "reconcile_current baseline current [] = []"
| "reconcile_current baseline current (serviceKey # ks) =
     (let currentRecord = the (current serviceKey) in
      case baseline serviceKey of
        None \<Rightarrow>
          \<lparr>sc_Kind = ChangeOpened, sc_ServiceKey = serviceKey, sc_Previous = None,
           sc_Current = Some currentRecord\<rparr> # reconcile_current baseline current ks
      | Some previousRecord \<Rightarrow>
          if rec_Status previousRecord = ServiceStatusClosed then
            \<lparr>sc_Kind = ChangeReopened, sc_ServiceKey = serviceKey,
             sc_Previous = Some previousRecord, sc_Current = Some currentRecord\<rparr>
            # reconcile_current baseline current ks
          else if \<not> serviceComparisonEqual previousRecord currentRecord then
            \<lparr>sc_Kind = ChangeChanged, sc_ServiceKey = serviceKey,
             sc_Previous = Some previousRecord, sc_Current = Some currentRecord\<rparr>
            # reconcile_current baseline current ks
          else reconcile_current baseline current ks)"

fun reconcile_baseline ::
  "service_map \<Rightarrow> service_map \<Rightarrow> string list \<Rightarrow> service_change list" where
  "reconcile_baseline baseline current [] = []"
| "reconcile_baseline baseline current (serviceKey # ks) =
     (let previousRecord = the (baseline serviceKey) in
      if current serviceKey \<noteq> None \<or> rec_Status previousRecord = ServiceStatusClosed
      then reconcile_baseline baseline current ks
      else
        \<lparr>sc_Kind = ChangeClosed, sc_ServiceKey = serviceKey, sc_Previous = Some previousRecord,
         sc_Current = None\<rparr> # reconcile_baseline baseline current ks)"

text \<open>\<^verbatim>\<open>sort.Slice\<close> is not stable, but the keys of the changes are distinct.\<close>

definition reconcileServiceRecords ::
  "range_env \<Rightarrow> service_map \<Rightarrow> service_map \<Rightarrow> service_change list" where
  "reconcileServiceRecords rng baseline current =
     sort_key sc_ServiceKey
       (reconcile_current baseline current (rng 0 current)
        @ reconcile_baseline baseline current (rng 1 baseline))"

definition loadReconciliationState ::
  "('db, 'tx) bolt \<Rightarrow> string \<Rightarrow> string \<Rightarrow> 'tx \<Rightarrow> error + service_map \<times> service_map" where
  "loadReconciliationState B scopeID scanID tx =
     bindE (okE (validateStateSchema B tx)) (\<lambda>_.
     bindE (guardE (bolt_bucket B [] stateScopeBucket tx) (Sentinel ErrCurrentScanNotFound)) (\<lambda>_.
     bindE (guardE (bolt_bucket B [stateScopeBucket] scopeID tx)
              (Sentinel ErrCurrentScanNotFound)) (\<lambda>_.
     bindE (if bolt_bucket B (scope_path scopeID) stateBaselineBucket tx
            then loadServiceRecords B (baseline_path scopeID) scopeID False tx
            else Inr Map.empty) (\<lambda>baseline.
     bindE (guardE (bolt_bucket B (scope_path scopeID) stateScanBucket tx)
              (Sentinel ErrCurrentScanNotFound)) (\<lambda>_.
     bindE (guardE (bolt_bucket B (scans_path scopeID) scanID tx)
              (Sentinel ErrCurrentScanNotFound)) (\<lambda>_.
     bindE (loadServiceRecords B (scan_path scopeID scanID) scopeID True tx) (\<lambda>current.
     Inr (baseline, current))))))))"

definition ReconcileScope ::
  "('db, 'tx) bolt \<Rightarrow> range_env \<Rightarrow> string \<Rightarrow> string \<Rightarrow> scan_completion \<Rightarrow> 'db
     \<Rightarrow> error + service_change list" where
  "ReconcileScope B rng scopeID scanID completion db =
     (if scopeID = [] then Inl (Sentinel ErrInvalidStateScopeID)
      else if scanID = [] then Inl (Sentinel ErrInvalidStateScanID)
      else if \<not> Successful completion
      then Inl (Wrapf (Sentinel ErrReconciliationRequiresSuccessfulScan) ''status'')
      else
        bindE (bindE (db_View B (loadReconciliationState B scopeID scanID) db) id)
          (\<lambda>(baseline, current). Inr (reconcileServiceRecords rng baseline current)))"

section \<open>Specification of the comparison\<close>

lemma serviceComparisonEqual_iff:
  "serviceComparisonEqual r s \<longleftrightarrow>
     rec_Banner r = rec_Banner s \<and> rec_OSHint r = rec_OSHint s
     \<and> rec_CertSubject r = rec_CertSubject s \<and> rec_CertIssuer r = rec_CertIssuer s
     \<and> go_list (rec_SANs r) = go_list (rec_SANs s)"
  by (auto simp: serviceComparisonEqual_def list_all_iff intro: nth_equalityI)

text \<open>The change of one service, from what was committed and what was observed.\<close>

definition change_of ::
  "string \<Rightarrow> service_record option \<Rightarrow> service_record option \<Rightarrow> service_change option" where
  "change_of k prev cur =
     map_option
       (\<lambda>kind. \<lparr>sc_Kind = kind, sc_ServiceKey = k, sc_Previous = prev, sc_Current = cur\<rparr>)
       (case (prev, cur) of
          (None, None) \<Rightarrow> None
        | (None, Some c) \<Rightarrow> Some ChangeOpened
        | (Some p, None) \<Rightarrow> if rec_Status p = ServiceStatusClosed then None else Some ChangeClosed
        | (Some p, Some c) \<Rightarrow>
            if rec_Status p = ServiceStatusClosed then Some ChangeReopened
            else if serviceComparisonEqual p c then None else Some ChangeChanged)"

definition changes_of :: "service_map \<Rightarrow> service_map \<Rightarrow> service_change set" where
  "changes_of baseline current = {c. \<exists>k. change_of k (baseline k) (current k) = Some c}"

lemma change_of_key: "change_of k p c = Some ch \<Longrightarrow> sc_ServiceKey ch = k"
  by (auto simp: change_of_def)

lemma reconcile_current_eq:
  "set ks \<subseteq> dom current \<Longrightarrow> reconcile_current baseline current ks =
     List.map_filter (\<lambda>k. change_of k (baseline k) (current k)) ks"
  by (induction ks)
     (auto simp: List.map_filter_def change_of_def Let_def split: option.splits)

lemma reconcile_baseline_eq:
  "set ks \<subseteq> dom baseline \<Longrightarrow> reconcile_baseline baseline current ks =
     List.map_filter (\<lambda>k. if current k = None then change_of k (baseline k) None else None) ks"
  by (induction ks)
     (auto simp: List.map_filter_def change_of_def Let_def split: option.splits)

lemma set_map_filter: "set (List.map_filter f xs) = {y. \<exists>x\<in>set xs. f x = Some y}"
  by (force simp: List.map_filter_def)

lemma distinct_map_filter_key:
  assumes "distinct ks" "\<And>k c. f k = Some c \<Longrightarrow> sc_ServiceKey c = k"
  shows "distinct (map sc_ServiceKey (List.map_filter f ks))"
    "sc_ServiceKey ` set (List.map_filter f ks) \<subseteq> set ks"
proof -
  show "sc_ServiceKey ` set (List.map_filter f ks) \<subseteq> set ks" for ks
    using assms(2) by (auto simp: set_map_filter)
  then show "distinct (map sc_ServiceKey (List.map_filter f ks))"
    using assms(1)
  proof (induction ks)
    case (Cons k ks)
    then show ?case using assms(2) Cons.prems(1) [of ks] by (fastforce simp: List.map_filter_def)
  qed (simp add: List.map_filter_def)
qed

lemma reconcile_spec:
  assumes "ranges_ok rng" "finite (dom baseline)" "finite (dom current)"
  shows "set (reconcileServiceRecords rng baseline current) = changes_of baseline current"
    "sorted (map sc_ServiceKey (reconcileServiceRecords rng baseline current))"
    "distinct (map sc_ServiceKey (reconcileServiceRecords rng baseline current))"
proof -
  let ?f = "\<lambda>k. change_of k (baseline k) (current k)"
  let ?g = "\<lambda>k. if current k = None then change_of k (baseline k) None else None"
  have ro: "range_order current (rng 0 current)" "range_order baseline (rng 1 baseline)"
    using assms by (auto simp: ranges_ok_def)
  have eqs: "reconcile_current baseline current (rng 0 current) = List.map_filter ?f (rng 0 current)"
    "reconcile_baseline baseline current (rng 1 baseline) = List.map_filter ?g (rng 1 baseline)"
    using ro by (auto intro!: reconcile_current_eq reconcile_baseline_eq simp: range_order_def)
  have sets: "set (rng 0 current) = dom current" "set (rng 1 baseline) = dom baseline"
    "distinct (rng 0 current)" "distinct (rng 1 baseline)"
    using ro by (auto simp: range_order_def)
  have none: "change_of k None None = None" for k by (simp add: change_of_def)
  have "(\<exists>k\<in>dom current. ?f k = Some c) \<or> (\<exists>k\<in>dom baseline. ?g k = Some c)
      \<longleftrightarrow> (\<exists>k. ?f k = Some c)" (is "?l \<longleftrightarrow> ?r") for c
  proof
    assume ?r
    then obtain k where k: "?f k = Some c" by blast
    show ?l
    proof (cases "k \<in> dom current")
      case False
      then have "?g k = Some c" using k by (simp add: domIff)
      moreover have "k \<in> dom baseline" using k none [of k] False
        by (cases "baseline k") (auto simp: domIff)
      ultimately show ?l by blast
    qed (use k in blast)
  next
    assume ?l
    then consider k where "?f k = Some c" | k where "?g k = Some c" by blast
    then show ?r
    proof cases
      case (2 k)
      then have "?f k = Some c" by (simp split: if_splits)
      then show ?thesis by blast
    qed blast
  qed
  then show "set (reconcileServiceRecords rng baseline current) = changes_of baseline current"
    unfolding reconcileServiceRecords_def eqs changes_of_def
    by (simp only: set_sort set_append set_map_filter sets) blast
  show "sorted (map sc_ServiceKey (reconcileServiceRecords rng baseline current))"
    by (simp add: reconcileServiceRecords_def)
  have keyf: "?f k = Some c \<Longrightarrow> sc_ServiceKey c = k" "?g k = Some c \<Longrightarrow> sc_ServiceKey c = k" for k c
    by (auto dest: change_of_key split: if_splits)
  have df: "distinct (map sc_ServiceKey (List.map_filter ?f (rng 0 current)))"
    "distinct (map sc_ServiceKey (List.map_filter ?g (rng 1 baseline)))"
    using sets keyf by (auto intro!: distinct_map_filter_key(1))
  have "sc_ServiceKey ` set (List.map_filter ?f (rng 0 current)) \<subseteq> dom current"
    "sc_ServiceKey ` set (List.map_filter ?g (rng 1 baseline)) \<subseteq> - dom current"
    by (auto simp: set_map_filter sets split: if_splits dest!: change_of_key)
  then have "distinct (map sc_ServiceKey (List.map_filter ?f (rng 0 current)
      @ List.map_filter ?g (rng 1 baseline)))"
    using df by auto
  then show "distinct (map sc_ServiceKey (reconcileServiceRecords rng baseline current))"
    unfolding reconcileServiceRecords_def eqs distinct_map by (simp only: distinct_sort set_sort)
qed

lemma reconcile_order_free:
  assumes "ranges_ok rng" "ranges_ok rng'" "finite (dom baseline)" "finite (dom current)"
  shows "reconcileServiceRecords rng baseline current = reconcileServiceRecords rng' baseline current"
  using reconcile_spec [OF assms(1,3,4)] reconcile_spec [OF assms(2,3,4)]
  by (intro sorted_distinct_unique_key [where f = sc_ServiceKey]) auto

section \<open>Loading the two sides\<close>

text \<open>The committed records of a scope: those of its baseline bucket, none when there is none.\<close>

definition committed :: "string \<Rightarrow> store \<Rightarrow> service_map" where
  "committed sc s =
     (if s (baseline_path sc) = Some BBucket then records_at sc False s (baseline_path sc)
      else Map.empty)"

definition observed :: "string \<Rightarrow> string \<Rightarrow> store \<Rightarrow> service_map" where
  "observed sc sn s = records_at sc True s (scan_path sc sn)"

definition reconcilable :: "string \<Rightarrow> string \<Rightarrow> store \<Rightarrow> bool" where
  "reconcilable sc sn s \<longleftrightarrow>
     schema_ok s \<and> s (scan_path sc sn) = Some BBucket
     \<and> records_valid sc True s (scan_path sc sn)
     \<and> (s (baseline_path sc) = Some BBucket \<longrightarrow> records_valid sc False s (baseline_path sc))"

lemma finite_committed [simp]: "store_wf s \<Longrightarrow> finite (dom (committed sc s))"
  by (simp add: committed_def)

lemma finite_observed [simp]: "store_wf s \<Longrightarrow> finite (dom (observed sc sn s))"
  by (simp add: observed_def)

text \<open>The errors of loading: a schema error, a missing scan or an invalid record.\<close>

definition reconciliation_error :: "error \<Rightarrow> bool" where
  "reconciliation_error e \<longleftrightarrow> schema_error e \<or> errors_Is e ErrCurrentScanNotFound
     \<or> errors_Is e ErrInvalidPersistentServiceRecord"

lemma loadReconciliation_spec:
  assumes "store_wf (snd t)"
  shows "case loadReconciliationState (spec_bolt l) sc sn t of
      Inr (b, c) \<Rightarrow> reconcilable sc sn (snd t) \<and> b = committed sc (snd t) \<and> c = observed sc sn (snd t)
    | Inl e \<Rightarrow> \<not> reconcilable sc sn (snd t) \<and> reconciliation_error e"
proof -
  let ?s = "snd t"
  have base: "case loadServiceRecords (spec_bolt l) (baseline_path sc) sc False t of
      Inr m \<Rightarrow> records_valid sc False ?s (baseline_path sc)
        \<and> m = records_at sc False ?s (baseline_path sc)
    | Inl e \<Rightarrow> \<not> records_valid sc False ?s (baseline_path sc)
        \<and> errors_Is e ErrInvalidPersistentServiceRecord"
    and scan: "case loadServiceRecords (spec_bolt l) (scan_path sc sn) sc True t of
      Inr m \<Rightarrow> records_valid sc True ?s (scan_path sc sn)
        \<and> m = records_at sc True ?s (scan_path sc sn)
    | Inl e \<Rightarrow> \<not> records_valid sc True ?s (scan_path sc sn)
        \<and> errors_Is e ErrInvalidPersistentServiceRecord"
    using load_spec [OF assms] by blast+
  have par: "?s [stateScopeBucket] = Some BBucket \<and> ?s (scope_path sc) = Some BBucket
      \<and> ?s (scans_path sc) = Some BBucket" if "?s (scan_path sc sn) = Some BBucket"
    using scan_parent [OF assms that] bucket_parents [OF assms, of sc] by blast
  show ?thesis
  proof (cases "validateStateSchema (spec_bolt l) t")
    case (Some e)
    then have "\<not> schema_ok ?s" using validate_schema_ok [of l t] by simp
    with Some validate_schema_error [OF Some] show ?thesis
      by (simp add: loadReconciliationState_def reconcilable_def reconciliation_error_def)
  next
    case None
    then have ok: "schema_ok ?s" using validate_schema_ok [of l t] by simp
    show ?thesis
    proof (cases "?s (scan_path sc sn) = Some BBucket")
      case True
      with par have "?s [stateScopeBucket] = Some BBucket" "?s (scope_path sc) = Some BBucket"
        "?s (scans_path sc) = Some BBucket" by auto
      with True None ok base scan show ?thesis
        by (cases "loadServiceRecords (spec_bolt l) (baseline_path sc) sc False t";
            cases "loadServiceRecords (spec_bolt l) (scan_path sc sn) sc True t")
          (auto simp: loadReconciliationState_def reconcilable_def reconciliation_error_def
            spec_bucket_def path_defs committed_def observed_def)
    next
      case False
      have "reconciliation_error (Sentinel ErrCurrentScanNotFound)"
        by (simp add: reconciliation_error_def)
      with False None ok base show ?thesis
        by (cases "loadServiceRecords (spec_bolt l) (baseline_path sc) sc False t")
          (auto simp: loadReconciliationState_def reconcilable_def reconciliation_error_def
            spec_bucket_def path_defs guardE_def)
    qed
  qed
qed

context bbolt
begin

lemma loadReconciliation_view:
  "loadReconciliationState B sc sn tx = loadReconciliationState spec sc sn (txv tx)"
  by (simp add: loadReconciliationState_def validate_view bucket_view loadServiceRecords_def
      entries_view cong: bindE_cong)

lemma ReconcileScope_result:
  assumes "store_wf (dbv db)" "ReconcileScope B rng sc sn cmp db = r"
  shows "case r of
      Inr ch \<Rightarrow> Successful cmp \<and> reconcilable sc sn (dbv db)
        \<and> ch = reconcileServiceRecords rng (committed sc (dbv db)) (observed sc sn (dbv db))
    | Inl e \<Rightarrow> sc = [] \<or> sn = [] \<or> (\<not> Successful cmp \<and> errors_Is e ErrReconciliationRequiresSuccessfulScan)
        \<or> bolt_begin B False db = Inl e
        \<or> (\<not> reconcilable sc sn (dbv db) \<and> reconciliation_error e)"
proof (cases "sc = [] \<or> sn = [] \<or> \<not> Successful cmp")
  case True
  with assms(2) show ?thesis by (auto simp: ReconcileScope_def)
next
  case False
  show ?thesis
  proof (cases "bolt_begin B False db")
    case (Inl e)
    with False assms(2) show ?thesis by (auto simp: ReconcileScope_def db_View_def)
  next
    case (Inr tx)
    then have tx: "txv tx = (False, dbv db)" by (rule begin_view)
    show ?thesis
      using False Inr tx assms loadReconciliation_spec [of "(False, dbv db)", where
          l = "bolt_long_name B" and sc = sc and sn = sn]
      by (cases "loadReconciliationState spec sc sn (False, dbv db)")
        (auto simp: ReconcileScope_def db_View_def loadReconciliation_view)
  qed
qed

end

section \<open>Properties of the comparison\<close>

lemma filter_key_single:
  "distinct (map f xs) \<Longrightarrow> c \<in> set xs \<Longrightarrow> filter (\<lambda>x. f x = f c) xs = [c]"
  by (induction xs) (auto simp: filter_empty_conv rev_image_eqI)

lemma reconcile_at_key:
  assumes "ranges_ok rng" "finite (dom baseline)" "finite (dom current)"
  shows "filter (\<lambda>c. sc_ServiceKey c = k) (reconcileServiceRecords rng baseline current)
     = (case change_of k (baseline k) (current k) of None \<Rightarrow> [] | Some c \<Rightarrow> [c])"
proof (cases "change_of k (baseline k) (current k)")
  case None
  have "c \<notin> set (reconcileServiceRecords rng baseline current)" if "sc_ServiceKey c = k" for c
  proof
    assume "c \<in> set (reconcileServiceRecords rng baseline current)"
    then obtain j where j: "change_of j (baseline j) (current j) = Some c"
      by (auto simp: reconcile_spec(1) [OF assms] changes_of_def)
    then have "j = k" using that change_of_key by blast
    with j None show False by simp
  qed
  then show ?thesis using None by (auto simp: filter_empty_conv)
next
  case (Some c)
  then have "c \<in> set (reconcileServiceRecords rng baseline current)" "sc_ServiceKey c = k"
    by (auto simp: reconcile_spec(1) [OF assms] changes_of_def dest: change_of_key)
  then show ?thesis
    using Some filter_key_single [OF reconcile_spec(3) [OF assms], of c] by simp
qed

lemma reconcile_eq_Nil:
  assumes "ranges_ok rng" "finite (dom baseline)" "finite (dom current)"
  shows "reconcileServiceRecords rng baseline current = []
     \<longleftrightarrow> (\<forall>k. change_of k (baseline k) (current k) = None)"
  using reconcile_spec(1) [OF assms] by (auto simp: changes_of_def simp flip: set_empty)

text \<open>C16: the comparison of a scan with the baseline. For each service key the result holds the
  one change that the two records call for - opened when the service is new, reopened when it was
  committed as closed, changed when a compared field differs, closed when it is gone and was not
  closed already, and nothing otherwise - and no other change. The changes are in the order of
  their keys, each key at most once, whatever the order in which the two maps are traversed.\<close>
theorem reconcileServiceRecords_correct:
  assumes "ranges_ok rng" "ranges_ok rng'" "finite (dom baseline)" "finite (dom current)"
  shows "(\<forall>k. filter (\<lambda>c. sc_ServiceKey c = k) (reconcileServiceRecords rng baseline current)
         = (case change_of k (baseline k) (current k) of None \<Rightarrow> [] | Some c \<Rightarrow> [c]))
    \<and> sorted (map sc_ServiceKey (reconcileServiceRecords rng baseline current))
    \<and> distinct (map sc_ServiceKey (reconcileServiceRecords rng baseline current))
    \<and> reconcileServiceRecords rng' baseline current = reconcileServiceRecords rng baseline current"
  using reconcile_at_key [OF assms(1,3,4)] reconcile_spec(2,3) [OF assms(1,3,4)]
    reconcile_order_free [OF assms(2,1,3,4)] by blast

text \<open>An order for every map, for the witnesses.\<close>

definition sorted_ranges :: range_env where
  "sorted_ranges n m = sorted_list_of_set (dom m)"

lemma ranges_ok_sorted [simp]: "ranges_ok sorted_ranges"
  by (simp add: ranges_ok_def sorted_ranges_def range_order_sorted)

lemma reconcileServiceRecords_correct_witness:
  "filter (\<lambda>c. sc_ServiceKey c = ''k'')
     (reconcileServiceRecords sorted_ranges [''k'' \<mapsto> sample_record] [''l'' \<mapsto> sample_record])
   = [\<lparr>sc_Kind = ChangeClosed, sc_ServiceKey = ''k'', sc_Previous = Some sample_record,
       sc_Current = None\<rparr>]"
  using reconcileServiceRecords_correct [OF ranges_ok_sorted ranges_ok_sorted,
      of "[''k'' \<mapsto> sample_record]" "[''l'' \<mapsto> sample_record]"]
  by (simp add: change_of_def) (simp add: sample_record_def status_defs)

text \<open>\<^verbatim>\<open>ReconcileScope\<close> compares what is committed with what was observed, only for a
  successful scan whose bucket exists and on a store whose records are all valid; otherwise it
  answers an error of the matching kind and no changes. (It is given the database and returns
  none: it cannot change it.)\<close>
lemma ReconcileScope_correct:
  assumes "bbolt B dbv txv" "store_wf (dbv db)"
    and "ReconcileScope B rng scopeID scanID completion db = r"
  shows "case r of
      Inr changes \<Rightarrow> Successful completion \<and> reconcilable scopeID scanID (dbv db)
        \<and> changes = reconcileServiceRecords rng (committed scopeID (dbv db))
                      (observed scopeID scanID (dbv db))
    | Inl e \<Rightarrow> scopeID = [] \<or> scanID = []
        \<or> (\<not> Successful completion \<and> errors_Is e ErrReconciliationRequiresSuccessfulScan)
        \<or> bolt_begin B False db = Inl e
        \<or> (\<not> reconcilable scopeID scanID (dbv db) \<and> reconciliation_error e)"
  using assms by (rule bbolt.ReconcileScope_result)

definition ok_completion :: scan_completion where
  "ok_completion = \<lparr>comp_Status = ScanStatusCompleted, comp_Err = None\<rparr>"

lemma Successful_ok [simp]: "Successful ok_completion"
  by (simp add: Successful_def ok_completion_def)

lemma ReconcileScope_correct_witness:
  "\<exists>e. ReconcileScope (spec_bolt (External ''name too long'')) sorted_ranges ''s'' ''a'' ok_completion
        (fresh_store sample_time) = Inl e \<and> reconciliation_error e"
  using ReconcileScope_correct [OF spec_store.bbolt_axioms, of "fresh_store sample_time"
      "External ''name too long''" sorted_ranges "''s''" "''a''" ok_completion]
  by (auto simp: reconcilable_def path_defs split: sum.splits)

end
