(* ===== verification/Promotion.thy ===== *)
theory Promotion
  imports Reconcile
begin

text \<open>
  \<^verbatim>\<open>internal/scanner/state_promotion.go\<close> and \<^verbatim>\<open>state_finalize.go\<close>: the one transaction that
  replaces the committed baseline of a scope by the result of a successful scan, and the
  operation that promotes a successful scan or discards an incomplete one.
\<close>

section \<open>Promotion\<close>

text \<open>The two loops that build the next baseline.\<close>

definition next_baseline :: "range_env \<Rightarrow> service_map \<Rightarrow> service_map \<Rightarrow> service_map" where
  "next_baseline rng baseline current =
     (let start = foldl (\<lambda>m serviceKey. m(serviceKey := current serviceKey)) Map.empty (rng 2 current)
      in foldl (\<lambda>m serviceKey.
           if current serviceKey \<noteq> None then m
           else m(serviceKey \<mapsto> (the (baseline serviceKey))\<lparr>rec_Status := ServiceStatusClosed\<rparr>))
         start (rng 3 baseline))"

fun put_records ::
  "('db, 'tx) bolt \<Rightarrow> path \<Rightarrow> service_map \<Rightarrow> string list \<Rightarrow> ('tx, unit) txm" where
  "put_records B bucket nextBaseline [] = returnT ()"
| "put_records B bucket nextBaseline (serviceKey # ks) =
     bindT (execT (bolt_put B bucket serviceKey (marshal_record (the (nextBaseline serviceKey)))))
       (\<lambda>_. put_records B bucket nextBaseline ks)"

definition PromoteCurrentScan_tx ::
  "('db, 'tx) bolt \<Rightarrow> range_env \<Rightarrow> string \<Rightarrow> string \<Rightarrow> ('tx, service_change list) txm" where
  "PromoteCurrentScan_tx B rng scopeID scanID =
     bindT (bindT (readT (loadReconciliationState B scopeID scanID)) liftT) (\<lambda>(baseline, current).
       let changes = reconcileServiceRecords rng baseline current;
           nextBaseline = next_baseline rng baseline current;
           serviceKeys = sort (rng 4 nextBaseline)
       in
       bindT (readT (bolt_bucket B (scope_path scopeID) stateBaselineBucket)) (\<lambda>old.
       bindT (if old then execT (bolt_delete B (scope_path scopeID) stateBaselineBucket)
              else returnT ()) (\<lambda>_.
       bindT (execT (bolt_create B (scope_path scopeID) stateBaselineBucket)) (\<lambda>_.
       bindT (put_records B (baseline_path scopeID) nextBaseline serviceKeys) (\<lambda>_.
       bindT (execT (bolt_delete B (scans_path scopeID) scanID)) (\<lambda>_.
       returnT changes))))))"

definition PromoteCurrentScan ::
  "('db, 'tx) bolt \<Rightarrow> range_env \<Rightarrow> string \<Rightarrow> string \<Rightarrow> scan_completion \<Rightarrow> 'db
     \<Rightarrow> (error + service_change list) \<times> 'db" where
  "PromoteCurrentScan B rng scopeID scanID completion db =
     (if scopeID = [] then (Inl (Sentinel ErrInvalidStateScopeID), db)
      else if scanID = [] then (Inl (Sentinel ErrInvalidStateScanID), db)
      else if \<not> Successful completion
      then (Inl (Wrapf (Sentinel ErrPromotionRequiresSuccessfulScan) ''status''), db)
      else db_Update B (PromoteCurrentScan_tx B rng scopeID scanID) db)"

section \<open>Finalisation\<close>

definition discardCurrentScan_tx :: "('db, 'tx) bolt \<Rightarrow> string \<Rightarrow> string \<Rightarrow> ('tx, unit) txm" where
  "discardCurrentScan_tx B scopeID scanID =
     bindT (validateT B) (\<lambda>_.
     bindT (readT (bolt_bucket B [] stateScopeBucket)) (\<lambda>scopes.
       if \<not> scopes then returnT ()
       else
     bindT (readT (bolt_bucket B [stateScopeBucket] scopeID)) (\<lambda>scope.
       if \<not> scope then returnT ()
       else
     bindT (readT (\<lambda>tx. bolt_bucket B (scope_path scopeID) stateScanBucket tx
                        \<and> bolt_bucket B (scans_path scopeID) scanID tx)) (\<lambda>scan.
       if \<not> scan then returnT ()
       else execT (bolt_delete B (scans_path scopeID) scanID)))))"

definition discardCurrentScan ::
  "('db, 'tx) bolt \<Rightarrow> string \<Rightarrow> string \<Rightarrow> 'db \<Rightarrow> (error + unit) \<times> 'db" where
  "discardCurrentScan B scopeID scanID db = db_Update B (discardCurrentScan_tx B scopeID scanID) db"

definition error_of :: "error + 'a \<Rightarrow> error option" where
  "error_of r = (case r of Inl e \<Rightarrow> Some e | Inr _ \<Rightarrow> None)"

lemma error_of_simps [simp]: "error_of (Inl e) = Some e" "error_of (Inr x) = None"
  by (simp_all add: error_of_def)

text \<open>The changes are nil when the error is not; the joined error is never nil here, because its
  first part is not.\<close>

definition FinalizeCurrentScan ::
  "('db, 'tx) bolt \<Rightarrow> range_env \<Rightarrow> string \<Rightarrow> string \<Rightarrow> scan_completion \<Rightarrow> 'db
     \<Rightarrow> (service_change list \<times> error option) \<times> 'db" where
  "FinalizeCurrentScan B rng scopeID scanID completion db =
     (if scopeID = [] then (([], Some (Sentinel ErrInvalidStateScopeID)), db)
      else if scanID = [] then (([], Some (Sentinel ErrInvalidStateScanID)), db)
      else if Successful completion then
        (case PromoteCurrentScan B rng scopeID scanID completion db of
           (Inl err, db') \<Rightarrow> (([], Some err), db')
         | (Inr changes, db') \<Rightarrow> ((changes, None), db'))
      else
        (let incompleteErr = Wrapf (Sentinel ErrScanIncomplete) ''status'' in
         case discardCurrentScan B scopeID scanID db of
           (discarded, db') \<Rightarrow>
             (([], errors_Join [Some incompleteErr, comp_Err completion, error_of discarded]), db')))"

section \<open>Promotion on the abstract store\<close>

text \<open>The next baseline: what was observed, and what was not, closed.\<close>

definition merged :: "service_map \<Rightarrow> service_map \<Rightarrow> service_map" where
  "merged baseline current =
     (\<lambda>k. case current k of
        Some r \<Rightarrow> Some r
      | None \<Rightarrow> map_option (\<lambda>r. r\<lparr>rec_Status := ServiceStatusClosed\<rparr>) (baseline k))"

lemma dom_merged: "dom (merged b c) = dom b \<union> dom c"
  by (auto simp: merged_def dom_def split: option.splits)

lemma foldl_copy:
  "foldl (\<lambda>m k. m(k := f k)) m ks = (\<lambda>k. if k \<in> set ks then f k else m k)"
  by (induction ks arbitrary: m) auto

lemma foldl_close:
  "foldl (\<lambda>m k. if c k \<noteq> None then m else m(k \<mapsto> g k)) m ks
     = (\<lambda>k. if k \<in> set ks \<and> c k = None then Some (g k) else m k)"
  by (induction ks arbitrary: m) (auto simp: fun_eq_iff)

lemma next_baseline_merged:
  assumes "ranges_ok rng" "finite (dom baseline)" "finite (dom current)"
  shows "next_baseline rng baseline current = merged baseline current"
proof -
  have "set (rng 2 current) = dom current" "set (rng 3 baseline) = dom baseline"
    using assms by (auto simp: ranges_ok_def range_order_def)
  then show ?thesis
    unfolding next_baseline_def Let_def foldl_copy foldl_close
    by (auto simp: merged_def fun_eq_iff domIff split: option.splits)
qed

text \<open>The store with a bucket filled from a map.\<close>

definition put_map :: "path \<Rightarrow> service_map \<Rightarrow> store \<Rightarrow> store" where
  "put_map p m s =
     (\<lambda>q. if q \<noteq> [] \<and> butlast q = p \<and> m (last q) \<noteq> None
          then Some (BVal (marshal_record (the (m (last q))))) else s q)"

definition promoted :: "string \<Rightarrow> string \<Rightarrow> service_map \<Rightarrow> store \<Rightarrow> store" where
  "promoted sc sn nb s =
     drop_tree (scan_path sc sn)
       (put_map (baseline_path sc) nb ((drop_tree (baseline_path sc) s)(baseline_path sc \<mapsto> BBucket)))"

definition fits :: "service_map \<Rightarrow> bool" where
  "fits m \<longleftrightarrow> (\<forall>k r. m k = Some r \<longrightarrow>
     k \<noteq> [] \<and> length k \<le> maxKeySize \<and> length (marshal_record r) \<le> maxValueSize)"

lemma put_map_empty [simp]: "put_map p Map.empty s = s"
  by (simp add: put_map_def)

lemma put_map_step:
  "put_map p (m(k \<mapsto> r)) s = (put_map p m s)(p @ [k] \<mapsto> BVal (marshal_record r))"
  by (auto simp: put_map_def fun_eq_iff)

lemma fitsD:
  assumes "fits m" "m k = Some r"
  shows "k \<noteq> []" "\<not> maxKeySize < length k" "\<not> maxValueSize < length (marshal_record r)"
  using assms unfolding fits_def by force+

definition put_entry :: "path \<Rightarrow> service_map \<Rightarrow> store \<Rightarrow> string \<Rightarrow> store" where
  "put_entry p nb s k = s(p @ [k] \<mapsto> BVal (marshal_record (the (nb k))))"

lemma put_records_Inr:
  assumes "put_records (spec_bolt l) p nb ks (True, s) = Inr (u, t)"
  shows "t = (True, foldl (put_entry p nb) s ks)"
  using assms
proof (induction ks arbitrary: s)
  case Nil
  then show ?case by (simp add: returnT_def)
next
  case (Cons k ks)
  then obtain t' where t': "execT (spec_put p k (marshal_record (the (nb k)))) (True, s) = Inr ((), t')"
    "put_records (spec_bolt l) p nb ks t' = Inr (u, t)"
    by (auto simp: bindT_eq_Inr)
  then have "t' = (True, put_entry p nb s k)"
    by (auto simp: execT_def spec_put_def put_entry_def split: if_splits)
  with t'(2) Cons.IH show ?case by simp
qed

lemma put_records_spec:
  assumes "s p = Some BBucket" "\<forall>k\<in>set ks. \<exists>r. nb k = Some r" "fits nb"
    "\<forall>k\<in>set ks. s (p @ [k]) \<noteq> Some BBucket"
  shows "put_records (spec_bolt l) p nb ks (True, s)
    = Inr ((), (True, foldl (put_entry p nb) s ks))"
  using assms
proof (induction ks arbitrary: s)
  case Nil
  then show ?case by (simp add: returnT_def)
next
  case (Cons k ks)
  let ?s = "put_entry p nb s k"
  obtain r where r: "nb k = Some r" using Cons.prems(2) by auto
  have "execT (spec_put p k (marshal_record (the (nb k)))) (True, s) = Inr ((), (True, ?s))"
    using Cons.prems(1,4) r fitsD [OF Cons.prems(3) r]
    by (simp add: execT_def spec_put_def is_bucket_def put_entry_def)
  moreover have "put_records (spec_bolt l) p nb ks (True, ?s)
    = Inr ((), (True, foldl (put_entry p nb) ?s ks))"
    using Cons.prems by (intro Cons.IH) (auto simp: put_entry_def)
  ultimately show ?case by (simp add: bindT_def)
qed

lemma foldl_put_map:
  assumes "\<forall>k\<in>set ks. nb k \<noteq> None"
  shows "foldl (put_entry p nb) s ks
    = put_map p (\<lambda>k. if k \<in> set ks then nb k else None) s"
  using assms
proof (induction ks rule: rev_induct)
  case (snoc k ks)
  then obtain r where r: "nb k = Some r" by auto
  have "(\<lambda>j. if j \<in> set (ks @ [k]) then nb j else None)
      = (\<lambda>j. if j \<in> set ks then nb j else None)(k \<mapsto> r)"
    using r by auto
  moreover have "foldl (put_entry p nb) s (ks @ [k])
      = put_entry p nb (put_map p (\<lambda>j. if j \<in> set ks then nb j else None) s) k"
    using snoc by simp
  ultimately show ?case
    using r put_entry_def [of p nb _ k] by (simp only: put_map_step option.sel)
qed (simp add: put_map_def)

text \<open>The store after the old baseline has been replaced by an empty one.\<close>

definition cleared :: "string \<Rightarrow> store \<Rightarrow> store" where
  "cleared sc s = (drop_tree (baseline_path sc) s)(baseline_path sc \<mapsto> BBucket)"

definition clear_baselineT :: "('db, 'tx) bolt \<Rightarrow> string \<Rightarrow> ('tx, unit) txm" where
  "clear_baselineT B sc =
     bindT (readT (bolt_bucket B (scope_path sc) stateBaselineBucket)) (\<lambda>old.
     bindT (if old then execT (bolt_delete B (scope_path sc) stateBaselineBucket)
            else returnT ()) (\<lambda>_.
     execT (bolt_create B (scope_path sc) stateBaselineBucket)))"

lemma store_wf_below:
  assumes "store_wf s" "s p = None" "p \<noteq> []"
  shows "s (p @ q) = None"
proof (induction q rule: rev_induct)
  case (snoc k q)
  have "\<not> is_bucket s (p @ q)" using snoc assms(3) by (simp add: is_bucket_def)
  then have "s ((p @ q) @ [k]) = None" using assms(1) store_wf_parent by blast
  then show ?case by simp
qed (simp add: assms(2))

lemma drop_tree_absent:
  assumes "store_wf s" "s p = None" "p \<noteq> []"
  shows "drop_tree p s = s"
  using store_wf_below [OF assms] by (auto simp: drop_tree_apply fun_eq_iff prefix_def)

lemma baseline_snoc: "baseline_path sc = scope_path sc @ [stateBaselineBucket]"
  by (simp add: path_defs)

lemma drop_tree_other: "\<not> prefix p q \<Longrightarrow> drop_tree p s q = s q"
  by (simp add: drop_tree_apply)

lemma create_baseline_step:
  assumes "s (scope_path sc) = Some BBucket"
  shows "execT (spec_create l (scope_path sc) stateBaselineBucket) (True, s) =
    (case s (baseline_path sc) of
       None \<Rightarrow> Inr ((), (True, s(baseline_path sc \<mapsto> BBucket)))
     | Some BBucket \<Rightarrow> Inl (Sentinel BoltErrBucketExists)
     | Some (BVal v) \<Rightarrow> Inl (Sentinel BoltErrIncompatibleValue))"
proof -
  have "is_bucket s (scope_path sc)" using assms by (simp add: is_bucket_def)
  moreover have "\<not> maxKeySize < length stateBaselineBucket" "stateBaselineBucket \<noteq> []"
    by (simp_all add: layout_defs maxKeySize_def)
  ultimately show ?thesis
    by (simp add: execT_def spec_create_def baseline_snoc split: option.split bentry.split)
qed

lemma clear_baseline_spec:
  assumes "store_wf s" "s (scope_path sc) = Some BBucket"
  shows "clear_baselineT (spec_bolt l) sc (True, s) =
    (if no_value s (baseline_path sc) then Inr ((), (True, cleared sc s))
     else Inl (Sentinel BoltErrIncompatibleValue))"
proof (cases "s (baseline_path sc) = Some BBucket")
  case True
  let ?d = "drop_tree (baseline_path sc) s"
  have "\<not> prefix (baseline_path sc) (scope_path sc)" by (simp add: path_defs)
  then have "?d (scope_path sc) = Some BBucket" "?d (baseline_path sc) = None"
    using assms(2) by (simp_all add: drop_tree_apply)
  then have "execT (spec_create l (scope_path sc) stateBaselineBucket) (True, ?d)
      = Inr ((), (True, cleared sc s))"
    by (simp add: create_baseline_step cleared_def)
  moreover have "execT (spec_delete (scope_path sc) stateBaselineBucket) (True, s) = Inr ((), (True, ?d))"
    using True by (simp add: execT_def spec_delete_def baseline_snoc)
  ultimately show ?thesis
    using True by (simp add: clear_baselineT_def bindT_def readT_def spec_bucket_def no_value_cases
        flip: baseline_snoc)
next
  case False
  have "cleared sc s = s(baseline_path sc \<mapsto> BBucket)" if "s (baseline_path sc) = None"
    using that drop_tree_absent [OF assms(1) that] by (simp add: cleared_def path_defs)
  with False show ?thesis
    by (auto simp: clear_baselineT_def bindT_def readT_def returnT_def spec_bucket_def
        no_value_cases create_baseline_step [where s = s and sc = sc, OF assms(2)] split: option.split bentry.split
        simp flip: baseline_snoc)
qed

lemma Promote_unfold:
  "PromoteCurrentScan_tx B rng sc sn tx =
     (case loadReconciliationState B sc sn tx of
        Inl e \<Rightarrow> Inl e
      | Inr (b, c) \<Rightarrow>
          bindT (clear_baselineT B sc) (\<lambda>_.
          bindT (put_records B (baseline_path sc) (next_baseline rng b c)
                   (sort (rng 4 (next_baseline rng b c)))) (\<lambda>_.
          bindT (execT (bolt_delete B (scans_path sc) sn)) (\<lambda>_.
          returnT (reconcileServiceRecords rng b c)))) tx)"
  by (simp add: PromoteCurrentScan_tx_def bindT_def readT_def liftT_def clear_baselineT_def Let_def
      returnT_def split: sum.split prod.split)

lemma ranges_set:
  "ranges_ok rng \<Longrightarrow> finite (dom m) \<Longrightarrow> set (rng n m) = dom m"
  by (simp add: ranges_ok_def range_order_def)

lemma cleared_simps [simp]:
  "cleared sc s (baseline_path sc) = Some BBucket"
  "cleared sc s (baseline_path sc @ [k]) = None"
  "cleared sc s (scan_path sc sn) = s (scan_path sc sn)"
  by (simp_all add: cleared_def path_defs drop_tree_apply)

lemma promoted_cleared:
  "promoted sc sn nb s = drop_tree (scan_path sc sn) (put_map (baseline_path sc) nb (cleared sc s))"
  by (simp add: promoted_def cleared_def)

lemma put_all_spec:
  assumes "ranges_ok rng" "finite (dom nb)" "fits nb"
  shows "put_records (spec_bolt l) (baseline_path sc) nb (sort (rng 4 nb)) (True, cleared sc s)
     = Inr ((), (True, put_map (baseline_path sc) nb (cleared sc s)))"
proof -
  have ks: "set (sort (rng 4 nb)) = dom nb" using ranges_set [OF assms(1,2)] by simp
  have "(\<lambda>k. if k \<in> dom nb then nb k else None) = nb" by (auto simp: domIff)
  then have "foldl (put_entry (baseline_path sc) nb) (cleared sc s) (sort (rng 4 nb))
      = put_map (baseline_path sc) nb (cleared sc s)"
    using foldl_put_map [of "sort (rng 4 nb)" nb] ks by auto
  moreover have "put_records (spec_bolt l) (baseline_path sc) nb (sort (rng 4 nb)) (True, cleared sc s)
      = Inr ((), (True, foldl (put_entry (baseline_path sc) nb) (cleared sc s) (sort (rng 4 nb))))"
    using ks assms(3) by (intro put_records_spec) auto
  ultimately show ?thesis by simp
qed

lemma put_map_scan [simp]: "put_map (baseline_path sc) nb s (scan_path sc sn) = s (scan_path sc sn)"
  by (simp add: put_map_def path_defs layout_defs)

lemma scan_snoc: "scan_path sc sn = scans_path sc @ [sn]"
  by (simp add: path_defs)

lemma delete_scan_spec:
  assumes "s (scan_path sc sn) = Some BBucket"
  shows "execT (spec_delete (scans_path sc) sn) (True, s)
     = Inr ((), (True, drop_tree (scan_path sc sn) s))"
  using assms by (simp add: execT_def spec_delete_def scan_snoc)

text \<open>The conditions of a promotion.\<close>

definition promotable :: "string \<Rightarrow> string \<Rightarrow> store \<Rightarrow> bool" where
  "promotable sc sn s \<longleftrightarrow> reconcilable sc sn s \<and> no_value s (baseline_path sc)
     \<and> fits (merged (committed sc s) (observed sc sn s))"

lemma finite_merged [simp]:
  "store_wf s \<Longrightarrow> finite (dom (merged (committed sc s) (observed sc sn s)))"
  by (simp add: dom_merged)

lemma put_all_Inr:
  assumes "put_records (spec_bolt l) (baseline_path sc) nb (sort (rng 4 nb)) (True, cleared sc s) = Inr (u, t)"
    "ranges_ok rng" "finite (dom nb)"
  shows "t = (True, put_map (baseline_path sc) nb (cleared sc s))"
proof -
  have ks: "set (sort (rng 4 nb)) = dom nb" using ranges_set [OF assms(2,3)] by simp
  have "(\<lambda>k. if k \<in> dom nb then nb k else None) = nb" by (auto simp: domIff)
  then show ?thesis
    using put_records_Inr [OF assms(1)] foldl_put_map [of "sort (rng 4 nb)" nb] ks by auto
qed

lemma Promote_spec:
  assumes "store_wf s" "ranges_ok rng"
  shows "case PromoteCurrentScan_tx (spec_bolt l) rng sc sn (True, s) of
      Inr (changes, t) \<Rightarrow> reconcilable sc sn s
        \<and> changes = reconcileServiceRecords rng (committed sc s) (observed sc sn s)
        \<and> t = (True, promoted sc sn (merged (committed sc s) (observed sc sn s)) s)
    | Inl e \<Rightarrow> \<not> promotable sc sn s"
proof (cases "loadReconciliationState (spec_bolt l) sc sn (True, s)")
  case (Inl e)
  then have "\<not> reconcilable sc sn s"
    using loadReconciliation_spec [of "(True, s)", where l = l and sc = sc and sn = sn] assms(1) by simp
  with Inl show ?thesis by (simp add: Promote_unfold promotable_def)
next
  case load: (Inr p)
  let ?b = "committed sc s" and ?c = "observed sc sn s"
  let ?nb = "merged ?b ?c"
  have rec: "reconcilable sc sn s" and p: "p = (?b, ?c)"
    using loadReconciliation_spec [of "(True, s)", where l = l and sc = sc and sn = sn] assms(1) load by (cases p; simp)+
  have nb: "next_baseline rng ?b ?c = ?nb"
    using assms by (intro next_baseline_merged) auto
  have scan: "s (scan_path sc sn) = Some BBucket" and scope: "s (scope_path sc) = Some BBucket"
    using rec scan_parent [OF assms(1)] bucket_parents [OF assms(1), of sc]
    by (auto simp: reconcilable_def)
  have del: "execT (spec_delete (scans_path sc) sn) (True, put_map (baseline_path sc) ?nb (cleared sc s))
      = Inr ((), (True, promoted sc sn ?nb s))"
    using delete_scan_spec [of "put_map (baseline_path sc) ?nb (cleared sc s)" sc sn] scan
    by (simp add: promoted_cleared)
  let ?puts = "put_records (spec_bolt l) (baseline_path sc) ?nb (sort (rng 4 ?nb)) (True, cleared sc s)"
  have puts: "case ?puts of Inr (u, t) \<Rightarrow> t = (True, put_map (baseline_path sc) ?nb (cleared sc s))
      | Inl e \<Rightarrow> \<not> fits ?nb"
  proof (cases ?puts)
    case (Inl e)
    have "\<not> fits ?nb"
    proof
      assume "fits ?nb"
      from put_all_spec [OF assms(2) _ this, of l sc s] Inl assms(1) show False by simp
    qed
    with Inl show ?thesis by simp
  next
    case (Inr q)
    obtain t where q: "q = ((), t)" by (cases q) simp
    have "t = (True, put_map (baseline_path sc) ?nb (cleared sc s))"
      by (rule put_all_Inr [OF Inr [unfolded q] assms(2)]) (use assms(1) in simp)
    with Inr q show ?thesis by simp
  qed
  show ?thesis
  proof (cases "no_value s (baseline_path sc)")
    case no_value: True
    then have clear: "clear_baselineT (spec_bolt l) sc (True, s) = Inr ((), (True, cleared sc s))"
      by (simp add: clear_baseline_spec [OF assms(1) scope])
    show ?thesis
    proof (cases ?puts)
      case (Inl e)
      then have "\<not> promotable sc sn s" using puts by (simp add: promotable_def)
      with Inl show ?thesis
        by (simp add: Promote_unfold load p nb bindT_def clear)
    next
      case ok: (Inr q)
      then have "q = ((), (True, put_map (baseline_path sc) ?nb (cleared sc s)))"
        using puts by (cases q) simp
      with ok rec show ?thesis
        by (simp add: Promote_unfold load p nb bindT_def clear del returnT_def)
    qed
  next
    case False
    then have "\<not> promotable sc sn s" by (simp add: promotable_def)
    with False show ?thesis
      by (simp add: Promote_unfold load p bindT_def clear_baseline_spec [OF assms(1) scope])
  qed
qed

lemma wfT_put_records [wfTI]: "wfT (put_records (spec_bolt l) p nb ks)"
  by (induction ks) (simp_all only: put_records.simps wfTI)

lemma wfT_Promote [wfTI]: "wfT (PromoteCurrentScan_tx (spec_bolt l) rng sc sn)"
  unfolding PromoteCurrentScan_tx_def Let_def case_prod_beta by (intro wfTI)

text \<open>What the discarding of a scan does.\<close>

definition discard :: "string \<Rightarrow> string \<Rightarrow> store \<Rightarrow> store" where
  "discard sc sn s = (if s (scan_path sc sn) = Some BBucket then drop_tree (scan_path sc sn) s else s)"

lemma discard_spec:
  assumes "store_wf s"
  shows "discardCurrentScan_tx (spec_bolt l) sc sn (True, s) =
    (case validateStateSchema (spec_bolt l) (True, s) of
       Some e \<Rightarrow> Inl e
     | None \<Rightarrow> Inr ((), (True, discard sc sn s)))"
proof (cases "s (scan_path sc sn) = Some BBucket")
  case True
  then have "s [stateScopeBucket] = Some BBucket" "s (scope_path sc) = Some BBucket"
    "s (scans_path sc) = Some BBucket"
    using scan_parent [OF assms True] bucket_parents [OF assms, of sc] by auto
  with True delete_scan_spec [where s = s and sc = sc and sn = sn, OF True] show ?thesis
    by (auto simp: discardCurrentScan_tx_def validateT_spec bindT_def readT_def spec_bucket_def
        returnT_def liftT_def path_defs discard_def split: option.split)
next
  case False
  then show ?thesis
    by (auto simp: discardCurrentScan_tx_def validateT_spec bindT_def readT_def spec_bucket_def
        returnT_def liftT_def path_defs discard_def split: option.split)
qed

lemma wfT_discard [wfTI]: "wfT (discardCurrentScan_tx (spec_bolt l) sc sn)"
  unfolding discardCurrentScan_tx_def validateT_def by (intro wfTI)
section \<open>The promoted store\<close>

lemma promoted_frame:
  assumes "\<not> prefix (baseline_path sc) q" "\<not> prefix (scan_path sc sn) q"
  shows "promoted sc sn nb s q = s q"
proof -
  have "butlast q \<noteq> baseline_path sc \<or> q = []"
    using assms(1) by (metis append_butlast_last_id prefixI)
  with assms show ?thesis
    by (auto simp: promoted_cleared drop_tree_apply put_map_def cleared_def)
qed

lemma promoted_scan: "prefix (scan_path sc sn) q \<Longrightarrow> promoted sc sn nb s q = None"
  by (simp add: promoted_cleared drop_tree_apply)

lemma promoted_baseline:
  "promoted sc sn nb s (baseline_path sc) = Some BBucket"
  "promoted sc sn nb s (baseline_path sc @ [k]) = map_option (\<lambda>r. BVal (marshal_record r)) (nb k)"
proof -
  have np: "\<not> prefix (scan_path sc sn) (baseline_path sc)"
    "\<not> prefix (scan_path sc sn) (baseline_path sc @ [k])"
    by (simp_all add: path_defs layout_defs)
  show "promoted sc sn nb s (baseline_path sc) = Some BBucket"
    using np(1) by (simp add: promoted_cleared drop_tree_other put_map_def) (simp add: path_defs)
  show "promoted sc sn nb s (baseline_path sc @ [k]) = map_option (\<lambda>r. BVal (marshal_record r)) (nb k)"
    using np(2) by (auto simp: promoted_cleared drop_tree_other put_map_def)
qed

lemma promoted_records:
  assumes "\<And>k r. nb k = Some r \<Longrightarrow> record_ok sc False k r"
  shows "records_at sc False (promoted sc sn nb s) (baseline_path sc) = nb"
    "records_valid sc False (promoted sc sn nb s) (baseline_path sc)"
proof -
  show eq: "records_at sc False (promoted sc sn nb s) (baseline_path sc) = nb"
  proof
    fix k
    show "records_at sc False (promoted sc sn nb s) (baseline_path sc) k = nb k"
      using assms by (cases "nb k") (simp_all add: records_at_def promoted_baseline entry_record_marshal)
  qed
  show "records_valid sc False (promoted sc sn nb s) (baseline_path sc)"
    by (simp add: records_valid_def eq children_def promoted_baseline)
qed

lemma record_ok_close:
  "record_ok sc cur k r \<Longrightarrow> record_ok sc False k (r\<lparr>rec_Status := ServiceStatusClosed\<rparr>)"
  by (auto simp: record_ok_def validate_record_None record_utf8_def status_defs)

lemma record_ok_False: "record_ok sc cur k r \<Longrightarrow> record_ok sc False k r"
  by (auto simp: record_ok_def validate_record_None)

lemma committed_ok: "committed sc s k = Some r \<Longrightarrow> record_ok sc False k r"
  by (auto simp: committed_def records_at_ok split: if_splits)

lemma observed_ok: "observed sc sn s k = Some r \<Longrightarrow> record_ok sc True k r"
  by (simp add: observed_def records_at_ok)

lemma merged_ok:
  "merged (committed sc s) (observed sc sn s) k = Some r \<Longrightarrow> record_ok sc False k r"
  using record_ok_False [OF observed_ok] record_ok_close [OF committed_ok]
  by (auto simp: merged_def split: option.splits)

lemma committed_promoted:
  "committed sc (promoted sc sn (merged (committed sc s) (observed sc sn s)) s)
     = merged (committed sc s) (observed sc sn s)"
  unfolding committed_def [of sc "promoted _ _ _ _"]
  by (simp add: promoted_baseline promoted_records(1) [OF merged_ok])

section \<open>What the changes say\<close>

text \<open>Replaying a list of changes on a baseline.\<close>

definition apply_change :: "service_map \<Rightarrow> service_change \<Rightarrow> service_map" where
  "apply_change m c =
     m(sc_ServiceKey c := (case sc_Current c of
         Some r \<Rightarrow> Some r
       | None \<Rightarrow> map_option (\<lambda>r. r\<lparr>rec_Status := ServiceStatusClosed\<rparr>) (sc_Previous c)))"

definition apply_changes :: "service_map \<Rightarrow> service_change list \<Rightarrow> service_map" where
  "apply_changes = foldl apply_change"

text \<open>Two records that no comparison and no later scan tells apart.\<close>

fun same_record :: "service_record option \<Rightarrow> service_record option \<Rightarrow> bool" where
  "same_record None None \<longleftrightarrow> True"
| "same_record (Some r) (Some r') \<longleftrightarrow> rec_Status r = rec_Status r' \<and> serviceComparisonEqual r r'"
| "same_record _ _ \<longleftrightarrow> False"

lemma same_service_refl [simp]: "same_record x x"
  by (cases x) (simp_all add: serviceComparisonEqual_iff)

lemma apply_changes_other:
  "k \<notin> sc_ServiceKey ` set cs \<Longrightarrow> apply_changes m cs k = m k"
  by (induction cs arbitrary: m) (auto simp: apply_changes_def apply_change_def)

lemma apply_changes_at:
  "distinct (map sc_ServiceKey cs) \<Longrightarrow> c \<in> set cs \<Longrightarrow>
     apply_changes m cs (sc_ServiceKey c) = apply_change m c (sc_ServiceKey c)"
proof (induction cs arbitrary: m)
  case (Cons d cs)
  have step: "apply_changes m (d # cs) = apply_changes (apply_change m d) cs"
    by (simp add: apply_changes_def)
  show ?case
  proof (cases "c = d")
    case True
    then show ?thesis using Cons.prems(1) by (simp add: step apply_changes_other)
  next
    case False
    then show ?thesis using Cons by (auto simp: step apply_change_def)
  qed
qed simp

lemma change_of_parts: "change_of k p c = Some ch \<Longrightarrow> sc_Previous ch = p \<and> sc_Current ch = c"
  by (auto simp: change_of_def)

lemma apply_reconcile:
  assumes "ranges_ok rng" "finite (dom b)" "finite (dom c)"
    and opened: "\<And>k r. c k = Some r \<Longrightarrow> rec_Status r = ServiceStatusOpen"
    and status: "\<And>k r. b k = Some r \<Longrightarrow> rec_Status r \<in> {ServiceStatusOpen, ServiceStatusClosed}"
  shows "same_record (apply_changes b (reconcileServiceRecords rng b c) k) (merged b c k)"
proof (cases "change_of k (b k) (c k)")
  case None
  have "k \<notin> sc_ServiceKey ` set (reconcileServiceRecords rng b c)"
    using None change_of_key by (fastforce simp: reconcile_spec(1) [OF assms(1-3)] changes_of_def)
  then have "apply_changes b (reconcileServiceRecords rng b c) k = b k"
    by (rule apply_changes_other)
  with None show ?thesis
    using opened [of k] status [of k]
    by (auto simp: change_of_def merged_def serviceComparisonEqual_iff split: option.splits if_splits)
next
  case (Some ch)
  then have "ch \<in> set (reconcileServiceRecords rng b c)" and k: "sc_ServiceKey ch = k"
    by (auto simp: reconcile_spec(1) [OF assms(1-3)] changes_of_def dest: change_of_key)
  then have "apply_changes b (reconcileServiceRecords rng b c) k = apply_change b ch k"
    using apply_changes_at [OF reconcile_spec(3) [OF assms(1-3)], of ch b] by simp
  also have "\<dots> = merged b c k"
    using change_of_parts [OF Some] k by (simp add: apply_change_def merged_def split: option.split)
  finally show ?thesis by simp
qed

lemma reconcile_settled:
  assumes "ranges_ok rng" "finite (dom b)" "finite (dom c)"
    and opened: "\<And>k r. c k = Some r \<Longrightarrow> rec_Status r = ServiceStatusOpen"
  shows "reconcileServiceRecords rng (merged b c) c = []"
proof -
  have "change_of k (merged b c k) (c k) = None" for k
    using opened [of k]
    by (cases "c k"; cases "b k")
      (auto simp: change_of_def merged_def serviceComparisonEqual_iff status_defs)
  then show ?thesis
    using assms(1-3) by (subst reconcile_eq_Nil) (simp_all add: dom_merged)
qed

lemma committed_status:
  "committed sc s k = Some r \<Longrightarrow> rec_Status r \<in> {ServiceStatusOpen, ServiceStatusClosed}"
  using committed_ok by (auto simp: record_ok_def validate_record_None)

lemma observed_open: "observed sc sn s k = Some r \<Longrightarrow> rec_Status r = ServiceStatusOpen"
  using observed_ok by (auto simp: record_ok_def validate_record_None)

section \<open>The operations on a database\<close>

context bbolt
begin

lemma sim_put_records: "simT txv (put_records B p nb ks) (put_records spec p nb ks)"
  by (induction ks) (simp_all only: put_records.simps simI sim_ops)

lemma sim_Promote: "simT txv (PromoteCurrentScan_tx B rng sc sn) (PromoteCurrentScan_tx spec rng sc sn)"
  unfolding PromoteCurrentScan_tx_def Let_def case_prod_beta
  by (intro simI sim_ops sim_put_records simT_read) (simp add: loadReconciliation_view)

lemma sim_discard: "simT txv (discardCurrentScan_tx B sc sn) (discardCurrentScan_tx spec sc sn)"
  unfolding discardCurrentScan_tx_def
  by (intro simI sim_ops sim_validate simT_read) (simp add: bucket_view)

lemma Promote_result:
  assumes "store_wf (dbv db)" "ranges_ok rng" "PromoteCurrentScan B rng sc sn cmp db = (r, db')"
  shows "case r of
      Inr ch \<Rightarrow> Successful cmp \<and> reconcilable sc sn (dbv db)
        \<and> ch = reconcileServiceRecords rng (committed sc (dbv db)) (observed sc sn (dbv db))
        \<and> dbv db' = promoted sc sn (merged (committed sc (dbv db)) (observed sc sn (dbv db))) (dbv db)
    | Inl e \<Rightarrow> dbv db' = dbv db
        \<and> \<not> (sc \<noteq> [] \<and> sn \<noteq> [] \<and> Successful cmp \<and> promotable sc sn (dbv db)
              \<and> storage_ok B (PromoteCurrentScan_tx B rng sc sn) db)"
proof (cases "sc = [] \<or> sn = [] \<or> \<not> Successful cmp")
  case True
  with assms(3) show ?thesis by (auto simp: PromoteCurrentScan_def split: if_splits)
next
  case False
  then have U: "db_Update B (PromoteCurrentScan_tx B rng sc sn) db = (r, db')"
    using assms(3) by (simp add: PromoteCurrentScan_def)
  note spec = Promote_spec [OF assms(1,2), where l = "bolt_long_name B" and sc = sc and sn = sn]
  show ?thesis
  proof (cases r)
    case (Inl e)
    then have "dbv db' = dbv db" using U Update_Inl by blast
    moreover have "\<not> promotable sc sn (dbv db)"
      if "storage_ok B (PromoteCurrentScan_tx B rng sc sn) db"
      using Update_error [OF sim_Promote that] U Inl spec by simp
    ultimately show ?thesis using Inl by auto
  next
    case (Inr ch)
    then obtain w where "PromoteCurrentScan_tx spec rng sc sn (True, dbv db) = Inr (ch, (w, dbv db'))"
      using Update_Inr [OF sim_Promote] U by blast
    with spec Inr False show ?thesis by simp
  qed
qed

lemma discard_result:
  assumes "store_wf (dbv db)" "discardCurrentScan B sc sn db = (r, db')"
  shows "case r of
      Inr u \<Rightarrow> schema_ok (dbv db) \<and> dbv db' = discard sc sn (dbv db)
    | Inl e \<Rightarrow> dbv db' = dbv db
        \<and> \<not> (schema_ok (dbv db) \<and> storage_ok B (discardCurrentScan_tx B sc sn) db)"
proof (cases r)
  case (Inl e)
  then have U: "db_Update B (discardCurrentScan_tx B sc sn) db = (Inl e, db')"
    using assms(2) by (simp add: discardCurrentScan_def)
  have "\<not> schema_ok (dbv db)" if "storage_ok B (discardCurrentScan_tx B sc sn) db"
    using Update_error [OF sim_discard that U] discard_spec [OF assms(1)]
      validate_schema_ok [of "bolt_long_name B" "(True, dbv db)"]
    by (auto split: option.splits)
  then show ?thesis using Inl Update_Inl [OF U] by auto
next
  case (Inr u)
  then obtain w where "discardCurrentScan_tx spec sc sn (True, dbv db) = Inr ((), (w, dbv db'))"
    using Update_Inr [OF sim_discard, of sc sn db u db'] assms(2) by (auto simp: discardCurrentScan_def)
  then show ?thesis
    using Inr discard_spec [OF assms(1)] validate_schema_ok [of "bolt_long_name B" "(True, dbv db)"]
    by (auto split: option.splits)
qed

end

section \<open>Properties\<close>

lemma not_prefix_scope:
  assumes "sc' \<noteq> sc"
  shows "\<not> prefix (baseline_path sc) (scope_path sc' @ q)" "\<not> prefix (scan_path sc sn) (scope_path sc' @ q)"
  using assms by (auto simp: path_defs)

text \<open>C4: promotion is all or nothing. A successful \<^verbatim>\<open>PromoteCurrentScan\<close> happens only for a
  successful scan with its bucket on a valid store; it returns the comparison of the scan with
  the baseline, commits as the next baseline every observed record and, as closed, every
  committed record that was not observed - what a later load returns - and removes the bucket of
  the scan. The other scopes and the other scans keep what they hold. A failed promotion leaves the
  database as it was, and on a promotable store only the storage can make it fail.\<close>
theorem PromoteCurrentScan_atomic:
  assumes "bbolt B dbv txv" "store_wf (dbv db)" "ranges_ok rng"
    and "PromoteCurrentScan B rng scopeID scanID completion db = (r, db')"
  shows "case r of
      Inr changes \<Rightarrow> Successful completion \<and> reconcilable scopeID scanID (dbv db)
        \<and> changes = reconcileServiceRecords rng (committed scopeID (dbv db))
                      (observed scopeID scanID (dbv db))
        \<and> committed scopeID (dbv db')
            = merged (committed scopeID (dbv db)) (observed scopeID scanID (dbv db))
        \<and> (\<forall>q. dbv db' (scan_path scopeID scanID @ q) = None)
        \<and> (\<forall>sc q. sc \<noteq> scopeID \<longrightarrow> dbv db' (scope_path sc @ q) = dbv db (scope_path sc @ q))
        \<and> (\<forall>sn q. sn \<noteq> scanID \<longrightarrow>
            dbv db' (scan_path scopeID sn @ q) = dbv db (scan_path scopeID sn @ q))
    | Inl e \<Rightarrow> dbv db' = dbv db
        \<and> \<not> (scopeID \<noteq> [] \<and> scanID \<noteq> [] \<and> Successful completion
              \<and> promotable scopeID scanID (dbv db)
              \<and> storage_ok B (PromoteCurrentScan_tx B rng scopeID scanID) db)"
proof (cases r)
  case (Inl e)
  then show ?thesis using bbolt.Promote_result [OF assms] by simp
next
  case (Inr ch)
  have sn: "\<not> prefix (baseline_path scopeID) (scan_path scopeID sn @ q)"
    "sn \<noteq> scanID \<Longrightarrow> \<not> prefix (scan_path scopeID scanID) (scan_path scopeID sn @ q)" for sn q
    by (simp_all add: path_defs layout_defs)
  show ?thesis
    using bbolt.Promote_result [OF assms] Inr
    by (simp add: committed_promoted promoted_scan promoted_frame not_prefix_scope sn)
qed

text \<open>C5: the changes a promotion reports are the whole difference. Replayed on the baseline that
  was committed before they give the baseline committed after it, service by service, up to
  the fields no comparison looks at; and a later scan that observes the same services reports no
  change at all.\<close>
theorem PromoteCurrentScan_changes_complete:
  assumes "bbolt B dbv txv" "store_wf (dbv db)" "ranges_ok rng"
    and "PromoteCurrentScan B rng scopeID scanID completion db = (Inr changes, db')"
  shows "same_record (apply_changes (committed scopeID (dbv db)) changes k)
           (committed scopeID (dbv db') k)
    \<and> reconcileServiceRecords rng (committed scopeID (dbv db')) (observed scopeID scanID (dbv db)) = []"
proof -
  let ?b = "committed scopeID (dbv db)" and ?c = "observed scopeID scanID (dbv db)"
  have "changes = reconcileServiceRecords rng ?b ?c" "committed scopeID (dbv db') = merged ?b ?c"
    using bbolt.Promote_result [OF assms] by (simp_all add: committed_promoted)
  then show ?thesis
    using apply_reconcile [OF assms(3), of ?b ?c k] reconcile_settled [OF assms(3), of ?b ?c]
      assms(2) committed_status observed_open by auto
qed

lemma observed_discard:
  assumes "store_wf s"
  shows "observed sc sn (discard sc sn s) = Map.empty"
proof -
  have "s (scan_path sc sn @ [k]) = None" if "s (scan_path sc sn) \<noteq> Some BBucket" for k
    using store_wf_parent [OF assms, of "scan_path sc sn" k] that
    by (cases "s (scan_path sc sn @ [k])") (auto simp: is_bucket_def path_defs)
  then have "discard sc sn s (scan_path sc sn @ [k]) = None" for k
    by (simp add: discard_def drop_tree_apply)
  then show ?thesis by (simp add: observed_def records_at_def)
qed

lemma errors_Join_incomplete:
  assumes "err = errors_Join [Some (Wrapf (Sentinel s) m), x, y]"
  shows "\<exists>e. err = Some e \<and> errors_Is e s \<and> (\<forall>z t. x = Some z \<and> errors_Is z t \<longrightarrow> errors_Is e t)"
proof -
  have "err \<noteq> None" unfolding assms by simp
  then obtain e where e: "err = Some e" by blast
  then have "errors_Is e t \<longleftrightarrow> errors_Is (Wrapf (Sentinel s) m) t \<or> (\<exists>z. x = Some z \<and> errors_Is z t)
      \<or> (\<exists>z. y = Some z \<and> errors_Is z t)" for t
    using errors_Join_Some [of "[Some (Wrapf (Sentinel s) m), x, y]" e t] assms by auto
  with e show ?thesis by auto
qed

lemma Finalize_cases:
  assumes "bbolt B dbv txv" "store_wf (dbv db)" "scopeID \<noteq> []" "scanID \<noteq> []"
    and "FinalizeCurrentScan B rng scopeID scanID completion db = ((changes, err), db')"
  shows "if Successful completion
    then (case PromoteCurrentScan B rng scopeID scanID completion db of
            (Inl e, d) \<Rightarrow> changes = [] \<and> err = Some e \<and> db' = d
          | (Inr cs, d) \<Rightarrow> changes = cs \<and> err = None \<and> db' = d)
    else changes = [] \<and> dbv db' \<in> {dbv db, discard scopeID scanID (dbv db)}
      \<and> (\<forall>sc. committed sc (dbv db') = committed sc (dbv db))
      \<and> (\<exists>e. err = Some e \<and> errors_Is e ErrScanIncomplete
          \<and> (\<forall>x t. comp_Err completion = Some x \<and> errors_Is x t \<longrightarrow> errors_Is e t))
      \<and> (schema_ok (dbv db) \<and> storage_ok B (discardCurrentScan_tx B scopeID scanID) db
          \<longrightarrow> observed scopeID scanID (dbv db') = Map.empty)"
proof (cases "Successful completion")
  case True
  then show ?thesis
    using assms(3-5)
    by (auto simp: FinalizeCurrentScan_def split: prod.splits sum.splits)
next
  case False
  obtain d db1 where d: "discardCurrentScan B scopeID scanID db = (d, db1)" by force
  have fin: "changes = []" "db' = db1"
    "err = errors_Join [Some (Wrapf (Sentinel ErrScanIncomplete) ''status''), comp_Err completion, error_of d]"
    using False assms(3-5) d by (auto simp: FinalizeCurrentScan_def Let_def)
  have store: "dbv db' \<in> {dbv db, discard scopeID scanID (dbv db)}"
    "schema_ok (dbv db) \<and> storage_ok B (discardCurrentScan_tx B scopeID scanID) db \<Longrightarrow>
       dbv db' = discard scopeID scanID (dbv db)"
    using bbolt.discard_result [OF assms(1,2) d] fin(2) by (auto split: sum.splits)
  have "discard scopeID scanID (dbv db) (baseline_path sc @ q) = dbv db (baseline_path sc @ q)" for sc q
    by (simp add: discard_def drop_tree_apply path_defs layout_defs)
  from this [of _ "[]"] this [of _ "[_]"]
  have "committed sc (discard scopeID scanID (dbv db)) = committed sc (dbv db)" for sc
    by (simp add: committed_def records_at_def)
  then have "committed sc (dbv db') = committed sc (dbv db)" for sc using store(1) by auto
  moreover have "observed scopeID scanID (discard scopeID scanID (dbv db)) = Map.empty"
    using assms(2) by (rule observed_discard)
  ultimately show ?thesis
    using False fin store errors_Join_incomplete [OF fin(3)] by simp
qed

text \<open>C6: finalisation. An unsuccessful scan is never compared with the baseline:
  \<^verbatim>\<open>FinalizeCurrentScan\<close> reports no change, answers an error that is \<^verbatim>\<open>ErrScanIncomplete\<close> and that
  also is whatever the scan failed with, keeps every committed baseline and every other scan, and
  when the store accepts the write removes the observations of the scan. A successful scan is
  promoted.\<close>
theorem FinalizeCurrentScan_incomplete:
  assumes "bbolt B dbv txv" "store_wf (dbv db)" "scopeID \<noteq> []" "scanID \<noteq> []"
    and "FinalizeCurrentScan B rng scopeID scanID completion db = ((changes, err), db')"
  shows "if Successful completion
    then (case PromoteCurrentScan B rng scopeID scanID completion db of
            (Inl e, d) \<Rightarrow> changes = [] \<and> err = Some e \<and> db' = d
          | (Inr cs, d) \<Rightarrow> changes = cs \<and> err = None \<and> db' = d)
    else changes = [] \<and> dbv db' \<in> {dbv db, discard scopeID scanID (dbv db)}
      \<and> (\<forall>sc. committed sc (dbv db') = committed sc (dbv db))
      \<and> (\<exists>e. err = Some e \<and> errors_Is e ErrScanIncomplete
          \<and> (\<forall>x t. comp_Err completion = Some x \<and> errors_Is x t \<longrightarrow> errors_Is e t))
      \<and> (schema_ok (dbv db) \<and> storage_ok B (discardCurrentScan_tx B scopeID scanID) db
          \<longrightarrow> observed scopeID scanID (dbv db') = Map.empty)"
  using assms by (rule Finalize_cases)

section \<open>A sample store\<close>

text \<open>A store with one scan that holds one observation.\<close>

definition sample_store :: store where
  "sample_store = saved_store ''s'' ''a'' sample_key (marshal_record sample_record)
     (fresh_store sample_time)"

lemma sample_key_length: "sample_key \<noteq> []" "length sample_key = 64"
  using ServiceIdentity_Key_shape [OF sample_Key] by auto

lemma sample_store_wf: "store_wf sample_store"
proof -
  have "SaveCurrentService_tx (spec_bolt l) ''s'' ''a'' sample_key (marshal_record sample_record)
      (True, fresh_store sample_time) = Inr ((), (True, sample_store))" for l
    unfolding sample_store_def
    using sample_saveable sample_from_observation sample_key_length
    by (intro Save_spec) (auto simp: saveable_def maxKeySize_def)
  from wfT_store [OF wfT_Save this] store_wf_fresh show ?thesis by simp
qed

lemma sample_record_ok: "record_ok ''s'' cur sample_key sample_record"
  using recordFromObservation_Inr(2) [OF sample_from_observation, of cur]
  by (simp add: record_ok_def sample_identity_def)

lemma fresh_scope_empty: "fresh_store now (scope_path sc @ q) = None"
  by (simp add: fresh_store_def path_defs)

lemma sample_observed: "observed ''s'' ''a'' sample_store = [sample_key \<mapsto> sample_record]"
proof -
  have "records_at ''s'' True (fresh_store sample_time) (scan_path ''s'' ''a'') = Map.empty"
    by (simp add: records_at_def fresh_store_def path_defs fun_eq_iff)
  then show ?thesis
    using sample_record_ok unfolding record_ok_def
    by (simp add: observed_def sample_store_def records_at_saved stored_record_utf8)
qed

lemma sample_no_baseline: "sample_store (baseline_path sc) = None"
  using saved_store_frame(1) [of "''s''" "''a''" sample_key _ _ sc "[]"]
  by (simp add: sample_store_def fresh_store_def path_defs)

lemma sample_committed: "committed sc sample_store = Map.empty"
  by (simp add: committed_def sample_no_baseline)

lemma schema_ok_saved [simp]: "schema_ok (saved_store sc sn k v s) = schema_ok s"
  by (simp add: schema_ok_def saved_store_def path_defs)

lemma sample_reconcilable: "reconcilable ''s'' ''a'' sample_store"
proof -
  have "sample_store (scan_path ''s'' ''a'') = Some BBucket"
    by (simp add: sample_store_def saved_store_def with_scan_at_scan)
  moreover have "schema_ok sample_store"
    by (simp add: sample_store_def schema_ok_fresh)
  moreover have "children sample_store (scan_path ''s'' ''a'') = {sample_key}"
    unfolding sample_store_def children_saved
    by (simp add: children_def fresh_store_def path_defs)
  ultimately show ?thesis
    using sample_observed sample_no_baseline by (simp add: reconcilable_def records_valid_def observed_def)
qed

lemma sample_promotable: "promotable ''s'' ''a'' sample_store"
proof -
  have "merged Map.empty [sample_key \<mapsto> sample_record] = [sample_key \<mapsto> sample_record]"
    by (auto simp: merged_def fun_eq_iff)
  then show ?thesis
    using sample_key_length sample_payload_short sample_reconcilable sample_no_baseline
    by (simp add: promotable_def sample_observed sample_committed no_value_cases fits_def
        maxKeySize_def maxValueSize_def)
qed

text \<open>The first scan of a scope: the service is opened and committed.\<close>

lemma PromoteCurrentScan_atomic_witness:
  "committed ''s'' (snd (PromoteCurrentScan (spec_bolt (External ''name too long'')) sorted_ranges
      ''s'' ''a'' ok_completion sample_store)) = [sample_key \<mapsto> sample_record]"
proof -
  let ?B = "spec_bolt (External ''name too long'')"
  obtain r db' where r: "PromoteCurrentScan ?B sorted_ranges ''s'' ''a'' ok_completion sample_store
      = (r, db')" by force
  show ?thesis
    using PromoteCurrentScan_atomic [OF spec_store.bbolt_axioms _ ranges_ok_sorted r]
      sample_store_wf sample_promotable r
    by (auto simp: sample_committed sample_observed merged_def split: sum.splits)
qed

lemma sample_promotes:
  "\<exists>db'. PromoteCurrentScan (spec_bolt l) sorted_ranges ''s'' ''a'' ok_completion sample_store
     = (Inr (reconcileServiceRecords sorted_ranges Map.empty [sample_key \<mapsto> sample_record]), db')"
proof -
  obtain r db' where r: "PromoteCurrentScan (spec_bolt l) sorted_ranges ''s'' ''a'' ok_completion
      sample_store = (r, db')" by force
  then show ?thesis
    using spec_store.Promote_result [OF _ ranges_ok_sorted r] sample_store_wf sample_promotable
    by (auto simp: sample_committed sample_observed split: sum.splits)
qed

lemma PromoteCurrentScan_changes_complete_witness:
  "\<exists>changes db'. PromoteCurrentScan (spec_bolt (External ''name too long'')) sorted_ranges
       ''s'' ''a'' ok_completion sample_store = (Inr changes, db')
     \<and> same_record (apply_changes Map.empty changes sample_key) (committed ''s'' db' sample_key)"
proof -
  let ?B = "spec_bolt (External ''name too long'')"
  obtain cs db' where r: "PromoteCurrentScan ?B sorted_ranges ''s'' ''a'' ok_completion sample_store
      = (Inr cs, db')" using sample_promotes by blast
  show ?thesis
    using PromoteCurrentScan_changes_complete [OF spec_store.bbolt_axioms _ ranges_ok_sorted r]
      sample_store_wf r by (auto simp: sample_committed)
qed

definition cancelled_completion :: scan_completion where
  "cancelled_completion = \<lparr>comp_Status = ScanStatusCancelled, comp_Err = Some (Sentinel ContextCanceled)\<rparr>"

lemma FinalizeCurrentScan_incomplete_witness:
  "let out = FinalizeCurrentScan (spec_bolt (External ''name too long'')) sorted_ranges ''s'' ''a''
      cancelled_completion sample_store
   in fst (fst out) = [] \<and> observed ''s'' ''a'' (snd out) = Map.empty"
proof -
  let ?B = "spec_bolt (External ''name too long'')"
  obtain cs err db' where r: "FinalizeCurrentScan ?B sorted_ranges ''s'' ''a'' cancelled_completion
      sample_store = ((cs, err), db')" by (metis prod.exhaust)
  have "\<not> Successful cancelled_completion"
    by (simp add: Successful_def cancelled_completion_def)
  then show ?thesis
    using FinalizeCurrentScan_incomplete [OF spec_store.bbolt_axioms _ _ _ r] r
      sample_store_wf sample_reconcilable by (simp add: reconcilable_def)
qed
end
