(* ===== verification/Steps.thy ===== *)
theory Steps
  imports Prelude
begin

text \<open>
  Step relations of concurrent code, as two contracts. In the first every step lowers a weight, so runs
  are bounded. In the second, besides, a state that keeps an invariant and is not final has a step, so a
  run can only stop at a final state, and from everywhere some run gets there. The loop of
  \<^verbatim>\<open>executeOwnedRuntimeScan\<close> and the goroutines of \<^verbatim>\<open>scanner.Run\<close> are interpretations.
\<close>

locale measured_steps =
  fixes step :: "'s \<Rightarrow> 's \<Rightarrow> bool" and weight :: "'s \<Rightarrow> nat"
  assumes weight_decreases: "step s s' \<Longrightarrow> weight s' < weight s"
begin

lemma steps_bounded: "(step ^^ n) s s' \<Longrightarrow> n + weight s' \<le> weight s"
proof (induction n arbitrary: s')
  case (Suc n)
  then obtain t where "(step ^^ n) s t" "step t s'" by auto
  with Suc.IH [of t] weight_decreases [of t s'] show ?case by simp
qed simp

lemma no_endless_run: "\<exists>i. \<not> step (f i) (f (Suc i))"
proof (rule ccontr)
  assume "\<not> ?thesis"
  then have "(step ^^ n) (f 0) (f n)" for n by (induction n) auto
  from steps_bounded [OF this, of "Suc (weight (f 0))"] show False by simp
qed

end

locale progressing_steps = measured_steps +
  fixes inv :: "'s \<Rightarrow> bool" and final :: "'s \<Rightarrow> bool"
  assumes inv_step: "inv s \<Longrightarrow> step s s' \<Longrightarrow> inv s'"
    and progress: "inv s \<Longrightarrow> \<not> final s \<Longrightarrow> \<exists>s'. step s s'"
begin

lemma inv_steps: "step\<^sup>*\<^sup>* s s' \<Longrightarrow> inv s \<Longrightarrow> inv s'"
  by (induction rule: rtranclp_induct) (auto intro: inv_step)

lemma stops_only_at_final: "step\<^sup>*\<^sup>* s s' \<Longrightarrow> inv s \<Longrightarrow> (\<And>t. \<not> step s' t) \<Longrightarrow> final s'"
  using inv_steps progress by blast

lemma some_run_ends: "inv s \<Longrightarrow> \<exists>s'. step\<^sup>*\<^sup>* s s' \<and> final s'"
proof (induction "weight s" arbitrary: s rule: less_induct)
  case less
  show ?case
  proof (cases "final s")
    case False
    with progress less.prems obtain t where t: "step s t" by blast
    with less.hyps [OF weight_decreases [OF t] inv_step [OF less.prems t]] show ?thesis
      by (blast intro: converse_rtranclp_into_rtranclp)
  qed blast
qed

end

end
