(* ===== verification/Execution.thy ===== *)
theory Execution
  imports Reservation Promotion Steps
begin

text \<open>
  \<^verbatim>\<open>cmd/tcprecon/runtime_observation.go\<close> and \<^verbatim>\<open>runtime_execution.go\<close>: the loop that persists the
  results of a scan while it waits for the completion of the scanner, and what follows it.

  The loop selects on two channels. A run is given by what they deliver - \<open>results\<close>, the results in
  the order they arrive before the channel is closed, and \<open>arrival\<close>, the completion or \<^const>\<open>None\<close>
  when its channel is closed empty - and by how the deliveries interleave: \<open>pick n\<close> says that the
  \<open>n\<close>-th turn serves the results when both are possible. The step relation leaves the choice open.
\<close>

section \<open>Persisting an observation\<close>

definition newRuntimeObservationPersisterWith ::
  "(string \<Rightarrow> string \<Rightarrow> service_identity \<Rightarrow> service_observation \<Rightarrow> 'db \<Rightarrow> (error + unit) \<times> 'db)
     \<Rightarrow> owned_scan \<Rightarrow> scan_result \<Rightarrow> 'db \<Rightarrow> error option \<times> 'db" where
  "newRuntimeObservationPersisterWith save owned result db =
     (let scopeID = owned_ScopeID owned;
          scanID = owned_ScanID owned;
          identity = \<lparr>id_ScopeID = scopeID, id_IP = sr_TargetIP result, id_Port = sr_Port result,
                      id_Protocol = sr_Protocol result\<rparr>;
          observation = \<lparr>obs_Banner = sr_Banner result, obs_OSHint = sr_OSHint result,
                         obs_CertSubject = sr_CertSubject result,
                         obs_CertIssuer = sr_CertIssuer result, obs_SANs = sr_SANs result\<rparr>
      in case save scopeID scanID identity observation db of (r, db') \<Rightarrow> (error_of r, db'))"

definition newRuntimeObservationPersister ::
  "('db, 'tx) bolt \<Rightarrow> owned_scan \<Rightarrow> scan_result \<Rightarrow> 'db \<Rightarrow> error option \<times> 'db" where
  "newRuntimeObservationPersister B owned =
     newRuntimeObservationPersisterWith (SaveCurrentService B) owned"

section \<open>The loop\<close>

record exec_state =
  ex_openPorts :: int
  ex_first :: "error option"
  ex_quiesced :: bool
  ex_received :: bool
  ex_completion :: scan_completion

definition exec_init :: exec_state where
  "exec_init = \<lparr>ex_openPorts = 0, ex_first = None, ex_quiesced = False, ex_received = False,
     ex_completion = \<lparr>comp_Status = [], comp_Err = None\<rparr>\<rparr>"

definition take_result :: "scan_result \<Rightarrow> error option \<Rightarrow> exec_state \<Rightarrow> exec_state" where
  "take_result result err st =
     st\<lparr>ex_openPorts := ex_openPorts st + (if sr_State result = ''OPEN'' then 1 else 0),
        ex_first := (if err \<noteq> None \<and> ex_first st = None then err else ex_first st)\<rparr>"

definition arrived :: "scan_completion option \<Rightarrow> scan_completion" where
  "arrived arrival =
     (case arrival of
        Some completion \<Rightarrow> completion
      | None \<Rightarrow> \<lparr>comp_Status = ScanStatusWorkerFailed, comp_Err = Some (Sentinel ErrScanCompletionMissing)\<rparr>)"

definition take_completion :: "scan_completion option \<Rightarrow> exec_state \<Rightarrow> exec_state" where
  "take_completion arrival st = st\<lparr>ex_completion := arrived arrival, ex_received := True\<rparr>"

type_synonym 'db exec_config = "scan_result list \<times> exec_state \<times> 'db"

definition exec_done :: "'db exec_config \<Rightarrow> bool" where
  "exec_done c = (case c of (rs, st, db) \<Rightarrow> ex_quiesced st \<and> ex_received st)"

text \<open>One turn of the loop, whichever channel is served.\<close>

inductive exec_step ::
  "(scan_result \<Rightarrow> 'db \<Rightarrow> error option \<times> 'db) \<Rightarrow> scan_completion option
     \<Rightarrow> 'db exec_config \<Rightarrow> 'db exec_config \<Rightarrow> bool"
  for persist arrival where
  step_result:
    "\<not> ex_quiesced st \<Longrightarrow> persist result db = (err, db')
     \<Longrightarrow> exec_step persist arrival (result # rs, st, db) (rs, take_result result err st, db')"
| step_closed:
    "\<not> ex_quiesced st
     \<Longrightarrow> exec_step persist arrival ([], st, db) ([], st\<lparr>ex_quiesced := True\<rparr>, db)"
| step_completion:
    "\<not> ex_received st
     \<Longrightarrow> exec_step persist arrival (rs, st, db) (rs, take_completion arrival st, db)"

inductive_cases exec_stepE: "exec_step persist arrival (rs, st, db) c'"

text \<open>The loop as a program, for a given interleaving.\<close>

definition exec_measure :: "'db exec_config \<Rightarrow> nat" where
  "exec_measure c =
     (case c of (rs, st, db) \<Rightarrow> (if ex_quiesced st then 0 else Suc (length rs))
        + (if ex_received st then 0 else 1))"

function exec_loop ::
  "(scan_result \<Rightarrow> 'db \<Rightarrow> error option \<times> 'db) \<Rightarrow> scan_completion option \<Rightarrow> (nat \<Rightarrow> bool) \<Rightarrow> nat
     \<Rightarrow> 'db exec_config \<Rightarrow> exec_state \<times> 'db" where
  "exec_loop persist arrival pick n (rs, st, db) =
     (if ex_quiesced st \<and> ex_received st then (st, db)
      else if \<not> ex_quiesced st \<and> (ex_received st \<or> pick n) then
        (case rs of
           [] \<Rightarrow> exec_loop persist arrival pick (Suc n) ([], st\<lparr>ex_quiesced := True\<rparr>, db)
         | result # rs' \<Rightarrow>
             (case persist result db of (err, db') \<Rightarrow>
                exec_loop persist arrival pick (Suc n) (rs', take_result result err st, db')))
      else exec_loop persist arrival pick (Suc n) (rs, take_completion arrival st, db))"
  by pat_completeness auto
termination
  by (relation "measure (\<lambda>(persist, arrival, pick, n, c). exec_measure c)")
    (auto simp: exec_measure_def take_result_def take_completion_def)

declare exec_loop.simps [simp del]

section \<open>The execution of a reserved scan\<close>

record runtime_execution =
  rx_OpenPorts :: int
  rx_Completion :: scan_completion
  rx_Changes :: "service_change list"
  rx_Err :: "error option"

type_synonym 'db finalizer =
  "string \<Rightarrow> string \<Rightarrow> scan_completion \<Rightarrow> 'db \<Rightarrow> (service_change list \<times> error option) \<times> 'db"

definition executeOwnedRuntimeScan ::
  "spool_env \<Rightarrow> owned_scan \<Rightarrow> (nat \<Rightarrow> bool) \<Rightarrow> scan_result list \<Rightarrow> scan_completion option
     \<Rightarrow> (scan_result \<Rightarrow> 'db \<Rightarrow> error option \<times> 'db) \<Rightarrow> 'db finalizer \<Rightarrow> 'db
     \<Rightarrow> (runtime_execution \<times> effect list) \<times> 'db" where
  "executeOwnedRuntimeScan env owned pick results arrival persist finalize db =
     (case exec_loop persist arrival pick 0 (results, exec_init, db) of (st, db1) \<Rightarrow>
       let finalCompletion = finalizeScanCompletion (ex_completion st) (ex_first st) in
       (case finalize (owned_ScopeID owned) (owned_ScanID owned) finalCompletion db1 of
         ((changes, finalizationErr), db2) \<Rightarrow>
           (case owned_Close env owned of (cleanupErr, _, effects) \<Rightarrow>
             let authoritativeCompletion =
               (if finalizationErr \<noteq> None then finalizeScanCompletion finalCompletion finalizationErr
                else finalCompletion)
             in ((\<lparr>rx_OpenPorts = ex_openPorts st, rx_Completion = authoritativeCompletion,
                   rx_Changes = changes,
                   rx_Err = errors_Join [comp_Err authoritativeCompletion, cleanupErr]\<rparr>, effects),
                 db2))))"

section \<open>Every interleaving ends in the same state\<close>

text \<open>The reference: the results one after the other. The first error is kept.\<close>

fun persist_all ::
  "(scan_result \<Rightarrow> 'db \<Rightarrow> error option \<times> 'db) \<Rightarrow> scan_result list \<Rightarrow> error option \<times> int \<times> 'db
     \<Rightarrow> error option \<times> int \<times> 'db" where
  "persist_all persist [] acc = acc"
| "persist_all persist (result # rs) (first, n, db) =
     (case persist result db of (err, db') \<Rightarrow>
        persist_all persist rs
          (if first = None then err else first,
           n + (if sr_State result = ''OPEN'' then 1 else 0), db'))"

text \<open>The invariant of the loop: what is still to come, done on top of what has been done, is the
  reference.\<close>

definition exec_inv ::
  "(scan_result \<Rightarrow> 'db \<Rightarrow> error option \<times> 'db) \<Rightarrow> scan_completion option \<Rightarrow> scan_result list \<Rightarrow> 'db
     \<Rightarrow> 'db exec_config \<Rightarrow> bool" where
  "exec_inv persist arrival results db0 c =
     (case c of (rs, st, db) \<Rightarrow>
        persist_all persist rs (ex_first st, ex_openPorts st, db)
          = persist_all persist results (None, 0, db0)
        \<and> (ex_quiesced st \<longrightarrow> rs = [])
        \<and> (ex_received st \<longrightarrow> ex_completion st = arrived arrival))"

lemma exec_inv_init: "exec_inv persist arrival results db (results, exec_init, db)"
  by (simp add: exec_inv_def exec_init_def)

lemma exec_inv_step:
  "exec_step persist arrival c c' \<Longrightarrow> exec_inv persist arrival results db0 c
     \<Longrightarrow> exec_inv persist arrival results db0 c'"
proof (induction rule: exec_step.induct)
  case (step_result st result db err db' rs)
  have "(if err \<noteq> None \<and> ex_first st = None then err else ex_first st)
      = (if ex_first st = None then err else ex_first st)" by auto
  with step_result show ?case by (simp add: exec_inv_def take_result_def)
qed (auto simp: exec_inv_def take_completion_def)

lemma exec_inv_done:
  assumes "exec_inv persist arrival results db0 (rs, st, db)" "exec_done (rs, st, db)"
  shows "(ex_first st, ex_openPorts st, db) = persist_all persist results (None, 0, db0)
    \<and> ex_completion st = arrived arrival"
  using assms by (cases rs) (auto simp: exec_inv_def exec_done_def)

lemma exec_step_measure:
  "exec_step persist arrival c c' \<Longrightarrow> exec_measure c' < exec_measure c"
  by (induction rule: exec_step.induct)
    (auto simp: exec_measure_def take_result_def take_completion_def)

lemma exec_progress: "\<not> exec_done c \<Longrightarrow> \<exists>c'. exec_step persist arrival c c'"
proof -
  assume nd: "\<not> exec_done c"
  obtain rs st db where c: "c = (rs, st, db)" by (metis prod.exhaust)
  show ?thesis
  proof (cases "ex_received st")
    case False
    then show ?thesis unfolding c by (intro exI) (rule step_completion)
  next
    case True
    then have nq: "\<not> ex_quiesced st" using nd c by (simp add: exec_done_def)
    show ?thesis
    proof (cases rs)
      case Nil
      show ?thesis unfolding c Nil by (intro exI) (rule step_closed, fact)
    next
      case (Cons r rs')
      obtain e db' where p: "persist r db = (e, db')" by force
      show ?thesis unfolding c Cons by (intro exI) (rule step_result, fact, rule p)
    qed
  qed
qed

interpretation exec_run: progressing_steps "exec_step persist arrival" exec_measure
    "exec_inv persist arrival results db0" exec_done
  by unfold_locales (blast intro: exec_step_measure exec_inv_step exec_progress)+

text \<open>The program is one of the runs of the relation.\<close>

lemma exec_loop_steps:
  assumes "exec_loop persist arrival pick n (rs, st, db) = (st', db')"
  shows "\<exists>rs'. (exec_step persist arrival)\<^sup>*\<^sup>* (rs, st, db) (rs', st', db') \<and> exec_done (rs', st', db')"
  using assms
proof (induction persist arrival pick n "(rs, st, db)" arbitrary: rs st db rule: exec_loop.induct)
  case (1 persist arrival pick n rs st db)
  show ?case
  proof (cases "ex_quiesced st \<and> ex_received st")
    case True
    with 1(4) show ?thesis by (auto simp: exec_loop.simps exec_done_def)
  next
    case more: False
    show ?thesis
    proof (cases "\<not> ex_quiesced st \<and> (ex_received st \<or> pick n)")
      case serve: True
      show ?thesis
      proof (cases rs)
        case Nil
        have "exec_loop persist arrival pick (Suc n) ([], st\<lparr>ex_quiesced := True\<rparr>, db) = (st', db')"
          using 1(4) more serve Nil by (simp add: exec_loop.simps [of _ _ _ n])
        from 1(1) [OF more serve Nil this] obtain rs1
          where rs1: "(exec_step persist arrival)\<^sup>*\<^sup>* ([], st\<lparr>ex_quiesced := True\<rparr>, db) (rs1, st', db')"
            "exec_done (rs1, st', db')" by blast
        have "exec_step persist arrival (rs, st, db) ([], st\<lparr>ex_quiesced := True\<rparr>, db)"
          unfolding Nil using serve by (intro step_closed) simp
        from converse_rtranclp_into_rtranclp [OF this rs1(1)] rs1(2) show ?thesis by blast
      next
        case (Cons r rs')
        obtain e db1 where p: "persist r db = (e, db1)" by force
        have "exec_loop persist arrival pick (Suc n) (rs', take_result r e st, db1) = (st', db')"
          using 1(4) more serve Cons p by (simp add: exec_loop.simps [of _ _ _ n])
        from 1(2) [OF more serve Cons p [symmetric] this] obtain rs1
          where rs1: "(exec_step persist arrival)\<^sup>*\<^sup>* (rs', take_result r e st, db1) (rs1, st', db')"
            "exec_done (rs1, st', db')" by blast
        have "exec_step persist arrival (rs, st, db) (rs', take_result r e st, db1)"
          unfolding Cons using serve p by (intro step_result) simp_all
        from converse_rtranclp_into_rtranclp [OF this rs1(1)] rs1(2) show ?thesis by blast
      qed
    next
      case False
      then have "\<not> ex_received st" using more by auto
      moreover have "exec_loop persist arrival pick (Suc n) (rs, take_completion arrival st, db) = (st', db')"
        using 1(4) more False by (simp add: exec_loop.simps [of _ _ _ n])
      ultimately obtain rs1
        where rs1: "(exec_step persist arrival)\<^sup>*\<^sup>* (rs, take_completion arrival st, db) (rs1, st', db')"
          "exec_done (rs1, st', db')" and "\<not> ex_received st"
        using 1(3) [OF more False] by blast
      then have "exec_step persist arrival (rs, st, db) (rs, take_completion arrival st, db)"
        by (intro step_completion)
      from converse_rtranclp_into_rtranclp [OF this rs1(1)] rs1(2) show ?thesis by blast
    qed
  qed
qed

lemma exec_loop_result:
  assumes "exec_loop persist arrival pick 0 (results, exec_init, db) = (st, db')"
  shows "(ex_first st, ex_openPorts st, db') = persist_all persist results (None, 0, db)
    \<and> ex_completion st = arrived arrival"
proof -
  obtain rs where "(exec_step persist arrival)\<^sup>*\<^sup>* (results, exec_init, db) (rs, st, db')"
    "exec_done (rs, st, db')" using exec_loop_steps [OF assms] by blast
  then show ?thesis by (intro exec_inv_done [OF exec_run.inv_steps [OF _ exec_inv_init]])
qed

text \<open>C12: the loop. However the results and the completion of the scanner interleave, the loop ends, after a
  bounded number of turns, it stops only when both channels have been served, and all its runs end
  alike: every result has been handed to the persister once and in the order of arrival, the error
  kept is the first one, the completion is the one received, and a completion that never came counts
  as a worker failure.\<close>
theorem exec_loop_confluent:
  assumes run: "(exec_step persist arrival)\<^sup>*\<^sup>* (results, exec_init, db) c"
  shows "(exec_done c \<longrightarrow> (case c of (rs, st, db') \<Rightarrow>
        (ex_first st, ex_openPorts st, db') = persist_all persist results (None, 0, db)
        \<and> ex_completion st = arrived arrival))
    \<and> ((\<forall>c'. \<not> exec_step persist arrival c c') \<longrightarrow> exec_done c)
    \<and> (\<forall>n c'. (exec_step persist arrival ^^ n) c c' \<longrightarrow> n \<le> exec_measure c)
    \<and> (\<forall>pick. (\<lambda>(st, db'). ((ex_first st, ex_openPorts st, db'), ex_completion st))
            (exec_loop persist arrival pick 0 (results, exec_init, db))
          = (persist_all persist results (None, 0, db), arrived arrival))"
proof (intro conjI allI impI)
  show "(\<lambda>(st, db'). ((ex_first st, ex_openPorts st, db'), ex_completion st))
            (exec_loop persist arrival pick 0 (results, exec_init, db))
          = (persist_all persist results (None, 0, db), arrived arrival)" for pick
    using exec_loop_result [of persist arrival pick results db]
    by (cases "exec_loop persist arrival pick 0 (results, exec_init, db)") simp
  show "case c of (rs, st, db') \<Rightarrow>
        (ex_first st, ex_openPorts st, db') = persist_all persist results (None, 0, db)
        \<and> ex_completion st = arrived arrival" if "exec_done c"
    using exec_inv_done [of persist arrival results db] that exec_run.inv_steps [OF run exec_inv_init]
    by (cases c) (simp del: persist_all.simps)
  show "exec_done c" if "\<forall>c'. \<not> exec_step persist arrival c c'"
    using exec_run.stops_only_at_final [OF run exec_inv_init] that by blast
  show "n \<le> exec_measure c" if "(exec_step persist arrival ^^ n) c c'" for n c'
    using exec_run.steps_bounded [OF that] by simp
qed

lemma exec_loop_confluent_witness:
  "snd (exec_loop (\<lambda>r db. (None, Suc db)) None (\<lambda>n. n = 1) 0 ([zero_scan_result], exec_init, 0)) = 1"
proof -
  let ?p = "\<lambda>(r :: scan_result) db. (None :: error option, Suc db)"
  have "(exec_step ?p None)\<^sup>*\<^sup>* ([zero_scan_result], exec_init, 0) ([zero_scan_result], exec_init, 0)"
    by simp
  from exec_loop_confluent [OF this]
  have "(\<lambda>(st, db'). ((ex_first st, ex_openPorts st, db'), ex_completion st))
      (exec_loop ?p None (\<lambda>n. n = 1) 0 ([zero_scan_result], exec_init, 0))
    = (persist_all ?p [zero_scan_result] (None, 0, 0), arrived None)" by blast
  then show ?thesis by (simp add: case_prod_beta)
qed

section \<open>The results in the state\<close>

definition result_record :: "string \<Rightarrow> scan_result \<Rightarrow> error + service_record \<times> string" where
  "result_record sc r =
     serviceRecordFromObservation
       \<lparr>id_ScopeID = sc, id_IP = sr_TargetIP r, id_Port = sr_Port r, id_Protocol = sr_Protocol r\<rparr>
       \<lparr>obs_Banner = sr_Banner r, obs_OSHint = sr_OSHint r, obs_CertSubject = sr_CertSubject r,
        obs_CertIssuer = sr_CertIssuer r, obs_SANs = sr_SANs r\<rparr>"

text \<open>The records of a list of results, the last result of a service winning, as the state holds them: with
  U+FFFD for what is not valid UTF-8.\<close>

fun observe_all :: "string \<Rightarrow> scan_result list \<Rightarrow> service_map \<Rightarrow> service_map" where
  "observe_all sc [] m = m"
| "observe_all sc (r # rs) m =
     observe_all sc rs (case result_record sc r of Inr (rec, k) \<Rightarrow> m(k \<mapsto> record_sanitize rec) | Inl _ \<Rightarrow> m)"

text \<open>The bucket of a scan holds a map of records, but for entries that a load would refuse.\<close>

definition holds_records :: "string \<Rightarrow> string \<Rightarrow> service_map \<Rightarrow> store \<Rightarrow> bool" where
  "holds_records sc sn m s \<longleftrightarrow>
     (\<forall>k. observed sc sn s k = m k
        \<or> observed sc sn s k = None \<and> s (scan_path sc sn @ [k]) \<noteq> None)"

lemma holds_records_saved:
  assumes "result_record sc r = Inr (rec, k)" "holds_records sc sn m s"
  shows "holds_records sc sn (m(k \<mapsto> record_sanitize rec)) (saved_store sc sn k (marshal_record rec) s)"
proof -
  have "validatePersistentServiceRecord sc k rec True = None"
    using recordFromObservation_Inr(2) [OF assms(1) [unfolded result_record_def], of True] by simp
  from records_at_saved [OF this, of sn s]
  have "observed sc sn (saved_store sc sn k (marshal_record rec) s)
      = (observed sc sn s)(k := stored_record sc k rec)" by (simp add: observed_def)
  with assms(2) show ?thesis
    by (auto simp: holds_records_def stored_record_def saved_store_def with_scan_at_scan)
qed

lemma holds_records_valid:
  "holds_records sc sn m s \<Longrightarrow> records_valid sc True s (scan_path sc sn) \<Longrightarrow> observed sc sn s = m"
  by (rule ext) (force simp: holds_records_def records_valid_def observed_def children_def)

definition same_baselines :: "store \<Rightarrow> store \<Rightarrow> bool" where
  "same_baselines s s' \<longleftrightarrow> (\<forall>sc q. s' (baseline_path sc @ q) = s (baseline_path sc @ q))"

lemma same_baselines_refl [simp]: "same_baselines s s"
  by (simp add: same_baselines_def)

lemma same_baselines_trans: "same_baselines s s' \<Longrightarrow> same_baselines s' s'' \<Longrightarrow> same_baselines s s''"
  by (simp add: same_baselines_def)

lemma same_baselines_committed:
  assumes "same_baselines s s'"
  shows "committed sc s' = committed sc s"
proof -
  have "s' (baseline_path sc) = s (baseline_path sc)" "s' (baseline_path sc @ [k]) = s (baseline_path sc @ [k])" for k
    using assms unfolding same_baselines_def by (metis append_Nil2)+
  then show ?thesis by (simp add: committed_def records_at_def)
qed

lemma persist_all_first: "fst (persist_all persist rs (Some e, n, db)) = Some e"
  by (induction rs arbitrary: n db) (auto split: prod.split)

context bbolt
begin

lemma persister_result:
  assumes "newRuntimeObservationPersister B owned r db = (err, db')"
  defines "sc \<equiv> owned_ScopeID owned" and "sn \<equiv> owned_ScanID owned"
  shows "store_wf (dbv db) \<longrightarrow> store_wf (dbv db')"
    "same_baselines (dbv db) (dbv db')"
    "err = None \<Longrightarrow> \<exists>rec k. result_record sc r = Inr (rec, k)
       \<and> dbv db' = saved_store sc sn k (marshal_record rec) (dbv db)"
proof -
  let ?i = "\<lparr>id_ScopeID = sc, id_IP = sr_TargetIP r, id_Port = sr_Port r, id_Protocol = sr_Protocol r\<rparr>"
  let ?o = "\<lparr>obs_Banner = sr_Banner r, obs_OSHint = sr_OSHint r, obs_CertSubject = sr_CertSubject r,
        obs_CertIssuer = sr_CertIssuer r, obs_SANs = sr_SANs r\<rparr>"
  obtain q where q: "SaveCurrentService B sc sn ?i ?o db = (q, db')" "err = error_of q"
    using assms(1) unfolding sc_def sn_def
    by (auto simp: newRuntimeObservationPersister_def newRuntimeObservationPersisterWith_def Let_def
        split: prod.splits)
  note save = Save_result [OF q(1)]
  show "store_wf (dbv db) \<longrightarrow> store_wf (dbv db')"
  proof (rule impI)
    assume wf: "store_wf (dbv db)"
    have "db' = db \<or> (\<exists>k v. db' = snd (db_Update B (SaveCurrentService_tx B sc sn k v) db))"
      using arg_cong [OF q(1), of snd]
      by (auto simp: SaveCurrentService_def split: if_splits sum.splits prod.splits)
    then show "store_wf (dbv db')" using wf Update_wf [OF sim_Save wfT_Save wf] by auto
  qed
  show "same_baselines (dbv db) (dbv db')"
  proof (cases q)
    case (Inl e)
    then show ?thesis using save by simp
  next
    case (Inr u)
    then obtain rec k where "dbv db' = saved_store sc sn k (marshal_record rec) (dbv db)"
      using save by auto
    then show ?thesis by (simp add: same_baselines_def saved_store_frame(1))
  qed
  assume "err = None"
  then obtain u where "q = Inr u" using q(2) by (cases q) auto
  with save show "\<exists>rec k. result_record sc r = Inr (rec, k)
       \<and> dbv db' = saved_store sc sn k (marshal_record rec) (dbv db)"
    by (auto simp: result_record_def)
qed

lemma persist_all_result:
  assumes "persist_all (newRuntimeObservationPersister B owned) rs (e, n, db) = (e', n', db')"
  shows "store_wf (dbv db) \<Longrightarrow> store_wf (dbv db')"
    "same_baselines (dbv db) (dbv db')"
    "e' = None \<Longrightarrow> holds_records (owned_ScopeID owned) (owned_ScanID owned) m (dbv db) \<Longrightarrow>
       holds_records (owned_ScopeID owned) (owned_ScanID owned) (observe_all (owned_ScopeID owned) rs m)
         (dbv db')"
    "e' = None \<Longrightarrow> \<forall>r\<in>set rs. \<exists>rec k. result_record (owned_ScopeID owned) r = Inr (rec, k)"
proof -
  let ?sc = "owned_ScopeID owned" and ?sn = "owned_ScanID owned"
  have "(store_wf (dbv db) \<longrightarrow> store_wf (dbv db')) \<and> same_baselines (dbv db) (dbv db')
    \<and> (e' = None \<longrightarrow> holds_records ?sc ?sn m (dbv db)
        \<longrightarrow> holds_records ?sc ?sn (observe_all ?sc rs m) (dbv db'))
    \<and> (e' = None \<longrightarrow> (\<forall>r\<in>set rs. \<exists>rec k. result_record ?sc r = Inr (rec, k)))"
    using assms
  proof (induction rs arbitrary: e n db m)
    case (Cons r rs)
    obtain e1 d where p: "newRuntimeObservationPersister B owned r db = (e1, d)" by force
    let ?e = "if e = None then e1 else e"
    have rest: "persist_all (newRuntimeObservationPersister B owned) rs
        (?e, n + (if sr_State r = ''OPEN'' then 1 else 0), d) = (e', n', db')"
      using Cons.prems p by simp
    note IH = Cons.IH [OF rest, of m] and step = persister_result [OF p]
    have none: "e1 = None" if "e' = None"
    proof (rule ccontr)
      assume "e1 \<noteq> None"
      then obtain x where x: "?e = Some x" by (cases e) auto
      have "fst (persist_all (newRuntimeObservationPersister B owned) rs (Some x, m, d)) = Some x" for m
        by (rule persist_all_first)
      from this [of "n + (if sr_State r = ''OPEN'' then 1 else 0)"]
      have "Some x = e'" unfolding rest [unfolded x] by simp
      with \<open>e' = None\<close> show False by simp
    qed
    have "same_baselines (dbv db) (dbv db')" using step(2) IH same_baselines_trans by blast
    moreover have "holds_records ?sc ?sn (observe_all ?sc (r # rs) m) (dbv db')"
      if ok: "e' = None" and m: "holds_records ?sc ?sn m (dbv db)"
    proof -
      obtain rec k where rk: "result_record ?sc r = Inr (rec, k)"
        "dbv d = saved_store ?sc ?sn k (marshal_record rec) (dbv db)"
        using step(3) none [OF ok] by blast
      with holds_records_saved [OF rk(1) m]
      have "holds_records ?sc ?sn (m(k \<mapsto> record_sanitize rec)) (dbv d)" by simp
      with Cons.IH [OF rest, of "m(k \<mapsto> record_sanitize rec)"] ok rk(1) show ?thesis by (simp add: fun_upd_def)
    qed
    moreover have "\<forall>r\<in>set (r # rs). \<exists>rec k. result_record ?sc r = Inr (rec, k)" if "e' = None"
      using IH step(3) none that by auto
    ultimately show ?case using step(1) IH by blast
  qed auto
  then show "store_wf (dbv db) \<Longrightarrow> store_wf (dbv db')"
    "same_baselines (dbv db) (dbv db')"
    "e' = None \<Longrightarrow> holds_records ?sc ?sn m (dbv db) \<Longrightarrow>
       holds_records ?sc ?sn (observe_all ?sc rs m) (dbv db')"
    "e' = None \<Longrightarrow> \<forall>r\<in>set rs. \<exists>rec k. result_record ?sc r = Inr (rec, k)"
    by auto
qed

end

section \<open>What an execution commits\<close>

lemma committed_promoted_other:
  assumes "sc' \<noteq> sc"
  shows "committed sc' (promoted sc sn nb s) = committed sc' s"
proof -
  have "promoted sc sn nb s (baseline_path sc' @ q) = s (baseline_path sc' @ q)" for q
    using assms by (intro promoted_frame) (simp_all add: path_defs)
  from this [of "[]"] this [of "[_]"] show ?thesis
    by (simp add: committed_def records_at_def)
qed

lemma execute_result:
  assumes "bbolt B dbv txv" "store_wf (dbv db)" "ranges_ok rng"
    and "owned_ScopeID owned \<noteq> []" "owned_ScanID owned \<noteq> []"
    and "ps_closed (owned_prepared owned) = None"
    and "executeOwnedRuntimeScan env owned pick results arrival
        (newRuntimeObservationPersister B owned) (FinalizeCurrentScan B rng) db
      = ((execution, effects), db')"
  shows "let sc = owned_ScopeID owned; sn = owned_ScanID owned in
    effects = [SpoolClose, SpoolRemove (prepared_Path (owned_prepared owned))]
    \<and> (\<forall>sc'. sc' \<noteq> sc \<longrightarrow> committed sc' (dbv db') = committed sc' (dbv db))
    \<and> (case persist_all (newRuntimeObservationPersister B owned) results (None, 0, db) of
          (first, opened, db1) \<Rightarrow>
            rx_OpenPorts execution = opened
            \<and> (Successful (rx_Completion execution) \<longleftrightarrow>
                first = None \<and> (\<exists>c. arrival = Some c \<and> Successful c
                  \<and> \<not> isl (fst (PromoteCurrentScan B rng sc sn c db1)))))
    \<and> (rx_Err execution = None \<longleftrightarrow>
          Successful (rx_Completion execution) \<and> sp_close env = None \<and> sp_remove env = None)
    \<and> (if Successful (rx_Completion execution) then
        (\<forall>r\<in>set results. \<exists>rec k. result_record sc r = Inr (rec, k))
        \<and> rx_Changes execution = reconcileServiceRecords rng (committed sc (dbv db))
            (observe_all sc results (observed sc sn (dbv db)))
        \<and> committed sc (dbv db') = merged (committed sc (dbv db))
            (observe_all sc results (observed sc sn (dbv db)))
      else rx_Changes execution = [] \<and> committed sc (dbv db') = committed sc (dbv db))"
proof -
  let ?sc = "owned_ScopeID owned" and ?sn = "owned_ScanID owned"
  let ?p = "newRuntimeObservationPersister B owned"
  obtain st db1 where loop: "exec_loop ?p arrival pick 0 (results, exec_init, db) = (st, db1)" by force
  note ref = exec_loop_result [OF loop]
  then have all: "persist_all ?p results (None, 0, db) = (ex_first st, ex_openPorts st, db1)"
    and comp: "ex_completion st = arrived arrival" by auto
  note persisted = bbolt.persist_all_result [OF assms(1) all]
  have base1: "committed sc (dbv db1) = committed sc (dbv db)" for sc
    using persisted(2) by (rule same_baselines_committed)
  have wf1: "store_wf (dbv db1)" using persisted(1) assms(2) by blast
  define final where "final = finalizeScanCompletion (arrived arrival) (ex_first st)"
  obtain changes ferr db2 where fin: "FinalizeCurrentScan B rng ?sc ?sn final db1 = ((changes, ferr), db2)"
    by (metis prod.exhaust)
  define auth where "auth = (if ferr \<noteq> None then finalizeScanCompletion final ferr else final)"
  have out: "rx_Completion execution = auth" "rx_Changes execution = changes" "db' = db2"
    "rx_OpenPorts execution = ex_openPorts st"
    "rx_Err execution = None \<longleftrightarrow> comp_Err auth = None \<and> sp_close env = None \<and> sp_remove env = None"
    "effects = [SpoolClose, SpoolRemove (prepared_Path (owned_prepared owned))]"
    using assms(6,7) loop comp fin
    by (auto simp: executeOwnedRuntimeScan_def owned_Close_def prepared_Close_def Let_def
        final_def auth_def prepared_Path_def)
  note cases = Finalize_cases [OF assms(1) wf1 assms(4,5) fin]
  have auth: "Successful auth \<longleftrightarrow> Successful final \<and> ferr = None" by (auto simp: auth_def)
  have final: "Successful final \<longleftrightarrow> ex_first st = None \<and> (\<exists>c. arrival = Some c \<and> Successful c)"
  proof -
    have "Successful (arrived arrival) \<longleftrightarrow> (\<exists>c. arrival = Some c \<and> Successful c)"
      by (cases arrival) (auto simp: arrived_def Successful_def)
    then show ?thesis by (auto simp: final_def)
  qed
  have err: "comp_Err auth = None \<longleftrightarrow> Successful auth"
  proof (cases "Successful final")
    case True
    then show ?thesis by (auto simp: auth_def finalizeScanCompletion_def Successful_def)
  next
    case False
    then have "ferr \<noteq> None" using cases by auto
    with False have "\<not> Successful auth" "comp_Err auth \<noteq> None"
      by (simp add: auth) (use False \<open>ferr \<noteq> None\<close> in \<open>auto simp: auth_def finalizeScanCompletion_def\<close>)
    then show ?thesis by simp
  qed
  obtain r d where r: "PromoteCurrentScan B rng ?sc ?sn final db1 = (r, d)" by force
  have prom: "Successful auth \<longleftrightarrow> Successful final \<and> \<not> isl r"
    using auth cases r by (cases r) auto
  have "final = c" if "ex_first st = None" "arrival = Some c" for c
    using that by (simp add: final_def finalizeScanCompletion_def arrived_def)
  then have succ: "Successful auth \<longleftrightarrow> ex_first st = None \<and> (\<exists>c. arrival = Some c \<and> Successful c
      \<and> \<not> isl (fst (PromoteCurrentScan B rng ?sc ?sn c db1)))"
    using prom final r by (metis fst_conv)
  have base: "if Successful auth then
      (\<forall>r\<in>set results. \<exists>rec k. result_record ?sc r = Inr (rec, k))
      \<and> changes = reconcileServiceRecords rng (committed ?sc (dbv db))
          (observe_all ?sc results (observed ?sc ?sn (dbv db)))
      \<and> committed ?sc (dbv db2) = merged (committed ?sc (dbv db))
          (observe_all ?sc results (observed ?sc ?sn (dbv db)))
      \<and> (\<forall>sc'. sc' \<noteq> ?sc \<longrightarrow> committed sc' (dbv db2) = committed sc' (dbv db))
    else changes = [] \<and> (\<forall>sc'. committed sc' (dbv db2) = committed sc' (dbv db))"
  proof (cases "Successful auth")
    case False
    then show ?thesis
      using cases r prom bbolt.Promote_result [OF assms(1) wf1 assms(3) r] base1
      by (cases "Successful final"; cases r) auto
  next
    case True
    then obtain chs where chs: "r = Inr chs" "Successful final" using prom by (cases r) auto
    let ?obs = "observed ?sc ?sn (dbv db1)"
    have c: "reconcilable ?sc ?sn (dbv db1)"
      "changes = reconcileServiceRecords rng (committed ?sc (dbv db1)) ?obs"
      "dbv db2 = promoted ?sc ?sn (merged (committed ?sc (dbv db1)) ?obs) (dbv db1)"
      using cases chs r bbolt.Promote_result [OF assms(1) wf1 assms(3) r] by auto
    have first: "ex_first st = None" using final chs(2) by simp
    have "holds_records ?sc ?sn (observed ?sc ?sn (dbv db)) (dbv db)" by (simp add: holds_records_def)
    from holds_records_valid [OF persisted(3) [OF first this]] c(1)
    have obs: "?obs = observe_all ?sc results (observed ?sc ?sn (dbv db))" by (simp add: reconcilable_def)
    have "committed ?sc (dbv db2) = merged (committed ?sc (dbv db)) ?obs"
      using committed_promoted [of ?sc ?sn "dbv db1"] base1 [of ?sc] c(3) by simp
    moreover have "\<forall>sc'. sc' \<noteq> ?sc \<longrightarrow> committed sc' (dbv db2) = committed sc' (dbv db)"
      unfolding c(3) by (simp add: committed_promoted_other base1)
    ultimately show ?thesis using True c(2) base1 persisted(4) [OF first] obs by simp
  qed
  show ?thesis
    unfolding Let_def all prod.case out(1-4) using out(5,6) err succ base by (auto split: if_splits)
qed

text \<open>C11: a reserved scan is executed atomically with respect to the committed baselines. It is successful
  exactly when every result was persisted, the scanner reported success and the promotion succeeded. Then
  the changes are the comparison of the old baseline with the records of the results - the last one of a
  service winning, invalid UTF-8 replaced by U+FFFD - and the new baseline is the merge of the two; otherwise no
  change is reported and the baseline is what it was. Either way the temporary file of the targets is
  closed and removed and the other scopes keep their baselines. The execution has no error exactly when
  it was successful and that file could be closed and removed: a failed clean-up is reported, and
  does not undo the promotion.\<close>
theorem executeOwnedRuntimeScan_atomic:
  assumes "bbolt B dbv txv" "store_wf (dbv db)" "ranges_ok rng"
    and "owned_ScopeID owned \<noteq> []" "owned_ScanID owned \<noteq> []"
    and "ps_closed (owned_prepared owned) = None"
    and "executeOwnedRuntimeScan env owned pick results arrival
        (newRuntimeObservationPersister B owned) (FinalizeCurrentScan B rng) db
      = ((execution, effects), db')"
  shows "let sc = owned_ScopeID owned; sn = owned_ScanID owned in
    effects = [SpoolClose, SpoolRemove (prepared_Path (owned_prepared owned))]
    \<and> (\<forall>sc'. sc' \<noteq> sc \<longrightarrow> committed sc' (dbv db') = committed sc' (dbv db))
    \<and> (case persist_all (newRuntimeObservationPersister B owned) results (None, 0, db) of
          (first, opened, db1) \<Rightarrow>
            rx_OpenPorts execution = opened
            \<and> (Successful (rx_Completion execution) \<longleftrightarrow>
                first = None \<and> (\<exists>c. arrival = Some c \<and> Successful c
                  \<and> \<not> isl (fst (PromoteCurrentScan B rng sc sn c db1)))))
    \<and> (rx_Err execution = None \<longleftrightarrow>
          Successful (rx_Completion execution) \<and> sp_close env = None \<and> sp_remove env = None)
    \<and> (if Successful (rx_Completion execution) then
        (\<forall>r\<in>set results. \<exists>rec k. result_record sc r = Inr (rec, k))
        \<and> rx_Changes execution = reconcileServiceRecords rng (committed sc (dbv db))
            (observe_all sc results (observed sc sn (dbv db)))
        \<and> committed sc (dbv db') = merged (committed sc (dbv db))
            (observe_all sc results (observed sc sn (dbv db)))
      else rx_Changes execution = [] \<and> committed sc (dbv db') = committed sc (dbv db))"
  using assms by (rule execute_result)

definition sample_owned :: owned_scan where
  "sample_owned = \<lparr>owned_scopeID = ''s'', owned_scanID = ''a'',
     owned_prepared = \<lparr>ps_path = ''/tmp/x'', ps_content = [], ps_targets = [], ps_closed = None\<rparr>\<rparr>"

lemma executeOwnedRuntimeScan_atomic_witness:
  "\<exists>execution effects db'. executeOwnedRuntimeScan (sample_spool (\<lambda>k p. (length p, None))) sample_owned
     (\<lambda>n. even n) [] (Some ok_completion)
     (newRuntimeObservationPersister (spec_bolt (External ''x'')) sample_owned)
     (FinalizeCurrentScan (spec_bolt (External ''x'')) sorted_ranges) sample_store
       = ((execution, effects), db')
     \<and> committed ''s'' db' = [sample_key \<mapsto> sample_record]"
proof -
  let ?B = "spec_bolt (External ''x'')"
  let ?env = "sample_spool (\<lambda>k p. (length p, None))"
  let ?run = "executeOwnedRuntimeScan ?env sample_owned (\<lambda>n. even n) [] (Some ok_completion)
     (newRuntimeObservationPersister ?B sample_owned) (FinalizeCurrentScan ?B sorted_ranges) sample_store"
  obtain execution effects db' where run: "?run = ((execution, effects), db')" by (metis prod.exhaust)
  obtain st db1 where loop: "exec_loop (newRuntimeObservationPersister ?B sample_owned)
      (Some ok_completion) (\<lambda>n. even n) 0 ([], exec_init, sample_store) = (st, db1)" by force
  have st: "ex_first st = None" "db1 = sample_store" "ex_completion st = ok_completion"
    using exec_loop_result [OF loop] by (simp_all add: arrived_def)
  obtain d where "PromoteCurrentScan ?B sorted_ranges ''s'' ''a'' ok_completion sample_store
      = (Inr (reconcileServiceRecords sorted_ranges Map.empty [sample_key \<mapsto> sample_record]), d)"
    using sample_promotes by blast
  then have "Successful (rx_Completion execution)"
    using run loop st
    by (auto simp: executeOwnedRuntimeScan_def finalizeScanCompletion_def FinalizeCurrentScan_def
        owned_Close_def prepared_Close_def Let_def owned_ScopeID_def owned_ScanID_def sample_owned_def)
  then show ?thesis
    using executeOwnedRuntimeScan_atomic [OF spec_store.bbolt_axioms _ ranges_ok_sorted _ _ _ run]
      sample_store_wf run
    by (auto simp: owned_ScopeID_def owned_ScanID_def sample_owned_def Let_def sample_committed
        sample_observed merged_def)
qed
end
