(* ===== verification/Risk.thy ===== *)
theory Risk
  imports Models
begin

text \<open>
  \<^verbatim>\<open>internal/risk/policy.go\<close>: the deterministic risk score of an exposed service. The
  scoring steps of \<^verbatim>\<open>EvaluateRisk\<close> are kept in the order of the source; each returns the
  points and the reason codes it adds.
\<close>

section \<open>The policy\<close>

definition PolicyVersion :: string where
  "PolicyVersion = ''1.0''"

type_synonym contribution = "int \<times> string list"

definition add_contrib :: "contribution \<Rightarrow> contribution \<Rightarrow> contribution" where
  "add_contrib a b = (fst a + fst b, snd a @ snd b)"

definition port_exposure :: "int \<Rightarrow> contribution" where
  "port_exposure p =
     (if p \<in> {3306, 5432, 6379, 27017, 9200} then (40, [''exposed_datastore''])
      else if p \<in> {22, 3389} then (35, [''exposed_remote_admin''])
      else if p = 23 then (35, [''exposed_remote_admin''])
      else (0, []))"

definition cleartext_exposure :: "int \<Rightarrow> contribution" where
  "cleartext_exposure p =
     (if p = 21 \<or> p = 80 \<or> p = 23 then (15, [''cleartext_protocol'']) else (0, []))"

definition deprecated_versions :: "string list" where
  "deprecated_versions = [''TLS 1.0'', ''TLS 1.1'', ''TLSv1.0'', ''TLSv1.1'', ''SSLv3'']"

definition crypto_posture :: "string \<Rightarrow> bool \<Rightarrow> contribution" where
  "crypto_posture tls_version verified =
     (let tls_ver = strings_TrimSpace tls_version in
      if tls_ver \<noteq> [] then
        add_contrib
          (if tls_ver \<in> set deprecated_versions then (30, [''deprecated_tls'']) else (0, []))
          (if \<not> verified then (20, [''untrusted_cert'']) else (0, []))
      else (0, []))"

definition criticality_bias :: "(nat \<Rightarrow> nat) \<Rightarrow> string \<Rightarrow> contribution" where
  "criticality_bias uni criticality =
     (let c = strings_ToLower uni (strings_TrimSpace criticality) in
      if c = ''tier-0'' then (20, [''critical_asset_tier0''])
      else if c = ''tier-1'' then (10, [''high_asset_tier1''])
      else (0, []))"

definition severity_of :: "int \<Rightarrow> string" where
  "severity_of score =
     (if score = 0 then ''informational''
      else if score < 30 then ''low''
      else if score < 60 then ''medium''
      else if score < 85 then ''high''
      else ''critical'')"

text \<open>The nil result is \<^term>\<open>None\<close>; the first argument is the Unicode case table.\<close>

definition EvaluateRisk ::
  "(nat \<Rightarrow> nat) \<Rightarrow> string \<Rightarrow> scan_result option \<Rightarrow> string \<Rightarrow> risk_meta" where
  "EvaluateRisk uni event_type r criticality =
     (case (if event_type = ''service.closed'' then None else r) of
        None \<Rightarrow> \<lparr>risk_PolicyVersion = PolicyVersion, risk_Score = 0,
                 risk_Severity = ''informational'', risk_Reasons = []\<rparr>
      | Some r \<Rightarrow>
          (let (score, reasons) =
             add_contrib (port_exposure (sr_Port r))
               (add_contrib (cleartext_exposure (sr_Port r))
                 (add_contrib (crypto_posture (sr_TLSVersion r) (sr_CertVerified r))
                    (criticality_bias uni criticality)));
               score = (if 100 < score then 100 else score)
           in \<lparr>risk_PolicyVersion = PolicyVersion, risk_Score = score,
               risk_Severity = severity_of score, risk_Reasons = strings_Join reasons '',''\<rparr>))"

section \<open>Bounds and reasons\<close>

definition risk_weights :: "(string \<times> int) list" where
  "risk_weights =
     [(''exposed_datastore'', 40), (''exposed_remote_admin'', 35), (''cleartext_protocol'', 15),
      (''deprecated_tls'', 30), (''untrusted_cert'', 20), (''critical_asset_tier0'', 20),
      (''high_asset_tier1'', 10)]"

definition reason_weight :: "string \<Rightarrow> int" where
  "reason_weight r = (case map_of risk_weights r of None \<Rightarrow> 0 | Some w \<Rightarrow> w)"

definition explained :: "contribution \<Rightarrow> string set \<Rightarrow> bool" where
  "explained c from \<longleftrightarrow> distinct (snd c) \<and> set (snd c) \<subseteq> from
     \<and> fst c = sum_list (map reason_weight (snd c))"

lemma explained_zero [simp]: "explained (0, []) S"
  by (simp add: explained_def)

lemma explained_one: "r \<in> S \<Longrightarrow> w = reason_weight r \<Longrightarrow> explained (w, [r]) S"
  by (simp add: explained_def)

lemma explained_add:
  "explained a S \<Longrightarrow> explained b T \<Longrightarrow> S \<inter> T = {} \<Longrightarrow> explained (add_contrib a b) (S \<union> T)"
  by (auto simp: explained_def add_contrib_def)

lemma explained_port:
  "explained (port_exposure p) {''exposed_datastore'', ''exposed_remote_admin''}"
  by (auto simp: port_exposure_def reason_weight_def risk_weights_def intro!: explained_one)

lemma explained_cleartext: "explained (cleartext_exposure p) {''cleartext_protocol''}"
  by (auto simp: cleartext_exposure_def reason_weight_def risk_weights_def intro!: explained_one)

lemma explained_crypto:
  "explained (crypto_posture v ok) {''deprecated_tls'', ''untrusted_cert''}"
  by (auto simp: crypto_posture_def Let_def explained_def add_contrib_def reason_weight_def
      risk_weights_def)

lemma explained_criticality:
  "explained (criticality_bias uni c) {''critical_asset_tier0'', ''high_asset_tier1''}"
  by (auto simp: criticality_bias_def Let_def reason_weight_def risk_weights_def
      intro!: explained_one)

definition total_contribution ::
  "(nat \<Rightarrow> nat) \<Rightarrow> scan_result \<Rightarrow> string \<Rightarrow> contribution" where
  "total_contribution uni r criticality =
     add_contrib (port_exposure (sr_Port r))
       (add_contrib (cleartext_exposure (sr_Port r))
         (add_contrib (crypto_posture (sr_TLSVersion r) (sr_CertVerified r))
            (criticality_bias uni criticality)))"

lemma explained_total:
  "explained (total_contribution uni r c) (fst ` set risk_weights)"
proof -
  have "explained (total_contribution uni r c)
     ({''exposed_datastore'', ''exposed_remote_admin''} \<union> ({''cleartext_protocol''} \<union>
        ({''deprecated_tls'', ''untrusted_cert''} \<union> {''critical_asset_tier0'', ''high_asset_tier1''})))"
    unfolding total_contribution_def
    by (intro explained_add explained_port explained_cleartext explained_crypto
        explained_criticality) auto
  then show ?thesis by (rule back_subst [where P = "explained _"]) (auto simp: risk_weights_def)
qed

lemma reason_names:
  "r \<in> fst ` set risk_weights \<Longrightarrow> CHR '','' \<notin> set r \<and> r \<noteq> [] \<and> 0 \<le> reason_weight r"
  by (auto simp: risk_weights_def reason_weight_def)

text \<open>The reason codes of a risk record, read back from its delimited string.\<close>

definition reason_codes :: "risk_meta \<Rightarrow> string list" where
  "reason_codes m = filter (\<lambda>r. r \<noteq> []) (strings_Split (risk_Reasons m) CHR '','')"

lemma reason_codes_join:
  assumes "\<forall>r\<in>set rs. CHR '','' \<notin> set r \<and> r \<noteq> []"
  shows "filter (\<lambda>r. r \<noteq> []) (strings_Split (strings_Join rs '','') CHR '','') = rs"
proof (cases "rs = []")
  case False
  with assms show ?thesis by (simp add: strings_Split_Join filter_id_conv)
qed simp

lemma EvaluateRisk_active:
  "event_type \<noteq> ''service.closed'' \<Longrightarrow>
   EvaluateRisk uni event_type (Some r) c =
     (let s = min 100 (fst (total_contribution uni r c)) in
      \<lparr>risk_PolicyVersion = PolicyVersion, risk_Score = s, risk_Severity = severity_of s,
       risk_Reasons = strings_Join (snd (total_contribution uni r c)) '',''\<rparr>)"
  by (auto simp: EvaluateRisk_def total_contribution_def Let_def split: prod.splits)

lemma EvaluateRisk_inactive:
  "event_type = ''service.closed'' \<or> r = None \<Longrightarrow>
   EvaluateRisk uni event_type r c =
     \<lparr>risk_PolicyVersion = PolicyVersion, risk_Score = 0,
      risk_Severity = ''informational'', risk_Reasons = []\<rparr>"
  by (auto simp: EvaluateRisk_def)

text \<open>C27: the score of every risk record is explained by its reason codes. Splitting the
  delimited reason string gives distinct codes of the policy; the score is the sum of their
  weights capped at 100 (so it lies between 0 and 100), the severity is the band of the
  score, and a closed or absent service scores 0 with no reason.\<close>

theorem evaluate_risk_explained:
  fixes uni event_type r criticality
  defines "m \<equiv> EvaluateRisk uni event_type r criticality"
  shows "distinct (reason_codes m)
    \<and> set (reason_codes m) \<subseteq> fst ` set risk_weights
    \<and> risk_Score m = min 100 (sum_list (map reason_weight (reason_codes m)))
    \<and> 0 \<le> risk_Score m \<and> risk_Score m \<le> 100
    \<and> risk_Severity m = severity_of (risk_Score m)
    \<and> (event_type = ''service.closed'' \<longrightarrow> risk_Score m = 0 \<and> reason_codes m = [])"
proof (cases "event_type = ''service.closed'' \<or> r = None")
  case True
  then show ?thesis
    by (simp add: m_def EvaluateRisk_inactive reason_codes_def severity_of_def)
next
  case False
  then obtain r' where r: "r = Some r'" by auto
  let ?t = "total_contribution uni r' criticality"
  have e: "distinct (snd ?t)" "set (snd ?t) \<subseteq> fst ` set risk_weights"
    "fst ?t = sum_list (map reason_weight (snd ?t))"
    using explained_total [of uni r' criticality] by (auto simp: explained_def)
  have names: "\<forall>x\<in>set (snd ?t). CHR '','' \<notin> set x \<and> x \<noteq> [] \<and> 0 \<le> reason_weight x"
    using e(2) reason_names by blast
  have m: "m = \<lparr>risk_PolicyVersion = PolicyVersion, risk_Score = min 100 (fst ?t),
      risk_Severity = severity_of (min 100 (fst ?t)), risk_Reasons = strings_Join (snd ?t) '',''\<rparr>"
    using False r by (simp add: m_def EvaluateRisk_active Let_def)
  then have codes: "reason_codes m = snd ?t"
    using names by (simp add: reason_codes_def reason_codes_join)
  have "0 \<le> fst ?t" unfolding e(3) using names by (intro sum_list_nonneg) auto
  with m codes e names False show ?thesis by simp
qed

lemma evaluate_risk_explained_witness:
  "risk_Score (EvaluateRisk id ''service.closed'' (Some zero_scan_result) ''tier0'') = 0
   \<and> risk_Severity (EvaluateRisk id ''service.closed'' (Some zero_scan_result) ''tier0'')
       = severity_of 0"
  using evaluate_risk_explained [of id "''service.closed''" "Some zero_scan_result" "''tier0''"]
  by simp

end
