(* ===== verification/Enrichment.thy ===== *)
theory Enrichment
  imports GoJson NetAddr "HOL-Library.Multiset"
begin

text \<open>
  \<^verbatim>\<open>internal/enrichment/config.go\<close> and \<^verbatim>\<open>matcher.go\<close>: the asset rules of an inventory file and the
  choice of the most specific rule for an address. \<^verbatim>\<open>slices.SortFunc\<close> is not stable, so the order it
  leaves rules of equal length in is an argument.
\<close>

record asset_rule =
  rule_Prefix :: netprefix
  rule_Environment :: string
  rule_Criticality :: string
  rule_Owner :: string

record asset_context =
  ctx_Environment :: string
  ctx_Criticality :: string
  ctx_Owner :: string

record asset_rule_config =
  cfg_CIDR :: string
  cfg_Environment :: string
  cfg_Criticality :: string
  cfg_Owner :: string

section \<open>Loading rules\<close>

datatype config_field = CCIDR | CEnvironment | CCriticality | COwner

definition config_fields :: "(string \<times> config_field) list" where
  "config_fields =
     [(''cidr'', CCIDR), (''environment'', CEnvironment), (''criticality'', CCriticality),
      (''owner'', COwner)]"

definition zero_config :: asset_rule_config where
  "zero_config = \<lparr>cfg_CIDR = [], cfg_Environment = [], cfg_Criticality = [], cfg_Owner = []\<rparr>"

definition decode_config_field ::
  "config_field \<Rightarrow> json \<Rightarrow> asset_rule_config \<Rightarrow> asset_rule_config option" where
  "decode_config_field f j c =
     (case f of
        CCIDR \<Rightarrow> map_option (\<lambda>v. c\<lparr>cfg_CIDR := v\<rparr>) (decode_string j (cfg_CIDR c))
      | CEnvironment \<Rightarrow>
          map_option (\<lambda>v. c\<lparr>cfg_Environment := v\<rparr>) (decode_string j (cfg_Environment c))
      | CCriticality \<Rightarrow>
          map_option (\<lambda>v. c\<lparr>cfg_Criticality := v\<rparr>) (decode_string j (cfg_Criticality c))
      | COwner \<Rightarrow> map_option (\<lambda>v. c\<lparr>cfg_Owner := v\<rparr>) (decode_string j (cfg_Owner c)))"

text \<open>Members with other keys are skipped.\<close>

fun decode_config_members ::
  "(string \<times> json) list \<Rightarrow> asset_rule_config \<Rightarrow> asset_rule_config option" where
  "decode_config_members [] c = Some c"
| "decode_config_members ((k, j) # ms) c =
     Option.bind
       (case find_field config_fields k of None \<Rightarrow> Some c | Some f \<Rightarrow> decode_config_field f j c)
       (decode_config_members ms)"

definition decode_config :: "json \<Rightarrow> asset_rule_config option" where
  "decode_config j =
     (case j of
        JNull \<Rightarrow> Some zero_config
      | JObj ms \<Rightarrow> decode_config_members ms zero_config
      | _ \<Rightarrow> None)"

definition decode_configs :: "json \<Rightarrow> asset_rule_config list option" where
  "decode_configs j =
     (case j of
        JNull \<Rightarrow> Some []
      | JArr js \<Rightarrow> those (map decode_config js)
      | _ \<Rightarrow> None)"

definition normalize_label :: "string \<Rightarrow> string" where
  "normalize_label val =
     (let v = strings_TrimSpace val in if v = [] then ''unassigned'' else v)"

fun compile_rules :: "asset_rule_config list \<Rightarrow> asset_rule list \<Rightarrow> error + asset_rule list" where
  "compile_rules [] rules = Inr rules"
| "compile_rules (cfg # cfgs) rules =
     (case netip_ParsePrefix (strings_TrimSpace (cfg_CIDR cfg)) of
        Inl err \<Rightarrow> Inl (Wrapf err ''invalid CIDR prefix'')
      | Inr pfx \<Rightarrow>
          compile_rules cfgs
            (rules @ [\<lparr>rule_Prefix = pfx,
                       rule_Environment = normalize_label (cfg_Environment cfg),
                       rule_Criticality = normalize_label (cfg_Criticality cfg),
                       rule_Owner = normalize_label (cfg_Owner cfg)\<rparr>]))"

definition LoadRulesFromJSON :: "string \<Rightarrow> error + asset_rule list" where
  "LoadRulesFromJSON data =
     (if strings_TrimSpace data = [] then Inr []
      else (case Option.bind (json_document data) decode_configs of
          None \<Rightarrow> Inl (Wrapf (External ''json'') ''failed to parse asset rules json'')
        | Some rawRules \<Rightarrow> if rawRules = [] then Inr [] else compile_rules rawRules []))"

text \<open>The file system is the argument: the result of \<^verbatim>\<open>os.ReadFile\<close>.\<close>

definition LoadRulesFromFile :: "(string \<Rightarrow> error + string) \<Rightarrow> string \<Rightarrow> error + asset_rule list" where
  "LoadRulesFromFile readFile path =
     (let cleanpath = strings_TrimSpace path in
      if cleanpath = [] then Inr []
      else (case readFile cleanpath of
          Inl err \<Rightarrow> Inl (Wrapf err ''failed to read asset rules file'')
        | Inr data \<Rightarrow> LoadRulesFromJSON data))"

section \<open>Matching\<close>

definition defaultContext :: asset_context where
  "defaultContext =
     \<lparr>ctx_Environment = ''unassigned'', ctx_Criticality = ''unassigned'', ctx_Owner = ''unassigned''\<rparr>"

text \<open>What \<^verbatim>\<open>slices.SortFunc\<close> promises for the comparison the code gives it.\<close>

definition rule_bits :: "asset_rule \<Rightarrow> int" where
  "rule_bits r = prefix_Bits (rule_Prefix r)"

definition sorts_rules :: "(asset_rule list \<Rightarrow> asset_rule list) \<Rightarrow> bool" where
  "sorts_rules sortFunc \<longleftrightarrow>
     (\<forall>rs. mset (sortFunc rs) = mset rs \<and> sorted (map (\<lambda>r. - rule_bits r) (sortFunc rs)))"

text \<open>The rules of a matcher. The receiver is never nil: \<^verbatim>\<open>NewMatcher\<close> is the only constructor.\<close>

type_synonym cidr_matcher = "asset_rule list"

definition NewMatcher :: "(asset_rule list \<Rightarrow> asset_rule list) \<Rightarrow> asset_rule list \<Rightarrow> cidr_matcher" where
  "NewMatcher sortFunc rules = sortFunc rules"

definition context_of :: "asset_rule \<Rightarrow> asset_context" where
  "context_of rule =
     \<lparr>ctx_Environment = rule_Environment rule, ctx_Criticality = rule_Criticality rule,
      ctx_Owner = rule_Owner rule\<rparr>"

fun match_loop :: "asset_rule list \<Rightarrow> addr \<Rightarrow> asset_context" where
  "match_loop [] a = defaultContext"
| "match_loop (rule # rules) a =
     (if prefix_Contains (rule_Prefix rule) a then context_of rule else match_loop rules a)"

definition cidrMatcher_Match :: "cidr_matcher \<Rightarrow> addr \<Rightarrow> asset_context" where
  "cidrMatcher_Match m a = (if \<not> addr_IsValid a then defaultContext else match_loop m a)"

definition cidrMatcher_MatchString :: "cidr_matcher \<Rightarrow> string \<Rightarrow> asset_context" where
  "cidrMatcher_MatchString m rawIP =
     (case netip_ParseAddr rawIP of
        Inl err \<Rightarrow> defaultContext
      | Inr ip \<Rightarrow> cidrMatcher_Match m ip)"

text \<open>The interface \<^verbatim>\<open>Matcher\<close>: what its users rely on, and that the matcher of the rules provides it.\<close>

locale asset_matcher =
  fixes Match :: "addr \<Rightarrow> asset_context" and MatchString :: "string \<Rightarrow> asset_context"
  assumes Match_invalid: "\<not> addr_IsValid a \<Longrightarrow> Match a = defaultContext"
    and MatchString_addr: "netip_ParseAddr rawIP = Inr a \<Longrightarrow> MatchString rawIP = Match a"
    and MatchString_no_addr: "netip_ParseAddr rawIP = Inl err \<Longrightarrow> MatchString rawIP = defaultContext"

interpretation cidr: asset_matcher "cidrMatcher_Match m" "cidrMatcher_MatchString m"
  by unfold_locales (simp_all add: cidrMatcher_Match_def cidrMatcher_MatchString_def)

section \<open>The most specific rule\<close>

lemma match_loop_find:
  "match_loop rs a =
     (case find (\<lambda>r. prefix_Contains (rule_Prefix r) a) rs of
        None \<Rightarrow> defaultContext | Some r \<Rightarrow> context_of r)"
  by (induction rs) auto

lemma sorted_find_max:
  "sorted (map f xs) \<Longrightarrow> find P xs = Some x \<Longrightarrow> y \<in> set xs \<Longrightarrow> P y \<Longrightarrow> (f x :: int) \<le> f y"
  by (induction xs) (auto split: if_splits)

lemma find_SomeD: "find P xs = Some x \<Longrightarrow> x \<in> set xs \<and> P x"
  by (induction xs) (auto split: if_splits)

text \<open>A rule is best for an address if it contains it and no longer prefix does.\<close>

definition best_rule :: "asset_rule set \<Rightarrow> addr \<Rightarrow> asset_rule \<Rightarrow> bool" where
  "best_rule rs a r \<longleftrightarrow> r \<in> rs \<and> prefix_Contains (rule_Prefix r) a
     \<and> (\<forall>r'\<in>rs. prefix_Contains (rule_Prefix r') a \<longrightarrow> rule_bits r' \<le> rule_bits r)"

lemma prefix_Contains_valid: "prefix_Contains p a \<Longrightarrow> addr_IsValid a"
  by (auto simp: prefix_Contains_def addr_IsValid_def split: netprefix.splits addr.splits)

lemma Match_best:
  assumes "sorts_rules sortFunc"
  shows "if \<exists>r\<in>set rules. prefix_Contains (rule_Prefix r) a
    then \<exists>r. best_rule (set rules) a r \<and> cidrMatcher_Match (NewMatcher sortFunc rules) a = context_of r
    else cidrMatcher_Match (NewMatcher sortFunc rules) a = defaultContext"
proof -
  let ?rs = "sortFunc rules" and ?P = "\<lambda>r. prefix_Contains (rule_Prefix r) a"
  have set: "set ?rs = set rules" and sorted: "sorted (map (\<lambda>r. - rule_bits r) ?rs)"
    using assms unfolding sorts_rules_def by (metis mset_eq_setD)+
  show ?thesis
  proof (cases "find ?P ?rs")
    case None
    then have "\<not> (\<exists>r\<in>set rules. ?P r)" using set by (auto simp: find_None_iff)
    with None show ?thesis
      by (auto simp: cidrMatcher_Match_def NewMatcher_def match_loop_find)
  next
    case (Some r)
    then have r: "r \<in> set rules" "?P r" using find_SomeD [OF Some] set by auto
    then have "best_rule (set rules) a r"
      using sorted_find_max [OF sorted Some] set by (auto simp: best_rule_def)
    moreover have "cidrMatcher_Match (NewMatcher sortFunc rules) a = context_of r"
      using Some prefix_Contains_valid [OF r(2)]
      by (simp add: cidrMatcher_Match_def NewMatcher_def match_loop_find)
    ultimately show ?thesis using r by auto
  qed
qed

text \<open>Two prefixes of one length that contain a common address cover the same block.\<close>

lemma masked_agree:
  assumes "\<forall>i. LENGTH('a) - n \<le> i \<and> i < LENGTH('a) \<longrightarrow> bit (x :: 'a :: len word) i = bit y i"
  shows "x AND high_mask n = y AND high_mask n"
  using assms by (intro bit_word_eqI) (auto simp: bit_simps bit_high_mask)

lemma Contains_Masked:
  assumes "prefix_Contains p a" "prefix_Contains q a" "prefix_Bits p = prefix_Bits q"
  shows "prefix_Masked p = prefix_Masked q"
proof -
  obtain b n where p: "p = Prefix b n" using assms(1) by (cases p) (auto simp: prefix_Contains_def)
  then obtain c where q: "q = Prefix c n"
    using assms(2,3) by (cases q) (auto simp: prefix_Contains_def prefix_Bits_def)
  show ?thesis
  proof (cases b)
    case (Addr4 x)
    then obtain y z where a: "a = Addr4 y" "c = Addr4 z"
      using assms p q by (auto simp: prefix_Contains_def split: addr.splits)
    then have "\<forall>i. 32 - n \<le> i \<and> i < 32 \<longrightarrow> bit x i = bit y i"
      "\<forall>i. 32 - n \<le> i \<and> i < 32 \<longrightarrow> bit z i = bit y i"
      using assms p q Addr4 agree_drop_bit [of n x y] agree_drop_bit [of n z y]
      by (auto simp: prefix_Contains_def)
    then have "x AND high_mask n = z AND high_mask n" by (intro masked_agree) simp
    then show ?thesis using a p q Addr4 by (simp add: prefix_Masked_def)
  next
    case (Addr6 x z1)
    then obtain y z where a: "a = Addr6 y []" "c = Addr6 z (addr_Zone c)"
      using assms p q by (auto simp: prefix_Contains_def addr_Zone_def split: addr.splits)
    then have "\<forall>i. 128 - n \<le> i \<and> i < 128 \<longrightarrow> bit x i = bit y i"
      "\<forall>i. 128 - n \<le> i \<and> i < 128 \<longrightarrow> bit z i = bit y i"
      using assms p q Addr6 agree_high_mask [of x y n] agree_high_mask [of z y n]
      by (auto simp: prefix_Contains_def split: addr.splits)
    then have "x AND high_mask n = z AND high_mask n" by (intro masked_agree) simp
    then show ?thesis using a p q Addr6 by (auto simp: prefix_Masked_def split: addr.splits)
  next
    case AddrZero
    then show ?thesis using assms p by (simp add: prefix_Contains_def)
  qed
qed

text \<open>An inventory is consistent when the rules of one block agree.\<close>

definition consistent_rules :: "asset_rule set \<Rightarrow> bool" where
  "consistent_rules rs \<longleftrightarrow>
     (\<forall>r\<in>rs. \<forall>r'\<in>rs. prefix_Masked (rule_Prefix r) = prefix_Masked (rule_Prefix r')
        \<longrightarrow> context_of r = context_of r')"

lemma best_rule_unique:
  assumes "consistent_rules rs" "best_rule rs a r" "best_rule rs a r'"
  shows "context_of r = context_of r'"
proof -
  have "rule_bits r = rule_bits r'" using assms(2,3) by (fastforce simp: best_rule_def)
  then have "prefix_Masked (rule_Prefix r) = prefix_Masked (rule_Prefix r')"
    using assms(2,3) by (auto simp: best_rule_def rule_bits_def intro: Contains_Masked)
  then show ?thesis using assms unfolding consistent_rules_def best_rule_def by blast
qed

section \<open>Loaded rules\<close>

lemma compile_rules_Inr:
  "compile_rules cfgs acc = Inr rules \<Longrightarrow> \<exists>rs. rules = acc @ rs \<and> length rs = length cfgs
     \<and> (\<forall>i<length cfgs.
          netip_ParsePrefix (strings_TrimSpace (cfg_CIDR (cfgs ! i))) = Inr (rule_Prefix (rs ! i))
        \<and> context_of (rs ! i) =
            \<lparr>ctx_Environment = normalize_label (cfg_Environment (cfgs ! i)),
             ctx_Criticality = normalize_label (cfg_Criticality (cfgs ! i)),
             ctx_Owner = normalize_label (cfg_Owner (cfgs ! i))\<rparr>)"
proof (induction cfgs arbitrary: acc)
  case (Cons c cs)
  let ?r = "\<lambda>p. \<lparr>rule_Prefix = p, rule_Environment = normalize_label (cfg_Environment c),
    rule_Criticality = normalize_label (cfg_Criticality c), rule_Owner = normalize_label (cfg_Owner c)\<rparr>"
  obtain p where p: "netip_ParsePrefix (strings_TrimSpace (cfg_CIDR c)) = Inr p"
    "compile_rules cs (acc @ [?r p]) = Inr rules"
    using Cons.prems by (auto split: sum.splits)
  from Cons.IH [OF p(2)] obtain rs where rs: "rules = (acc @ [?r p]) @ rs" "length rs = length cs"
    "\<forall>i<length cs.
          netip_ParsePrefix (strings_TrimSpace (cfg_CIDR (cs ! i))) = Inr (rule_Prefix (rs ! i))
        \<and> context_of (rs ! i) =
            \<lparr>ctx_Environment = normalize_label (cfg_Environment (cs ! i)),
             ctx_Criticality = normalize_label (cfg_Criticality (cs ! i)),
             ctx_Owner = normalize_label (cfg_Owner (cs ! i))\<rparr>" by blast
  then show ?case
    using p(1) by (intro exI [of _ "?r p # rs"]) (auto simp: nth_Cons context_of_def split: nat.splits)
qed simp

lemma compile_rules_Inl:
  "\<exists>c\<in>set cfgs. \<exists>e. netip_ParsePrefix (strings_TrimSpace (cfg_CIDR c)) = Inl e \<Longrightarrow>
     \<exists>e. compile_rules cfgs acc = Inl e"
  by (induction cfgs arbitrary: acc) (auto split: sum.splits)

lemma normalize_label_nonempty: "normalize_label s \<noteq> []"
  by (simp add: normalize_label_def Let_def)

text \<open>C31: the enrichment of an address. \<^verbatim>\<open>Match\<close> answers the context of a rule that contains the
  address and that no containing rule is more specific than, and the default context exactly when
  no rule contains the address. When the rules of one block agree, the answer depends neither on
  the order of the inventory nor on how the sort orders equal lengths.\<close>
theorem Match_most_specific:
  assumes "sorts_rules sortFunc" "sorts_rules sortFunc'" "mset rules' = mset rules"
  shows "(if \<exists>r\<in>set rules. prefix_Contains (rule_Prefix r) a
      then \<exists>r. best_rule (set rules) a r
        \<and> cidrMatcher_Match (NewMatcher sortFunc rules) a = context_of r
      else cidrMatcher_Match (NewMatcher sortFunc rules) a = defaultContext)
    \<and> (consistent_rules (set rules) \<longrightarrow>
        cidrMatcher_Match (NewMatcher sortFunc' rules') a
          = cidrMatcher_Match (NewMatcher sortFunc rules) a)"
proof -
  have set: "set rules' = set rules" using assms(3) by (metis set_mset_mset)
  note best = Match_best [OF assms(1), of rules a] Match_best [OF assms(2), of rules' a]
  show ?thesis
  proof (cases "\<exists>r\<in>set rules. prefix_Contains (rule_Prefix r) a")
    case True
    then obtain r r' where r: "best_rule (set rules) a r"
      "cidrMatcher_Match (NewMatcher sortFunc rules) a = context_of r"
      and r': "best_rule (set rules) a r'"
      "cidrMatcher_Match (NewMatcher sortFunc' rules') a = context_of r'"
      using best unfolding set by (metis (lifting))
    then have "consistent_rules (set rules) \<Longrightarrow> context_of r' = context_of r"
      using best_rule_unique by blast
    with r r' True show ?thesis by metis
  next
    case False
    with best show ?thesis unfolding set by simp
  qed
qed

definition sample_rules :: "asset_rule list" where
  "sample_rules =
     [\<lparr>rule_Prefix = Prefix (Addr4 0x0A0A0000) 16, rule_Environment = ''staging'',
       rule_Criticality = ''tier-2'', rule_Owner = ''platform-infra''\<rparr>,
      \<lparr>rule_Prefix = Prefix (Addr4 0x0A0A050F) 32, rule_Environment = ''production'',
       rule_Criticality = ''tier-0'', rule_Owner = ''pki-team''\<rparr>]"

lemma sorts_rules_stable: "sorts_rules (sort_key (\<lambda>r. - rule_bits r))"
  by (simp add: sorts_rules_def)

lemma Match_most_specific_witness:
  "ctx_Criticality (cidrMatcher_Match (NewMatcher (sort_key (\<lambda>r. - rule_bits r)) sample_rules)
     (Addr4 0x0A0A050F)) = ''tier-0''"
proof -
  let ?a = "Addr4 0x0A0A050F" and ?m = "NewMatcher (sort_key (\<lambda>r. - rule_bits r)) sample_rules"
  have rs: "set sample_rules = {sample_rules ! 0, sample_rules ! 1}"
    and bits: "rule_bits (sample_rules ! 0) < rule_bits (sample_rules ! 1)"
    and contains: "prefix_Contains (rule_Prefix (sample_rules ! 1)) ?a"
    and crit: "rule_Criticality (sample_rules ! 1) = ''tier-0''"
    by (simp_all add: sample_rules_def rule_bits_def prefix_Bits_def prefix_Contains_def)
  have "\<exists>r. best_rule (set sample_rules) ?a r \<and> cidrMatcher_Match ?m ?a = context_of r"
    using Match_most_specific [OF sorts_rules_stable sorts_rules_stable refl, of sample_rules ?a]
      contains unfolding rs by (auto split: if_splits)
  then obtain r where r: "best_rule (set sample_rules) ?a r" "cidrMatcher_Match ?m ?a = context_of r"
    by blast
  then have "r = sample_rules ! 1"
    using contains bits unfolding best_rule_def rs by fastforce
  then show ?thesis using r(2) crit by (simp add: context_of_def)
qed

text \<open>What it means for rules to be those of a list of configured entries.\<close>

definition rules_of :: "asset_rule_config list \<Rightarrow> asset_rule list \<Rightarrow> bool" where
  "rules_of cfgs rules \<longleftrightarrow> length rules = length cfgs
     \<and> (\<forall>i<length cfgs.
          netip_ParsePrefix (strings_TrimSpace (cfg_CIDR (cfgs ! i))) = Inr (rule_Prefix (rules ! i))
        \<and> context_of (rules ! i) =
            \<lparr>ctx_Environment = normalize_label (cfg_Environment (cfgs ! i)),
             ctx_Criticality = normalize_label (cfg_Criticality (cfgs ! i)),
             ctx_Owner = normalize_label (cfg_Owner (cfgs ! i))\<rparr>)"

lemma rules_of_labels:
  assumes "rules_of cfgs rules" "r \<in> set rules"
  shows "prefix_wf (rule_Prefix r)" "rule_Prefix r \<noteq> PrefixZero"
    "rule_Environment r \<noteq> []" "rule_Criticality r \<noteq> []" "rule_Owner r \<noteq> []"
proof -
  obtain i where i: "i < length rules" "r = rules ! i" using assms(2) by (metis in_set_conv_nth)
  then have p: "netip_ParsePrefix (strings_TrimSpace (cfg_CIDR (cfgs ! i))) = Inr (rule_Prefix r)"
    and c: "context_of r = \<lparr>ctx_Environment = normalize_label (cfg_Environment (cfgs ! i)),
       ctx_Criticality = normalize_label (cfg_Criticality (cfgs ! i)),
       ctx_Owner = normalize_label (cfg_Owner (cfgs ! i))\<rparr>"
    using assms(1) by (auto simp: rules_of_def)
  show "prefix_wf (rule_Prefix r)" "rule_Prefix r \<noteq> PrefixZero" using ParsePrefix_wf [OF p] by auto
  show "rule_Environment r \<noteq> []" "rule_Criticality r \<noteq> []" "rule_Owner r \<noteq> []"
    using c normalize_label_nonempty by (simp_all add: context_of_def)
qed

lemma compile_rules_of: "compile_rules cfgs [] = Inr rules \<Longrightarrow> rules_of cfgs rules"
  using compile_rules_Inr [of cfgs "[]" rules] by (auto simp: rules_of_def)

lemma compile_rules_error:
  "compile_rules cfgs acc = Inl e \<Longrightarrow>
     \<exists>c\<in>set cfgs. isl (netip_ParsePrefix (strings_TrimSpace (cfg_CIDR c)))"
  by (induction cfgs arbitrary: acc) (auto split: sum.splits)

text \<open>C32: loading an inventory is all or nothing. Blank data is no rules. Otherwise the rules are
  those of the entries of the JSON document, in their order, each with a valid prefix and labels
  that are never blank; and the one other outcome is an error, when the text is not a JSON list of
  entries or when some entry has no valid prefix.\<close>
theorem LoadRulesFromJSON_all_or_nothing:
  "case LoadRulesFromJSON data of
      Inr rules \<Rightarrow>
        (if strings_TrimSpace data = [] then rules = []
         else \<exists>j cfgs. json_document data = Some j \<and> decode_configs j = Some cfgs \<and> rules_of cfgs rules)
        \<and> (\<forall>r\<in>set rules. prefix_wf (rule_Prefix r) \<and> rule_Prefix r \<noteq> PrefixZero
            \<and> rule_Environment r \<noteq> [] \<and> rule_Criticality r \<noteq> [] \<and> rule_Owner r \<noteq> [])
    | Inl e \<Rightarrow> strings_TrimSpace data \<noteq> []
        \<and> (case Option.bind (json_document data) decode_configs of
            None \<Rightarrow> True
          | Some cfgs \<Rightarrow> \<exists>c\<in>set cfgs. isl (netip_ParsePrefix (strings_TrimSpace (cfg_CIDR c))))"
proof (cases "LoadRulesFromJSON data")
  case (Inl e)
  then show ?thesis
    by (auto simp: LoadRulesFromJSON_def dest: compile_rules_error split: option.splits if_splits)
next
  case (Inr rules)
  have "rules_of [] []" by (simp add: rules_of_def)
  with Inr have "(strings_TrimSpace data = [] \<and> rules = []) \<or> (strings_TrimSpace data \<noteq> []
      \<and> (\<exists>j cfgs. json_document data = Some j \<and> decode_configs j = Some cfgs \<and> rules_of cfgs rules))"
    by (auto simp: LoadRulesFromJSON_def bind_eq_Some_conv dest: compile_rules_of
        split: option.splits if_splits)
  with Inr show ?thesis by (auto dest: rules_of_labels)
qed

lemma LoadRulesFromJSON_all_or_nothing_witness:
  "isl (LoadRulesFromJSON ''[{}]'')"
proof -
  have blank: "strings_TrimSpace [] = []" by (rule strings_TrimSpace_graphic) simp
  have doc: "json_document ''[{}]'' = Some (JArr [JObj []])" by code_simp
  have "decode_configs (JArr [JObj []]) = Some [zero_config]"
    by (simp add: decode_configs_def decode_config_def)
  moreover have "\<not> rules_of [zero_config] rules" for rules
    by (simp add: rules_of_def zero_config_def netip_ParsePrefix_def split_last_def blank)
  moreover have "strings_TrimSpace ''[{}]'' \<noteq> []"
    by (subst strings_TrimSpace_graphic) (simp_all add: graphic_def)
  ultimately show ?thesis
    using LoadRulesFromJSON_all_or_nothing [of "''[{}]''"] doc by (auto split: sum.splits)
qed
end
