(* ===== verification/LifecycleEmitter.thy ===== *)
theory LifecycleEmitter
  imports Promotion Risk Enrichment
begin

text \<open>
  \<^verbatim>\<open>internal/scanner/lifecycle_emitter.go\<close>: the lifecycle event of a change and the emission of
  the events as lines of JSON. Arguments stand for what is outside: \<open>uni\<close> is the Unicode case table,
  \<open>sum64\<close> is \<^verbatim>\<open>xxhash.Sum64String\<close>, \<open>clock n\<close> the n-th reading of \<^verbatim>\<open>time.Now\<close>, \<open>wr n\<close> the
  outcome of the n-th \<^verbatim>\<open>Write\<close> of the writer. A matcher is its \<^verbatim>\<open>MatchString\<close> method, and nil is
  \<^term>\<open>None\<close>.
\<close>

section \<open>The event of a change\<close>

definition serviceRecordToScanResult :: "service_record option \<Rightarrow> scan_result option" where
  "serviceRecordToScanResult r =
     map_option (\<lambda>r. zero_scan_result\<lparr>
       sr_TargetIP := rec_IP r, sr_Port := rec_Port r, sr_Protocol := rec_Protocol r,
       sr_State := rec_Status r, sr_Banner := rec_Banner r, sr_OSHint := rec_OSHint r,
       sr_CertSubject := rec_CertSubject r, sr_CertIssuer := rec_CertIssuer r,
       sr_SANs := go_list (rec_SANs r)\<rparr>) r"

definition state_payload :: "scan_result \<Rightarrow> string" where
  "state_payload r =
     sr_State r @ ''|'' @ sr_Banner r @ ''|'' @ sr_CertSubject r @ ''|'' @ sr_CertIssuer r
     @ ''|'' @ strings_Join (sr_SANs r) '',''"

definition hashScanResult :: "(string \<Rightarrow> 64 word) \<Rightarrow> scan_result option \<Rightarrow> 64 word" where
  "hashScanResult sum64 r = (case r of None \<Rightarrow> 0 | Some r \<Rightarrow> sum64 (state_payload r))"

type_synonym matcher = "(string \<Rightarrow> asset_context) option"

definition asset_of :: "matcher \<Rightarrow> scan_result option \<Rightarrow> scan_result option \<Rightarrow> asset_identity" where
  "asset_of matcher prior current =
     (let (targetIP, hostname) =
        (case current of
           Some c \<Rightarrow> (sr_TargetIP c, sr_TargetName c)
         | None \<Rightarrow> (case prior of Some p \<Rightarrow> (sr_TargetIP p, sr_TargetName p) | None \<Rightarrow> ([], [])));
        (env, crit, owner) =
        (case matcher of
           Some matchString \<Rightarrow>
             if targetIP \<noteq> [] then
               (let ctx = matchString targetIP in
                (ctx_Environment ctx, ctx_Criticality ctx, ctx_Owner ctx))
             else (''unassigned'', ''unassigned'', ''unassigned'')
         | None \<Rightarrow> (''unassigned'', ''unassigned'', ''unassigned''))
      in \<lparr>asset_IP = targetIP, asset_Hostname = hostname, asset_Environment = env,
          asset_Criticality = crit, asset_Owner = owner\<rparr>)"

definition event_id :: "string \<Rightarrow> string \<Rightarrow> string \<Rightarrow> int \<Rightarrow> string" where
  "event_id scanID ip proto port = scanID @ ''-'' @ ip @ ''-'' @ proto @ ''-'' @ strconv_Itoa port"

text \<open>The composite literal the four kinds of event share.\<close>

definition make_event ::
  "string \<Rightarrow> string \<Rightarrow> utc_time \<Rightarrow> asset_identity \<Rightarrow> string \<Rightarrow> string \<Rightarrow> int \<Rightarrow> string \<Rightarrow> string
     \<Rightarrow> string \<Rightarrow> string \<Rightarrow> risk_meta \<Rightarrow> lifecycle_event" where
  "make_event scopeID scanID now asset ip proto port eventType netState changeType previous risk =
     \<lparr>ev_SchemaVersion = ''1.0'', ev_EventID = event_id scanID ip proto port, ev_ScanID = scanID,
      ev_ScopeID = scopeID, ev_Timestamp = format_RFC3339 now, ev_EventType = eventType,
      ev_Scanner = \<lparr>sm_Name = ''tcprecon'', sm_Version = ''1.0.0''\<rparr>, ev_Asset = asset,
      ev_Network = \<lparr>no_Protocol = proto, no_Port = port, no_State = netState\<rparr>,
      ev_Change = \<lparr>chg_Type = changeType, chg_PreviousState = previous\<rparr>, ev_Risk = risk\<rparr>"

definition has_state :: "string \<Rightarrow> scan_result option \<Rightarrow> bool" where
  "has_state st r = (case r of None \<Rightarrow> False | Some r \<Rightarrow> sr_State r = st)"

definition mapDeltaToLifecycleEvent ::
  "(nat \<Rightarrow> nat) \<Rightarrow> (string \<Rightarrow> 64 word) \<Rightarrow> string \<Rightarrow> string \<Rightarrow> scan_result option
     \<Rightarrow> scan_result option \<Rightarrow> bool \<Rightarrow> matcher \<Rightarrow> utc_time \<Rightarrow> lifecycle_event option" where
  "mapDeltaToLifecycleEvent uni sum64 scopeID scanID prior current scanSuccessful matcher now =
     (if \<not> scanSuccessful \<and> (current = None \<or> has_state ''closed'' current) then None
      else
        (let asset = asset_of matcher prior current;
             targetResult = (if current = None then prior else current);
             isNewService = (prior = None \<or>
               (prior \<noteq> None \<and> current \<noteq> None \<and> sr_Protocol (the prior) \<noteq> sr_Protocol (the current)));
             crit = asset_Criticality asset
         in
         if isNewService \<and> has_state ''open'' current then
           Some (make_event scopeID scanID now asset (sr_TargetIP (the current)) (sr_Protocol (the current))
                   (sr_Port (the current)) ''service.opened'' ''open'' ''new_service'' ''closed''
                   (EvaluateRisk uni ''service.opened'' current crit))
         else if has_state ''open'' prior \<and> has_state ''open'' current then
           (if hashScanResult sum64 prior \<noteq> hashScanResult sum64 current then
              Some (make_event scopeID scanID now asset (sr_TargetIP (the current))
                      (sr_Protocol (the current)) (sr_Port (the current)) ''service.changed'' ''open''
                      ''service_mutation'' ''open''
                      (EvaluateRisk uni ''service.changed'' current crit))
            else None)
         else if has_state ''closed'' prior \<and> has_state ''open'' current then
           Some (make_event scopeID scanID now asset (sr_TargetIP (the current)) (sr_Protocol (the current))
                   (sr_Port (the current)) ''service.reopened'' ''open'' ''service_reopened'' ''closed''
                   (EvaluateRisk uni ''service.reopened'' current crit))
         else if scanSuccessful \<and> has_state ''open'' prior \<and> (current = None \<or> has_state ''closed'' current)
         then
           (let proto = (case current of None \<Rightarrow> sr_Protocol (the prior) | Some c \<Rightarrow> sr_Protocol c);
                port = (case current of None \<Rightarrow> sr_Port (the prior) | Some c \<Rightarrow> sr_Port c) in
            Some (make_event scopeID scanID now asset (asset_IP asset) proto port ''service.closed''
                    ''closed'' ''service_closed'' ''open''
                    (EvaluateRisk uni ''service.closed'' targetResult crit)))
         else None))"

section \<open>Emission\<close>

definition event_json :: "lifecycle_event \<Rightarrow> json" where
  "event_json e =
     JObj [(''schema_version'', JStr (ev_SchemaVersion e)), (''event_id'', JStr (ev_EventID e)),
           (''scan_id'', JStr (ev_ScanID e)), (''scope_id'', JStr (ev_ScopeID e)),
           (''timestamp'', JStr (ev_Timestamp e)), (''event_type'', JStr (ev_EventType e)),
           (''scanner'', JObj [(''name'', JStr (sm_Name (ev_Scanner e))),
                               (''version'', JStr (sm_Version (ev_Scanner e)))]),
           (''asset'', JObj [(''ip'', JStr (asset_IP (ev_Asset e))),
                             (''hostname'', JStr (asset_Hostname (ev_Asset e))),
                             (''environment'', JStr (asset_Environment (ev_Asset e))),
                             (''criticality'', JStr (asset_Criticality (ev_Asset e))),
                             (''owner'', JStr (asset_Owner (ev_Asset e)))]),
           (''network'', JObj [(''protocol'', JStr (no_Protocol (ev_Network e))),
                               (''port'', json_int (no_Port (ev_Network e))),
                               (''state'', JStr (no_State (ev_Network e)))]),
           (''change'', JObj [(''type'', JStr (chg_Type (ev_Change e))),
                              (''previous_state'', JStr (chg_PreviousState (ev_Change e)))]),
           (''risk'', JObj [(''policy_version'', JStr (risk_PolicyVersion (ev_Risk e))),
                            (''score'', json_int (risk_Score (ev_Risk e))),
                            (''severity'', JStr (risk_Severity (ev_Risk e))),
                            (''reasons'', JStr (risk_Reasons (ev_Risk e)))])]"

text \<open>\<^verbatim>\<open>Encoder.Encode\<close>: the text and a newline, in one write.\<close>

definition encode_line :: "lifecycle_event \<Rightarrow> string" where
  "encode_line e = json_text (event_json e) @ [CHR 0x0A]"

text \<open>The loop: \<open>n\<close> counts the events made so far, which is also the number of writes.\<close>

fun emit_loop ::
  "(nat \<Rightarrow> nat) \<Rightarrow> (string \<Rightarrow> 64 word) \<Rightarrow> string \<Rightarrow> string \<Rightarrow> matcher \<Rightarrow> (nat \<Rightarrow> utc_time)
     \<Rightarrow> (nat \<Rightarrow> error option) \<Rightarrow> nat \<Rightarrow> service_change list \<Rightarrow> error option \<times> string list" where
  "emit_loop uni sum64 scopeID scanID matcher clock wr n [] = (None, [])"
| "emit_loop uni sum64 scopeID scanID matcher clock wr n (change # changes) =
     (let prior = serviceRecordToScanResult (sc_Previous change);
          current = serviceRecordToScanResult (sc_Current change) in
      case mapDeltaToLifecycleEvent uni sum64 scopeID scanID prior current True matcher (clock n) of
        None \<Rightarrow> emit_loop uni sum64 scopeID scanID matcher clock wr n changes
      | Some event \<Rightarrow>
          (case wr n of
             Some err \<Rightarrow> (Some (Wrapf err ''failed to encode lifecycle event NDJSON''), [])
           | None \<Rightarrow>
               (let (err, out) =
                  emit_loop uni sum64 scopeID scanID matcher clock wr (Suc n) changes
                in (err, encode_line event # out))))"

text \<open>The error and the lines written in full.\<close>

definition EmitLifecycleChanges ::
  "(nat \<Rightarrow> nat) \<Rightarrow> (string \<Rightarrow> 64 word) \<Rightarrow> (nat \<Rightarrow> utc_time) \<Rightarrow> (nat \<Rightarrow> error option) \<Rightarrow> string
     \<Rightarrow> string \<Rightarrow> service_change list \<Rightarrow> matcher \<Rightarrow> error option \<times> string list" where
  "EmitLifecycleChanges uni sum64 clock wr scopeID scanID changes matcher =
     emit_loop uni sum64 scopeID scanID matcher clock wr 0 changes"

section \<open>One line per event\<close>

lemma decode_rune_cont:
  "decode_rune c s = (r, w) \<Longrightarrow> x \<in> set (take (w - 1) s) \<Longrightarrow> 0x80 \<le> code x"
  by (auto simp: decode_rune_def decode2_def decode3_def decode4_def cont_def Let_def
      split: if_splits list.splits)

lemma hex_digit_no_newline: "hex_digit (n mod 16) \<noteq> CHR 0x0A"
proof -
  have "\<not> is_hex CHR 0x0A" by (simp add: is_hex_def hex_val_def)
  then show ?thesis using is_hex_digit [of "n mod 16"] by auto
qed

lemma u_escape_no_newline: "CHR 0x0A \<notin> set (u_escape r)"
proof -
  have "CHR 0x0A \<noteq> hex_digit (n mod 16)" for n using hex_digit_no_newline by metis
  then show ?thesis by (auto simp: u_escape_def hex4_def)
qed

lemma escape_ascii_no_newline: "CHR 0x0A \<notin> set (escape_ascii c)"
  using u_escape_no_newline by (auto simp: escape_ascii_def Let_def json_safe_def)

lemma json_escape_no_newline: "CHR 0x0A \<notin> set (json_escape s)"
proof (induction s rule: json_escape.induct)
  case (2 c s)
  show ?case
  proof (cases "code c < 0x80")
    case True
    then show ?thesis using 2(1) escape_ascii_no_newline by simp
  next
    case False
    obtain r w where rw: "decode_rune c s = (r, w)" by force
    have "c \<noteq> CHR 0x0A" using False by auto
    moreover have "CHR 0x0A \<notin> set (take (w - 1) s)" using decode_rune_cont [OF rw] by force
    ultimately show ?thesis
      using False 2(2) [OF False rw [symmetric] refl] u_escape_no_newline by (auto simp: rw)
  qed
qed simp

lemma json_quote_no_newline: "CHR 0x0A \<notin> set (json_quote s)"
  using json_escape_no_newline by (simp add: json_quote_def)

lemma Itoa_no_newline: "CHR 0x0A \<notin> set (strconv_Itoa i)"
  using strconv_Itoa_ascii [of "CHR 0x0A" i] by (auto simp: is_digit_def)

lemma set_strings_Join: "set (strings_Join xs sep) \<subseteq> (\<Union>x\<in>set xs. set x) \<union> set sep"
  by (induction xs sep rule: strings_Join.induct) auto

lemma json_text_no_newline: "json_wf j \<Longrightarrow> CHR 0x0A \<notin> set (json_text j)"
proof (induction j rule: json_text.induct)
  case (5 js)
  then show ?case using set_strings_Join [of "map json_text js" "'',''"] by auto
next
  case (6 ms)
  let ?ts = "map (\<lambda>m. json_quote (fst m) @ '':'' @ json_text (snd m)) ms"
  have "CHR 0x0A \<notin> set t" if "t \<in> set ?ts" for t
    using that 6 json_quote_no_newline by auto
  moreover have "CHR 0x0A \<notin> set '',''" by simp
  ultimately have "CHR 0x0A \<notin> set (strings_Join ?ts '','')"
    using set_strings_Join [of ?ts "'',''"] by blast
  then show ?case by simp
qed (auto simp: json_quote_no_newline Itoa_no_newline)

lemma json_wf_obj: "json_wf (JObj ms) \<longleftrightarrow> list_all (\<lambda>m. json_wf (snd m)) ms"
  by (simp add: list_all_iff)

lemma event_json_wf: "json_wf (event_json e)"
  unfolding event_json_def
  by (simp only: json_wf_obj list.pred_inject snd_conv json_wf.simps(4-) json_wf_int simp_thms)

text \<open>No value of the tree is an array.\<close>

fun json_flat :: "json \<Rightarrow> bool" where
  "json_flat (JArr js) \<longleftrightarrow> False"
| "json_flat (JObj ms) \<longleftrightarrow> (\<forall>m\<in>set ms. json_flat (snd m))"
| "json_flat _ \<longleftrightarrow> True"

lemma split_lines:
  "\<forall>t\<in>set ts. c \<notin> set t \<Longrightarrow> strings_Split (concat (map (\<lambda>t. t @ [c]) ts)) c = ts @ [[]]"
proof (induction ts)
  case (Cons t ts)
  then show ?case using strings_Split_append [of c t] by simp
qed simp

lemma json_flat_obj: "json_flat (JObj ms) \<longleftrightarrow> list_all (\<lambda>m. json_flat (snd m)) ms"
  by (simp add: list_all_iff)

lemma event_json_flat: "json_flat (event_json e)"
  unfolding event_json_def json_int_def
  by (simp only: json_flat_obj list.pred_inject snd_conv json_flat.simps(3-) simp_thms)

text \<open>C33: the output is newline-delimited JSON. The line of an event ends with a newline and has
  no other, its text reads back as the tree of the event (with invalid UTF-8 replaced) and nothing
  after it, the tree holds no array, and the lines of any events can be told apart again.\<close>
theorem encode_line_ndjson:
  "(\<exists>t. encode_line e = t @ [CHR 0x0A] \<and> CHR 0x0A \<notin> set t
      \<and> json_read t = Some (json_sanitize (event_json e), []))
    \<and> json_flat (event_json e)
    \<and> strings_Split (concat (map encode_line es)) (CHR 0x0A)
        = map (\<lambda>e. json_text (event_json e)) es @ [[]]"
proof -
  have nl: "CHR 0x0A \<notin> set (json_text (event_json e))" for e
    using json_text_no_newline event_json_wf by blast
  have "json_read (json_text (event_json e) @ []) = Some (json_sanitize (event_json e), [])"
    by (rule json_read_text) (simp_all add: event_json_wf)
  moreover have "json_flat (event_json e)" by (rule event_json_flat)
  moreover have "map encode_line es = map (\<lambda>t. t @ [CHR 0x0A]) (map (\<lambda>e. json_text (event_json e)) es)"
    by (simp add: encode_line_def)
  then have "strings_Split (concat (map encode_line es)) (CHR 0x0A)
      = map (\<lambda>e. json_text (event_json e)) es @ [[]]"
    using split_lines [of "map (\<lambda>e. json_text (event_json e)) es" "CHR 0x0A"] nl
    by (simp del: map_map)
  ultimately show ?thesis
    using nl by (auto simp: encode_line_def)
qed

section \<open>The events of a comparison\<close>

text \<open>The events of a list of changes and their delivery to the writer.\<close>

fun lifecycle_events ::
  "(nat \<Rightarrow> nat) \<Rightarrow> (string \<Rightarrow> 64 word) \<Rightarrow> string \<Rightarrow> string \<Rightarrow> matcher \<Rightarrow> (nat \<Rightarrow> utc_time)
     \<Rightarrow> nat \<Rightarrow> service_change list \<Rightarrow> lifecycle_event list" where
  "lifecycle_events uni sum64 sc sn matcher clock n [] = []"
| "lifecycle_events uni sum64 sc sn matcher clock n (ch # chs) =
     (case mapDeltaToLifecycleEvent uni sum64 sc sn (serviceRecordToScanResult (sc_Previous ch))
             (serviceRecordToScanResult (sc_Current ch)) True matcher (clock n) of
        None \<Rightarrow> lifecycle_events uni sum64 sc sn matcher clock n chs
      | Some e \<Rightarrow> e # lifecycle_events uni sum64 sc sn matcher clock (Suc n) chs)"

fun deliver :: "(nat \<Rightarrow> error option) \<Rightarrow> nat \<Rightarrow> lifecycle_event list \<Rightarrow> error option \<times> string list" where
  "deliver wr n [] = (None, [])"
| "deliver wr n (e # es) =
     (case wr n of
        Some err \<Rightarrow> (Some (Wrapf err ''failed to encode lifecycle event NDJSON''), [])
      | None \<Rightarrow> (case deliver wr (Suc n) es of (err, out) \<Rightarrow> (err, encode_line e # out)))"

lemma emit_loop_deliver:
  "emit_loop uni sum64 sc sn matcher clock wr n chs
     = deliver wr n (lifecycle_events uni sum64 sc sn matcher clock n chs)"
  by (induction chs arbitrary: n) (auto split: option.split prod.split)

lemma deliver_all: "\<forall>i<length es. wr (n + i) = None \<Longrightarrow> deliver wr n es = (None, map encode_line es)"
proof (induction es arbitrary: n)
  case (Cons e es)
  have "wr n = None" using Cons.prems by force
  moreover have "deliver wr (Suc n) es = (None, map encode_line es)"
    using Cons.prems by (intro Cons.IH) force
  ultimately show ?case by simp
qed simp

lemma deliver_fails:
  "i < length es \<Longrightarrow> \<forall>j<i. wr (n + j) = None \<Longrightarrow> wr (n + i) = Some err \<Longrightarrow>
     deliver wr n es
       = (Some (Wrapf err ''failed to encode lifecycle event NDJSON''), map encode_line (take i es))"
proof (induction es arbitrary: n i)
  case (Cons e es)
  show ?case
  proof (cases i)
    case 0
    then show ?thesis using Cons.prems by simp
  next
    case (Suc j)
    have "wr n = None" using Cons.prems(2) Suc by force
    moreover have "deliver wr (Suc n) es
        = (Some (Wrapf err ''failed to encode lifecycle event NDJSON''), map encode_line (take j es))"
      using Cons.prems Suc by (intro Cons.IH) force+
    ultimately show ?thesis using Suc by simp
  qed
qed simp

text \<open>What a change calls for: the words of its kind and the service it is about.\<close>

definition kind_words :: "change_kind \<Rightarrow> string \<times> string \<times> string \<times> string" where
  "kind_words kind =
     (case kind of
        ChangeOpened \<Rightarrow> (''service.opened'', ''open'', ''new_service'', ''closed'')
      | ChangeChanged \<Rightarrow> (''service.changed'', ''open'', ''service_mutation'', ''open'')
      | ChangeReopened \<Rightarrow> (''service.reopened'', ''open'', ''service_reopened'', ''closed'')
      | ChangeClosed \<Rightarrow> (''service.closed'', ''closed'', ''service_closed'', ''open''))"

definition change_record :: "service_change \<Rightarrow> service_record option" where
  "change_record ch = (case sc_Current ch of Some r \<Rightarrow> Some r | None \<Rightarrow> sc_Previous ch)"

definition reported :: "(string \<Rightarrow> 64 word) \<Rightarrow> service_change \<Rightarrow> bool" where
  "reported sum64 ch \<longleftrightarrow>
     sc_Kind ch = ChangeChanged \<longrightarrow>
       hashScanResult sum64 (serviceRecordToScanResult (sc_Previous ch))
         \<noteq> hashScanResult sum64 (serviceRecordToScanResult (sc_Current ch))"

definition expected_event ::
  "(nat \<Rightarrow> nat) \<Rightarrow> string \<Rightarrow> string \<Rightarrow> matcher \<Rightarrow> utc_time \<Rightarrow> service_change \<Rightarrow> lifecycle_event" where
  "expected_event uni sc sn matcher now ch =
     (case (kind_words (sc_Kind ch), the (change_record ch)) of
        ((eventType, netState, changeType, previous), r) \<Rightarrow>
          (let res = serviceRecordToScanResult (Some r); asset = asset_of matcher None res in
           make_event sc sn now asset (rec_IP r) (rec_Protocol r) (rec_Port r) eventType netState
             changeType previous (EvaluateRisk uni eventType res (asset_Criticality asset))))"

lemma record_result_simps [simp]:
  "serviceRecordToScanResult None = None"
  "serviceRecordToScanResult (Some r) = None \<longleftrightarrow> False"
  "has_state st (serviceRecordToScanResult (Some r)) \<longleftrightarrow> rec_Status r = st"
  "\<not> has_state st None"
  "sr_Protocol (the (serviceRecordToScanResult (Some r))) = rec_Protocol r"
  "sr_TargetIP (the (serviceRecordToScanResult (Some r))) = rec_IP r"
  "sr_Port (the (serviceRecordToScanResult (Some r))) = rec_Port r"
  by (simp_all add: serviceRecordToScanResult_def has_state_def)

lemma asset_of_current: "asset_of matcher p (Some c) = asset_of matcher None (Some c)"
  by (simp add: asset_of_def)

lemma asset_of_previous: "asset_of matcher (Some p) None = asset_of matcher None (Some p)"
  by (simp add: asset_of_def)

lemma asset_of_IP [simp]:
  "asset_IP (asset_of matcher None (serviceRecordToScanResult (Some r))) = rec_IP r"
  by (simp add: asset_of_def serviceRecordToScanResult_def Let_def split: prod.split)

text \<open>The labels of an event, with any matcher: those of the address of the record, or the default ones.\<close>

definition asset_labels :: "asset_identity \<Rightarrow> asset_context" where
  "asset_labels asset =
     \<lparr>ctx_Environment = asset_Environment asset, ctx_Criticality = asset_Criticality asset,
      ctx_Owner = asset_Owner asset\<rparr>"

lemma ParseAddr_empty: "isl (netip_ParseAddr [])"
  by (simp add: netip_ParseAddr_def)

context asset_matcher
begin

lemma MatchString_record:
  "asset_labels (asset_of (Some MatchString) None (serviceRecordToScanResult (Some r)))
     = (case netip_ParseAddr (rec_IP r) of Inl err \<Rightarrow> defaultContext | Inr a \<Rightarrow> Match a)"
proof -
  have "asset_labels (asset_of (Some MatchString) None (serviceRecordToScanResult (Some r)))
      = (if rec_IP r = [] then defaultContext else MatchString (rec_IP r))"
    by (simp add: asset_labels_def asset_of_def serviceRecordToScanResult_def Let_def defaultContext_def)
  with ParseAddr_empty show ?thesis
    by (cases "netip_ParseAddr (rec_IP r)") (auto simp: MatchString_addr MatchString_no_addr)
qed

lemma event_labels:
  assumes "change_record ch = Some r"
  shows "asset_labels (ev_Asset (expected_event uni sc sn (Some MatchString) now ch))
    = (case netip_ParseAddr (rec_IP r) of Inl err \<Rightarrow> defaultContext | Inr a \<Rightarrow> Match a)"
  using MatchString_record [of r] assms
  by (simp add: expected_event_def make_event_def Let_def split: prod.split)

end

text \<open>With the matcher of an inventory: the event of a service carries the labels of a most specific rule
  that contains its address, and the default ones when no rule does.\<close>
lemma event_most_specific:
  fixes uni sc sn now rules
  assumes "sorts_rules sortFunc" "change_record ch = Some r" "netip_ParseAddr (rec_IP r) = Inr a"
  defines "labels \<equiv> asset_labels (ev_Asset (expected_event uni sc sn
      (Some (cidrMatcher_MatchString (NewMatcher sortFunc rules))) now ch))"
  shows "if \<exists>rule\<in>set rules. prefix_Contains (rule_Prefix rule) a
    then \<exists>rule. best_rule (set rules) a rule \<and> labels = context_of rule
    else labels = defaultContext"
  using Match_best [OF assms(1), of rules a] cidr.event_labels [OF assms(2)] assms(3)
  by (simp add: labels_def)

text \<open>A change of a comparison of valid records gives its event, when it is reported.\<close>

lemma event_of_change:
  assumes "change_of k p c = Some ch"
    and "\<And>r. p = Some r \<Longrightarrow> rec_Status r \<in> {ServiceStatusOpen, ServiceStatusClosed}"
    and "\<And>r. c = Some r \<Longrightarrow> rec_Status r = ServiceStatusOpen"
    and "\<And>r r'. p = Some r \<Longrightarrow> c = Some r' \<Longrightarrow> rec_Protocol r = rec_Protocol r'"
  shows "mapDeltaToLifecycleEvent uni sum64 sc sn (serviceRecordToScanResult (sc_Previous ch))
      (serviceRecordToScanResult (sc_Current ch)) True matcher now
     = (if reported sum64 ch then Some (expected_event uni sc sn matcher now ch) else None)"
proof (cases c)
  case None
  then obtain r where r: "p = Some r" "rec_Status r = ServiceStatusOpen"
    "ch = \<lparr>sc_Kind = ChangeClosed, sc_ServiceKey = k, sc_Previous = Some r, sc_Current = None\<rparr>"
    using assms(1,2) by (auto simp: change_of_def split: option.splits if_splits)
  obtain q where q: "serviceRecordToScanResult (Some r) = Some q"
    by (simp add: serviceRecordToScanResult_def)
  have "asset_of matcher (serviceRecordToScanResult (Some r)) None
      = asset_of matcher None (serviceRecordToScanResult (Some r))"
    unfolding q by (rule asset_of_previous)
  then show ?thesis
    using r
    by (simp add: mapDeltaToLifecycleEvent_def expected_event_def reported_def kind_words_def
        change_record_def status_defs Let_def)
next
  case (Some r)
  have st: "rec_Status r = ''open''" using assms(3) Some by (simp add: status_defs)
  obtain q where q: "serviceRecordToScanResult (Some r) = Some q"
    by (simp add: serviceRecordToScanResult_def)
  have asset: "asset_of matcher x (serviceRecordToScanResult (Some r))
      = asset_of matcher None (serviceRecordToScanResult (Some r))" for x
    unfolding q by (rule asset_of_current)
  note simps = mapDeltaToLifecycleEvent_def expected_event_def reported_def kind_words_def
    change_record_def Let_def
  show ?thesis
  proof (cases p)
    case None
    then have "ch = \<lparr>sc_Kind = ChangeOpened, sc_ServiceKey = k, sc_Previous = None, sc_Current = Some r\<rparr>"
      using assms(1) Some by (simp add: change_of_def)
    then show ?thesis using st by (simp add: simps)
  next
    case (Some r0)
    then have proto: "rec_Protocol r0 = rec_Protocol r" using assms(4) \<open>c = Some r\<close> by simp
    show ?thesis
    proof (cases "rec_Status r0 = ServiceStatusClosed")
      case True
      then have "ch = \<lparr>sc_Kind = ChangeReopened, sc_ServiceKey = k, sc_Previous = Some r0, sc_Current = Some r\<rparr>"
        using assms(1) Some \<open>c = Some r\<close> by (simp add: change_of_def)
      then show ?thesis using st True proto by (simp add: simps asset [of "serviceRecordToScanResult (Some r0)"] status_defs)
    next
      case False
      then have "ch = \<lparr>sc_Kind = ChangeChanged, sc_ServiceKey = k, sc_Previous = Some r0, sc_Current = Some r\<rparr>"
        "rec_Status r0 = ''open''"
        using assms(1,2) Some \<open>c = Some r\<close>
        by (auto simp: change_of_def status_defs split: if_splits)
      then show ?thesis using st proto by (simp add: simps asset [of "serviceRecordToScanResult (Some r0)"])
    qed
  qed
qed

lemma lifecycle_events_expected:
  assumes "\<And>ch now. ch \<in> set chs \<Longrightarrow>
     mapDeltaToLifecycleEvent uni sum64 sc sn (serviceRecordToScanResult (sc_Previous ch))
       (serviceRecordToScanResult (sc_Current ch)) True matcher now
      = (if reported sum64 ch then Some (expected_event uni sc sn matcher now ch) else None)"
  shows "lifecycle_events uni sum64 sc sn matcher clock n chs
     = map (\<lambda>(i, ch). expected_event uni sc sn matcher (clock i) ch)
         (enumerate n (filter (reported sum64) chs))"
  using assms by (induction chs arbitrary: n) auto

section \<open>Event identifiers\<close>

lemma append_sep_inj:
  assumes "x @ c # a = y @ c # b" "c \<notin> set a" "c \<notin> set b"
  shows "x = y \<and> a = b"
proof -
  have "rev a @ c # rev x = rev b @ c # rev y" using arg_cong [OF assms(1), of rev] by simp
  then have "takeWhile (\<lambda>d. d \<noteq> c) (rev a @ c # rev x) = takeWhile (\<lambda>d. d \<noteq> c) (rev b @ c # rev y)"
    by simp
  moreover have "takeWhile (\<lambda>d. d \<noteq> c) (rev z @ c # w) = rev z" if "c \<notin> set z" for z w
    using that by (subst takeWhile_append2) auto
  ultimately have "a = b" using assms(2,3) by simp
  with assms(1) show ?thesis by simp
qed

lemma event_id_inj:
  assumes "event_id sn ip proto port = event_id sn ip' proto' port'"
    and "proto \<in> {''tcp'', ''udp''}" "proto' \<in> {''tcp'', ''udp''}" "0 \<le> port" "0 \<le> port'"
  shows "ip = ip' \<and> proto = proto' \<and> port = port'"
proof -
  have nd: "CHR ''-'' \<notin> set (strconv_Itoa i)" if "0 \<le> i" for i
    using that nat_to_dec_digits [of "nat i"]
    by (auto simp: strconv_Itoa_def list_all_iff is_digit_def)
  have "(ip @ CHR ''-'' # proto) @ CHR ''-'' # strconv_Itoa port
      = (ip' @ CHR ''-'' # proto') @ CHR ''-'' # strconv_Itoa port'"
    using assms(1) by (simp add: event_id_def)
  from append_sep_inj [OF this nd nd] assms(4,5)
  have "ip @ CHR ''-'' # proto = ip' @ CHR ''-'' # proto'" "strconv_Itoa port = strconv_Itoa port'"
    by auto
  moreover from append_sep_inj [OF this(1)] assms(2,3) have "ip = ip' \<and> proto = proto'" by auto
  ultimately show ?thesis using strconv_Itoa_inj by blast
qed

definition identity_of :: "string \<Rightarrow> service_record \<Rightarrow> service_identity" where
  "identity_of sc r =
     \<lparr>id_ScopeID = sc, id_IP = rec_IP r, id_Port = rec_Port r, id_Protocol = rec_Protocol r\<rparr>"

definition key_collision :: "string \<Rightarrow> service_record \<Rightarrow> service_record \<Rightarrow> bool" where
  "key_collision sc r r' \<longleftrightarrow>
     sha256_collision (identity_payload (identity_of sc r)) (identity_payload (identity_of sc r'))"

lemma record_ok_Key:
  "record_ok sc cur k r \<Longrightarrow> ServiceIdentity_Key (identity_of sc r) = Inr k
     \<and> normalizeServiceIP (rec_IP r) = Inr (rec_IP r) \<and> utf8_ok (rec_IP r)
     \<and> rec_Protocol r \<in> {''tcp'', ''udp''} \<and> 1 \<le> rec_Port r"
  by (auto simp: record_ok_def validate_record_None identity_of_def ServiceIdentity_Key_Inr
      record_utf8_def)

lemma same_key:
  assumes "record_ok sc cur k r" "record_ok sc cur' k r'" "utf8_ok sc" "\<not> key_collision sc r r'"
  shows "rec_Protocol r = rec_Protocol r'"
proof -
  note r = record_ok_Key [OF assms(1)] and r' = record_ok_Key [OF assms(2)]
  have "same_service (identity_of sc r) (identity_of sc r')"
    using Key_eq_iff [of "identity_of sc r" k "identity_of sc r'" k] r r' assms(3,4)
    by (simp add: key_collision_def) (simp add: identity_of_def)
  then show ?thesis by (simp add: same_service_def identity_of_def)
qed

lemma other_key:
  assumes "record_ok sc cur k r" "record_ok sc cur' l r'" "k \<noteq> l"
  shows "event_id sn (rec_IP r) (rec_Protocol r) (rec_Port r)
    \<noteq> event_id sn (rec_IP r') (rec_Protocol r') (rec_Port r')"
proof
  assume "event_id sn (rec_IP r) (rec_Protocol r) (rec_Port r)
    = event_id sn (rec_IP r') (rec_Protocol r') (rec_Port r')"
  moreover have "0 \<le> rec_Port r" "0 \<le> rec_Port r'"
    using record_ok_Key [OF assms(1)] record_ok_Key [OF assms(2)] by linarith+
  ultimately have "rec_IP r = rec_IP r' \<and> rec_Protocol r = rec_Protocol r' \<and> rec_Port r = rec_Port r'"
    using record_ok_Key [OF assms(1)] record_ok_Key [OF assms(2)] by (intro event_id_inj) blast+
  then have "identity_of sc r = identity_of sc r'" by (simp add: identity_of_def)
  then show False using record_ok_Key [OF assms(1)] record_ok_Key [OF assms(2)] assms(3) by simp
qed

lemma expected_event_id:
  "ev_EventID (expected_event uni sc sn matcher now ch)
     = (let r = the (change_record ch) in event_id sn (rec_IP r) (rec_Protocol r) (rec_Port r))"
  by (simp add: expected_event_def make_event_def Let_def split: prod.split)

lemma distinct_event_ids:
  assumes "distinct (map sc_ServiceKey chs)"
    and "\<And>ch. ch \<in> set chs \<Longrightarrow> \<exists>cur. record_ok sc cur (sc_ServiceKey ch) (the (change_record ch))"
  shows "distinct (map ev_EventID (map (\<lambda>(i, ch). expected_event uni sc sn matcher (clock i) ch)
           (enumerate n chs)))"
proof -
  let ?id = "\<lambda>ch. let r = the (change_record ch) in event_id sn (rec_IP r) (rec_Protocol r) (rec_Port r)"
  have "map ev_EventID (map (\<lambda>(i, ch). expected_event uni sc sn matcher (clock i) ch) (enumerate n chs))
      = map ?id chs"
    by (induction chs arbitrary: n) (simp_all add: expected_event_id)
  moreover have "inj_on ?id (set chs)"
  proof (rule inj_onI)
    fix a b assume ab: "a \<in> set chs" "b \<in> set chs" "?id a = ?id b"
    obtain ca cb where "record_ok sc ca (sc_ServiceKey a) (the (change_record a))"
      "record_ok sc cb (sc_ServiceKey b) (the (change_record b))"
      using assms(2) ab(1,2) by meson
    then have "sc_ServiceKey a = sc_ServiceKey b" using other_key ab(3) by (metis (lifting))
    then show "a = b" using assms(1) ab(1,2) by (meson distinct_map inj_onD)
  qed
  moreover have "distinct chs" using assms(1) distinct_map by blast
  ultimately show ?thesis by (simp add: distinct_map)
qed

section \<open>What is emitted for a comparison\<close>

text \<open>The events that the changes of a comparison call for, in their order; a change is left out only
  when the hashes of the two sides agree.\<close>

definition scan_events ::
  "(nat \<Rightarrow> nat) \<Rightarrow> (string \<Rightarrow> 64 word) \<Rightarrow> (nat \<Rightarrow> utc_time) \<Rightarrow> string \<Rightarrow> string \<Rightarrow> matcher
     \<Rightarrow> service_change list \<Rightarrow> lifecycle_event list" where
  "scan_events uni sum64 clock sc sn matcher chs =
     map (\<lambda>(i, ch). expected_event uni sc sn matcher (clock i) ch)
       (enumerate 0 (filter (reported sum64) chs))"

lemma reconcile_change:
  assumes "store_wf s" "ranges_ok rng"
    and "ch \<in> set (reconcileServiceRecords rng (committed sc s) (observed sc sn s))"
  shows "\<exists>k. change_of k (committed sc s k) (observed sc sn s k) = Some ch"
    "\<exists>cur. record_ok sc cur (sc_ServiceKey ch) (the (change_record ch))"
proof -
  obtain k where k: "change_of k (committed sc s k) (observed sc sn s k) = Some ch"
    using assms by (auto simp: reconcile_spec(1) changes_of_def)
  then show "\<exists>k. change_of k (committed sc s k) (observed sc sn s k) = Some ch" by blast
  have ch: "sc_ServiceKey ch = k" "sc_Previous ch = committed sc s k" "sc_Current ch = observed sc sn s k"
    using change_of_key [OF k] change_of_parts [OF k] by auto
  show "\<exists>cur. record_ok sc cur (sc_ServiceKey ch) (the (change_record ch))"
  proof (cases "observed sc sn s k")
    case None
    then obtain r where "committed sc s k = Some r" using k by (auto simp: change_of_def split: option.splits)
    with None ch show ?thesis using committed_ok [of sc s k r] by (auto simp: change_record_def)
  next
    case (Some r)
    with ch show ?thesis using observed_ok [of sc sn s k r] by (auto simp: change_record_def)
  qed
qed

lemma emit_reconcile:
  assumes "store_wf s" "ranges_ok rng" "utf8_ok sc"
    and coll: "\<And>k p c. committed sc s k = Some p \<Longrightarrow> observed sc sn s k = Some c \<Longrightarrow>
       \<not> key_collision sc p c"
    and chs: "chs = reconcileServiceRecords rng (committed sc s) (observed sc sn s)"
  shows "EmitLifecycleChanges uni sum64 clock wr sc sn chs matcher
      = deliver wr 0 (scan_events uni sum64 clock sc sn matcher chs)"
    "distinct (map ev_EventID (scan_events uni sum64 clock sc sn matcher chs))"
proof -
  have "mapDeltaToLifecycleEvent uni sum64 sc sn (serviceRecordToScanResult (sc_Previous ch))
       (serviceRecordToScanResult (sc_Current ch)) True matcher now
      = (if reported sum64 ch then Some (expected_event uni sc sn matcher now ch) else None)"
    if "ch \<in> set chs" for ch now
  proof -
    obtain k where k: "change_of k (committed sc s k) (observed sc sn s k) = Some ch"
      using reconcile_change(1) [OF assms(1,2)] \<open>ch \<in> set chs\<close> unfolding chs by blast
    show ?thesis
      by (rule event_of_change [OF k])
        (use committed_status observed_open same_key [OF committed_ok observed_ok assms(3) coll] in blast)+
  qed
  then show "EmitLifecycleChanges uni sum64 clock wr sc sn chs matcher
      = deliver wr 0 (scan_events uni sum64 clock sc sn matcher chs)"
    by (simp only: EmitLifecycleChanges_def emit_loop_deliver lifecycle_events_expected scan_events_def)
  have "distinct (map sc_ServiceKey chs)"
    using reconcile_spec(3) [OF assms(2)] assms(1) unfolding chs by simp
  then have "distinct (map sc_ServiceKey (filter (reported sum64) chs))" by (rule distinct_map_filter)
  then show "distinct (map ev_EventID (scan_events uni sum64 clock sc sn matcher chs))"
    unfolding scan_events_def
    using reconcile_change(2) [OF assms(1,2)] chs by (intro distinct_event_ids) auto
qed

text \<open>C15: emission. For the changes of a comparison of valid records the writer gets, in the order of
  the changes, one line for each change whose hashes differ: the event its kind calls for, about the
  observed service or, when it is gone, the committed one. The event identifiers are all different.
  When a write fails, emission stops there with an error that wraps it, and what was written before
  are the first lines; when none fails, every line is written. (A service key that stands for two
  services would be a collision of SHA-256.)\<close>
theorem EmitLifecycleChanges_lines:
  assumes "store_wf s" "ranges_ok rng" "utf8_ok scopeID"
    and "\<forall>k p c. committed scopeID s k = Some p \<and> observed scopeID scanID s k = Some c
       \<longrightarrow> \<not> key_collision scopeID p c"
    and "changes = reconcileServiceRecords rng (committed scopeID s) (observed scopeID scanID s)"
    and "events = scan_events uni sum64 clock scopeID scanID matcher changes"
    and "EmitLifecycleChanges uni sum64 clock wr scopeID scanID changes matcher = (err, lines)"
  shows "distinct (map ev_EventID events)
    \<and> (if \<forall>i<length events. wr i = None
       then err = None \<and> lines = map encode_line events
       else \<exists>i e. i < length events \<and> wr i = Some e \<and> (\<forall>j<i. wr j = None)
         \<and> err = Some (Wrapf e ''failed to encode lifecycle event NDJSON'')
         \<and> lines = map encode_line (take i events))"
proof -
  have coll: "\<not> key_collision scopeID p c"
    if "committed scopeID s k = Some p" "observed scopeID scanID s k = Some c" for k p c
    using that assms(4) by blast
  have emit: "deliver wr 0 events = (err, lines)" "distinct (map ev_EventID events)"
    using emit_reconcile [OF assms(1-3) coll assms(5)] assms(6,7) by auto
  show ?thesis
  proof (cases "\<forall>i<length events. wr i = None")
    case True
    then show ?thesis using emit deliver_all [of events _ 0] by simp
  next
    case False
    define i where "i = (LEAST i. wr i \<noteq> None)"
    obtain m where m: "m < length events" "wr m \<noteq> None" using False by blast
    have "wr i \<noteq> None" unfolding i_def by (rule LeastI [of "\<lambda>i. wr i \<noteq> None", OF m(2)])
    moreover have "i \<le> m" unfolding i_def by (rule Least_le [of "\<lambda>i. wr i \<noteq> None", OF m(2)])
    moreover have "wr j = None" if "j < i" for j
      using not_less_Least [of j "\<lambda>i. wr i \<noteq> None"] that unfolding i_def by blast
    ultimately have i: "wr i \<noteq> None" "i < length events" "\<forall>j<i. wr j = None"
      using m(1) by auto
    then obtain e where e: "wr i = Some e" by blast
    then have "deliver wr 0 events = (Some (Wrapf e ''failed to encode lifecycle event NDJSON''),
        map encode_line (take i events))"
      using i by (intro deliver_fails) simp_all
    then have "err = Some (Wrapf e ''failed to encode lifecycle event NDJSON'')"
      "lines = map encode_line (take i events)"
      using emit(1) by simp_all
    with i e emit(2) False show ?thesis by (simp only: if_False) blast
  qed
qed

text \<open>The first scan of the sample store, with a writer that accepts everything.\<close>

lemma sample_changes:
  "reconcileServiceRecords sorted_ranges Map.empty [sample_key \<mapsto> sample_record]
     = [\<lparr>sc_Kind = ChangeOpened, sc_ServiceKey = sample_key, sc_Previous = None,
         sc_Current = Some sample_record\<rparr>]"
  by (simp add: reconcileServiceRecords_def sorted_ranges_def)

lemma EmitLifecycleChanges_lines_witness:
  "\<exists>line. EmitLifecycleChanges (\<lambda>r. r) (\<lambda>p. 0) (\<lambda>n. sample_time) (\<lambda>n. None) ''s'' ''a''
     (reconcileServiceRecords sorted_ranges (committed ''s'' sample_store)
        (observed ''s'' ''a'' sample_store)) None = (None, [line])"
proof -
  let ?chs = "reconcileServiceRecords sorted_ranges (committed ''s'' sample_store)
    (observed ''s'' ''a'' sample_store)"
  let ?evs = "scan_events (\<lambda>r. r) (\<lambda>p. 0) (\<lambda>n. sample_time) ''s'' ''a'' None ?chs"
  obtain err out where out: "EmitLifecycleChanges (\<lambda>r. r) (\<lambda>p. 0) (\<lambda>n. sample_time) (\<lambda>n. None)
      ''s'' ''a'' ?chs None = (err, out)" by force
  have "length ?evs = 1"
    by (simp add: sample_committed sample_observed sample_changes scan_events_def reported_def)
  moreover have "err = None \<and> out = map encode_line ?evs"
    using EmitLifecycleChanges_lines [OF sample_store_wf ranges_ok_sorted _ _ refl refl out]
    by (simp add: sample_committed)
  ultimately show ?thesis using out by (auto simp: length_Suc_conv)
qed

section \<open>Changes that are compared but not reported\<close>

text \<open>The comparison looks at the operating-system hint, the hash does not: a service of which only
  the hint differs is a change of the comparison for which no event is emitted.\<close>

lemma OSHint_change_not_reported:
  assumes "rec_Status r = ServiceStatusOpen" "hint \<noteq> rec_OSHint r"
  shows "\<exists>ch. change_of k (Some r) (Some (r\<lparr>rec_OSHint := hint\<rparr>)) = Some ch
    \<and> sc_Kind ch = ChangeChanged \<and> \<not> reported sum64 ch"
  using assms
  by (simp add: change_of_def serviceComparisonEqual_iff reported_def hashScanResult_def
      serviceRecordToScanResult_def state_payload_def status_defs)

text \<open>The fields are joined with a bar and not quoted: moving a bar from one field to the next is not
  reported either.\<close>

lemma bar_change_not_reported:
  assumes "rec_Status r = ServiceStatusOpen"
  shows "\<exists>ch. change_of k (Some (r\<lparr>rec_Banner := ''a|b'', rec_CertSubject := ''c''\<rparr>))
      (Some (r\<lparr>rec_Banner := ''a'', rec_CertSubject := ''b|c''\<rparr>)) = Some ch
    \<and> sc_Kind ch = ChangeChanged \<and> \<not> reported sum64 ch"
  using assms
  by (simp add: change_of_def serviceComparisonEqual_iff reported_def hashScanResult_def
      serviceRecordToScanResult_def state_payload_def status_defs)

text \<open>The records of the state hold no TLS version: the risk of a service never has a TLS reason,
  whatever the scan saw.\<close>

lemma record_result_no_tls:
  "serviceRecordToScanResult (Some r) = Some q \<Longrightarrow> crypto_posture (sr_TLSVersion q) (sr_CertVerified q) = (0, [])"
proof -
  assume "serviceRecordToScanResult (Some r) = Some q"
  then have "sr_TLSVersion q = []"
    by (auto simp: serviceRecordToScanResult_def zero_scan_result_def)
  moreover have "strings_TrimSpace [] = []" by (rule strings_TrimSpace_graphic) simp
  ultimately show ?thesis by (simp add: crypto_posture_def)
qed
end
