(* ===== verification/Lifecycle.thy ===== *)
theory Lifecycle
  imports Execution LifecycleEmitter
begin

text \<open>
  \<^verbatim>\<open>cmd/tcprecon/runtime_lifecycle.go\<close> and \<^verbatim>\<open>runtime_output.go\<close>: one run of the program, from the
  preparation of the targets to the closing of the database, as the composition of the other
  components. What is outside - the file system, the database, the entropy, the clock, the network
  behind the scanner - is in the environment record; what the run does to it is a list of actions.
\<close>

section \<open>Output\<close>

datatype notice =
    N_failure error
  | N_started int int int int
  | N_completed int
  | N_incomplete string "error option"

datatype action =
    Files effect
  | DbOpen
  | DbClose
  | Stdout string
  | Stderr notice

definition RuntimeFailure :: "error option \<Rightarrow> action list" where
  "RuntimeFailure err = (case err of Some e \<Rightarrow> [Stderr (N_failure e)] | None \<Rightarrow> [])"

definition ScanStarted :: "bool \<Rightarrow> int \<Rightarrow> int \<Rightarrow> int \<Rightarrow> action list" where
  "ScanStarted jsonMode tcpPorts udpPorts workers =
     (if jsonMode then []
      else (let totalPorts = tcpPorts + udpPorts in
            [Stderr (N_started totalPorts tcpPorts udpPorts workers)]))"

definition ScanFinished :: "bool \<Rightarrow> int \<Rightarrow> scan_completion \<Rightarrow> action list" where
  "ScanFinished jsonMode openPorts completion =
     (if Successful completion then
        (if \<not> jsonMode then [Stderr (N_completed openPorts)] else [])
      else if comp_Err completion \<noteq> None
      then [Stderr (N_incomplete (comp_Status completion) (comp_Err completion))]
      else [Stderr (N_incomplete (comp_Status completion) None)])"

definition LifecycleChanges ::
  "(nat \<Rightarrow> nat) \<Rightarrow> (string \<Rightarrow> 64 word) \<Rightarrow> (nat \<Rightarrow> utc_time) \<Rightarrow> (nat \<Rightarrow> error option) \<Rightarrow> string
     \<Rightarrow> string \<Rightarrow> service_change list \<Rightarrow> matcher \<Rightarrow> error option \<times> action list" where
  "LifecycleChanges uni sum64 clock wr scopeID scanID changes matcher =
     (case EmitLifecycleChanges uni sum64 clock wr scopeID scanID changes matcher of
        (err, lines) \<Rightarrow> (err, map Stdout lines))"

section \<open>The run\<close>

record runtime_config =
  rc_DBPath :: string
  rc_TCPPorts :: "int list"
  rc_UDPPorts :: "int list"
  rc_Workers :: int
  rc_Timeout :: int
  rc_RateLimit :: int
  rc_DebugMode :: bool
  rc_JSONMode :: bool
  rc_Matcher :: matcher

text \<open>\<^verbatim>\<open>runtimeScannerStart\<close>: what the two channels deliver, for the target list, the ports, the number of
  workers, the time-out in nanoseconds, the rate and the two modes.\<close>

type_synonym scanner_start =
  "string \<Rightarrow> int list \<Rightarrow> int list \<Rightarrow> int \<Rightarrow> int \<Rightarrow> int \<Rightarrow> bool \<Rightarrow> bool
     \<Rightarrow> scan_result list \<times> scan_completion option"

record 'db runtime_env =
  re_prepare :: "(error + prepared_source) \<times> effect list"
  re_spool :: spool_env
  re_open :: "string \<Rightarrow> error + 'db"
  re_close :: "error option"
  re_ctxErr :: "nat \<Rightarrow> error option"
  re_generate :: "nat \<Rightarrow> error + string"
  re_scan :: scanner_start
  re_pick :: "nat \<Rightarrow> bool"
  re_ranges :: range_env
  re_now :: utc_time
  re_clock :: "nat \<Rightarrow> utc_time"
  re_write :: "nat \<Rightarrow> error option"
  re_unicode :: "nat \<Rightarrow> nat"
  re_sum64 :: "string \<Rightarrow> 64 word"

record runtime_outcome =
  ro_ScopeID :: string
  ro_ScanID :: string
  ro_Execution :: runtime_execution
  ro_Err :: "error option"

definition zero_outcome :: runtime_outcome where
  "zero_outcome =
     \<lparr>ro_ScopeID = [], ro_ScanID = [],
      ro_Execution = \<lparr>rx_OpenPorts = 0, rx_Completion = \<lparr>comp_Status = [], comp_Err = None\<rparr>,
        rx_Changes = [], rx_Err = None\<rparr>,
      ro_Err = None\<rparr>"

text \<open>\<^verbatim>\<open>fail\<close>: the outcome with its error, reported.\<close>

definition fail_run ::
  "runtime_outcome \<Rightarrow> error option \<Rightarrow> action list \<Rightarrow> runtime_outcome \<times> action list" where
  "fail_run outcome err actions = (outcome\<lparr>ro_Err := err\<rparr>, actions @ RuntimeFailure err)"

definition start_scanner ::
  "'db runtime_env \<Rightarrow> runtime_config \<Rightarrow> string \<Rightarrow> scan_result list \<times> scan_completion option" where
  "start_scanner env config targetStream =
     re_scan env targetStream (rc_TCPPorts config) (rc_UDPPorts config) (rc_Workers config)
       (rc_Timeout config) (rc_RateLimit config) (rc_DebugMode config) (rc_JSONMode config)"

text \<open>From the reserved scan on.\<close>

definition run_owned ::
  "('db, 'tx) bolt \<Rightarrow> runtime_config \<Rightarrow> 'db runtime_env \<Rightarrow> string \<Rightarrow> owned_scan \<Rightarrow> 'db
     \<Rightarrow> (runtime_outcome \<times> action list) \<times> 'db" where
  "run_owned B config env scopeID owned db =
     (let scanID = owned_ScanID owned;
          started = ScanStarted (rc_JSONMode config) (int (length (rc_TCPPorts config)))
            (int (length (rc_UDPPorts config))) (rc_Workers config);
          (results, completions) = start_scanner env config (owned_Reader owned);
          ((execution, effects), db) =
            executeOwnedRuntimeScan (re_spool env) owned (re_pick env) results completions
              (newRuntimeObservationPersister B owned) (FinalizeCurrentScan B (re_ranges env)) db;
          (emitErr, emitted) =
            LifecycleChanges (re_unicode env) (re_sum64 env) (re_clock env) (re_write env)
              scopeID scanID (rx_Changes execution) (rc_Matcher config);
          finished = ScanFinished (rc_JSONMode config) (rx_OpenPorts execution) (rx_Completion execution);
          closeErr = re_close env
      in ((\<lparr>ro_ScopeID = scopeID, ro_ScanID = scanID, ro_Execution = execution,
            ro_Err = errors_Join [rx_Err execution, closeErr]\<rparr>,
           started @ map Files effects @ emitted @ RuntimeFailure emitErr @ finished @ [DbClose]
           @ RuntimeFailure closeErr), db))"

text \<open>The state after the run is \<^const>\<open>None\<close> when the database was not opened.\<close>

definition runLifecycleRuntime ::
  "('db, 'tx) bolt \<Rightarrow> runtime_config \<Rightarrow> 'db runtime_env
     \<Rightarrow> (runtime_outcome \<times> action list) \<times> 'db option" where
  "runLifecycleRuntime B config env =
     (case re_prepare env of
        (Inl err, effects) \<Rightarrow> (fail_run zero_outcome (Some err) (map Files effects), None)
      | (Inr prepared, effects) \<Rightarrow>
          (let scopeID = ScanScope_ID (re_unicode env)
                 \<lparr>ss_Targets = prepared_Targets prepared, ss_TCPPorts = rc_TCPPorts config,
                  ss_UDPPorts = rc_UDPPorts config\<rparr>;
               outcome = zero_outcome\<lparr>ro_ScopeID := scopeID\<rparr>;
               before = map Files effects
           in
           case re_open env (rc_DBPath config) of
             Inl err \<Rightarrow>
               (case prepared_Close (re_spool env) prepared of
                  (closeErr, _, closing) \<Rightarrow>
                    (fail_run outcome (errors_Join [Some err, closeErr]) (before @ map Files closing), None))
           | Inr db \<Rightarrow>
               (case InitializeStateSchema B (re_now env) db of
                  (Inl err, db) \<Rightarrow>
                    (case prepared_Close (re_spool env) prepared of
                       (closeErr, _, closing) \<Rightarrow>
                         (fail_run outcome (errors_Join [Some err, closeErr, re_close env])
                            (before @ [DbOpen] @ map Files closing @ [DbClose]), Some db))
                | (Inr _, db) \<Rightarrow>
                    (case reservePreparedRuntimeScanWith (re_ctxErr env) (re_spool env) scopeID prepared
                            (re_generate env) (CreateCurrentScanExclusive B) db of
                       ((Inl err, closing), db) \<Rightarrow>
                         (fail_run outcome (errors_Join [Some err, re_close env])
                            (before @ [DbOpen] @ map Files closing @ [DbClose]), Some db)
                     | ((Inr owned, closing), db) \<Rightarrow>
                         (case run_owned B config env scopeID owned db of
                            ((outcome, actions), db) \<Rightarrow>
                              ((outcome, before @ [DbOpen] @ map Files closing @ actions), Some db))))))"

section \<open>What a run opens it closes\<close>

lemma no_files_output [simp]:
  "Files f \<notin> set (RuntimeFailure e)" "Files f \<notin> set (ScanStarted j t u w)"
  "Files f \<notin> set (ScanFinished j n c)" "DbClose \<notin> set (RuntimeFailure e)"
  "DbClose \<notin> set (ScanStarted j t u w)" "DbClose \<notin> set (ScanFinished j n c)"
  "DbOpen \<notin> set (RuntimeFailure e)" "DbOpen \<notin> set (ScanStarted j t u w)"
  "DbOpen \<notin> set (ScanFinished j n c)"
  by (auto simp: RuntimeFailure_def ScanStarted_def ScanFinished_def Let_def split: option.splits if_splits)

text \<open>The actions that are not output.\<close>

fun is_output :: "action \<Rightarrow> bool" where
  "is_output (Stdout l) = True"
| "is_output (Stderr n) = True"
| "is_output _ = False"

definition resources :: "action list \<Rightarrow> action list" where
  "resources as = filter (\<lambda>a. \<not> is_output a) as"

lemma resources_append [simp]: "resources (as @ bs) = resources as @ resources bs"
  by (simp add: resources_def)

lemma resources_simps [simp]:
  "resources [] = []" "resources (map Files es) = map Files es" "resources (map Stdout ls) = []"
  "resources (Files e # as) = Files e # resources as" "resources (DbOpen # as) = DbOpen # resources as"
  "resources (DbClose # as) = DbClose # resources as"
  "resources (RuntimeFailure err) = []" "resources (ScanStarted j t u w) = []"
  "resources (ScanFinished j n c) = []"
  by (auto simp: resources_def RuntimeFailure_def ScanStarted_def ScanFinished_def Let_def filter_empty_conv
      filter_map o_def split: option.splits)

definition closes_spool :: "prepared_source \<Rightarrow> action list" where
  "closes_spool prepared = map Files [SpoolClose, SpoolRemove (prepared_Path prepared)]"

lemma run_owned_resources:
  assumes "run_owned B config env scopeID owned db = ((outcome, actions), db')"
    and "ps_closed (owned_prepared owned) = None"
  shows "resources actions = closes_spool (owned_prepared owned) @ [DbClose]"
proof -
  obtain results completions where scan:
    "start_scanner env config (owned_Reader owned) = (results, completions)"
    by force
  obtain execution effects d where ex:
    "executeOwnedRuntimeScan (re_spool env) owned (re_pick env) results completions
       (newRuntimeObservationPersister B owned) (FinalizeCurrentScan B (re_ranges env)) db
     = ((execution, effects), d)" by (metis prod.exhaust)
  then have "effects = [SpoolClose, SpoolRemove (prepared_Path (owned_prepared owned))]"
    using assms(2)
    by (auto simp: executeOwnedRuntimeScan_def owned_Close_def prepared_Close_def Let_def
        prepared_Path_def split: prod.splits)
  with assms(1) scan ex show ?thesis
    by (auto simp: run_owned_def Let_def LifecycleChanges_def closes_spool_def split: prod.splits)
qed

text \<open>C38: a run leaks nothing. Once the targets are prepared, the temporary file is closed and removed exactly
  once, whatever happens; once the database is opened it is closed exactly once, after the temporary
  file and after everything else but the last message. When the preparation failed nothing was
  opened.\<close>
theorem runLifecycleRuntime_resources:
  assumes run: "runLifecycleRuntime B config env = ((outcome, actions), state)"
    and fresh: "\<And>prepared effects. re_prepare env = (Inr prepared, effects) \<Longrightarrow> ps_closed prepared = None"
  shows "resources actions =
    (case re_prepare env of
       (Inl err, effects) \<Rightarrow> map Files effects
     | (Inr prepared, effects) \<Rightarrow>
         map Files effects
         @ (case re_open env (rc_DBPath config) of
              Inl err \<Rightarrow> closes_spool prepared
            | Inr db \<Rightarrow> [DbOpen] @ closes_spool prepared @ [DbClose]))"
proof (cases "re_prepare env")
  case (Pair p effects)
  show ?thesis
  proof (cases p)
    case (Inl err)
    with run Pair show ?thesis by (auto simp: runLifecycleRuntime_def fail_run_def)
  next
    case (Inr prepared)
    then have open_spool: "ps_closed prepared = None" using Pair fresh by blast
    then have close: "\<exists>e s. prepared_Close (re_spool env) prepared
        = (e, s, [SpoolClose, SpoolRemove (prepared_Path prepared)])"
      by (simp add: prepared_Close_def Let_def prepared_Path_def)
    let ?scope = "ScanScope_ID (re_unicode env)
       \<lparr>ss_Targets = prepared_Targets prepared, ss_TCPPorts = rc_TCPPorts config,
        ss_UDPPorts = rc_UDPPorts config\<rparr>"
    show ?thesis
    proof (cases "re_open env (rc_DBPath config)")
      case (Inl err)
      with run Pair Inr close show ?thesis
        by (auto simp: runLifecycleRuntime_def fail_run_def Let_def closes_spool_def)
    next
      case opened: (Inr db)
      obtain q db1 where init: "InitializeStateSchema B (re_now env) db = (q, db1)" by force
      show ?thesis
      proof (cases q)
        case (Inl err)
        with run Pair Inr opened init close show ?thesis
          by (auto simp: runLifecycleRuntime_def fail_run_def Let_def closes_spool_def)
      next
        case (Inr u)
        obtain r closing db2 where res:
          "reservePreparedRuntimeScanWith (re_ctxErr env) (re_spool env) ?scope prepared
            (re_generate env) (CreateCurrentScanExclusive B) db1 = ((r, closing), db2)"
          by (metis prod.exhaust)
        note owned = reservePrepared_result [OF this open_spool]
        show ?thesis
        proof (cases r)
          case (Inl err)
          with run Pair \<open>p = Inr prepared\<close> opened init Inr res owned show ?thesis
            by (auto simp: runLifecycleRuntime_def fail_run_def Let_def closes_spool_def)
        next
          case own: (Inr owned)
          obtain o1 a1 d1 where ro: "run_owned B config env ?scope owned db2 = ((o1, a1), d1)"
            by (metis prod.exhaust)
          have "owned_prepared owned = prepared" "closing = []" using owned own by simp_all
          with run_owned_resources [OF ro] open_spool
          have "resources a1 = closes_spool prepared @ [DbClose]" by simp
          with run Pair \<open>p = Inr prepared\<close> opened init Inr res own ro \<open>closing = []\<close> show ?thesis
            by (auto simp: runLifecycleRuntime_def Let_def)
        qed
      qed
    qed
  qed
qed

section \<open>What a run commits\<close>

context bbolt
begin

lemma reserve_wf:
  assumes "reserve_attempts ctxErr sc generate (CreateCurrentScanExclusive B) i left coll db = (r, db')"
    and "store_wf (dbv db)"
  shows "store_wf (dbv db')"
  using assms
proof (induction left arbitrary: i coll db)
  case (Suc left)
  have wf: "CreateCurrentScanExclusive B sc sn db = (q, d) \<Longrightarrow> store_wf (dbv d)" for sn q d
    using Exclusive_wf [OF Suc.prems(2), of sc sn] by simp
  from Suc.prems show ?case
    by (auto split: option.splits sum.splits if_splits prod.splits dest: wf Suc.IH)
qed auto

text \<open>A reserved scan has an identifier, no observation yet, and leaves the baselines alone.\<close>

lemma reserved_state:
  assumes "reserveRuntimeScanWith ctxErr sc generate (CreateCurrentScanExclusive B) db = (r, db')"
    and "store_wf (dbv db)"
  shows "store_wf (dbv db')" "committed sc' (dbv db') = committed sc' (dbv db)"
    "r = Inr sn \<Longrightarrow> sn \<noteq> [] \<and> observed sc sn (dbv db') = Map.empty"
proof -
  note run = assms(1) [unfolded reserveRuntimeScanWith_def]
  show "store_wf (dbv db')" using reserve_wf [OF run assms(2)] .
  note res = reserve_attempts_state [OF run]
  show "committed sc' (dbv db') = committed sc' (dbv db)"
  proof (cases r)
    case (Inl e)
    then show ?thesis using res by simp
  next
    case (Inr sn)
    then have "dbv db' = with_scan sc sn (dbv db)" using res by simp
    then show ?thesis by (simp add: committed_def records_at_def)
  qed
  assume "r = Inr sn"
  then have sn: "validRuntimeScanID sn" "dbv db (scan_path sc sn) = None"
    "dbv db' = with_scan sc sn (dbv db)" using res by simp_all
  have "dbv db (scan_path sc sn @ [k]) = None" for k
  proof (rule ccontr)
    assume "dbv db (scan_path sc sn @ [k]) \<noteq> None"
    from store_wf_parent [OF assms(2) this] sn(2) show False by (auto simp: is_bucket_def path_defs)
  qed
  then have "observed sc sn (dbv db') = Map.empty"
    by (simp add: observed_def records_at_def sn(3) with_scan_at_scan fun_eq_iff)
  moreover have "sn \<noteq> []" using sn(1) by (auto simp: validRuntimeScanID_iff)
  ultimately show "sn \<noteq> [] \<and> observed sc sn (dbv db') = Map.empty" by simp
qed

end

lemma committed_fresh [simp]: "committed sc (fresh_store now) = Map.empty"
  by (simp add: committed_def fresh_store_def path_defs)

lemma committed_empty [simp]: "committed sc Map.empty = Map.empty"
  by (simp add: committed_def)

lemma zero_unsuccessful [simp]:
  "\<not> Successful (rx_Completion (ro_Execution zero_outcome))"
  "rx_Changes (ro_Execution zero_outcome) = []"
  by (simp_all add: zero_outcome_def Successful_def)

lemma fail_run_simps [simp]:
  "fst (fail_run outcome err actions) = outcome\<lparr>ro_Err := err\<rparr>"
  by (simp add: fail_run_def)

text \<open>What a run did, seen from outside.\<close>

definition run_commits ::
  "range_env \<Rightarrow> string \<Rightarrow> scan_result list \<Rightarrow> scan_completion option \<Rightarrow> runtime_outcome \<Rightarrow> store
     \<Rightarrow> store \<Rightarrow> bool" where
  "run_commits rng sc results arrival outcome s s' \<longleftrightarrow>
     (\<forall>sc'. sc' \<noteq> sc \<longrightarrow> committed sc' s' = committed sc' s)
     \<and> (if Successful (rx_Completion (ro_Execution outcome)) then
          (\<exists>c. arrival = Some c \<and> Successful c)
          \<and> (\<forall>r\<in>set results. \<exists>rec k. result_record sc r = Inr (rec, k))
          \<and> rx_Changes (ro_Execution outcome)
              = reconcileServiceRecords rng (committed sc s) (observe_all sc results Map.empty)
          \<and> committed sc s' = merged (committed sc s) (observe_all sc results Map.empty)
        else rx_Changes (ro_Execution outcome) = [] \<and> ro_Err outcome \<noteq> None
          \<and> committed sc s' = committed sc s)"

lemma run_commits_failed:
  assumes "\<And>sc'. committed sc' s' = committed sc' s"
    and "rx_Changes (ro_Execution outcome) = []" "ro_Err outcome \<noteq> None"
    and "\<not> Successful (rx_Completion (ro_Execution outcome))"
  shows "run_commits rng sc results arrival outcome s s'"
  using assms by (simp add: run_commits_def)

lemma run_commits_start:
  assumes "run_commits rng sc results arrival outcome s s'" "\<And>sc'. committed sc' s = committed sc' t"
  shows "run_commits rng sc results arrival outcome t s'"
  using assms(1) unfolding run_commits_def assms(2) .

lemma run_owned_commits:
  assumes "bbolt B dbv txv" "store_wf (dbv db)" "ranges_ok (re_ranges env)"
    and "owned_ScopeID owned = sc" "sc \<noteq> []" "owned_ScanID owned \<noteq> []"
    and "ps_closed (owned_prepared owned) = None"
    and "observed sc (owned_ScanID owned) (dbv db) = Map.empty"
    and run: "run_owned B config env sc owned db = ((outcome, actions), db')"
    and scan: "start_scanner env config (owned_Reader owned)
      = (results, arrival)"
  shows "run_commits (re_ranges env) sc results arrival outcome (dbv db) (dbv db')"
proof -
  obtain execution effects d where ex:
    "executeOwnedRuntimeScan (re_spool env) owned (re_pick env) results arrival
       (newRuntimeObservationPersister B owned) (FinalizeCurrentScan B (re_ranges env)) db
     = ((execution, effects), d)" by (metis prod.exhaust)
  have out: "d = db'" "ro_Execution outcome = execution"
    "ro_Err outcome = errors_Join [rx_Err execution, re_close env]"
    using run scan ex by (auto simp: run_owned_def Let_def LifecycleChanges_def split: prod.splits)
  have ids: "owned_ScopeID owned \<noteq> []" using assms(4,5) by simp
  note res = execute_result [OF assms(1,2,3) ids assms(6,7) ex, unfolded Let_def assms(4,8) out(1)]
  show ?thesis
    unfolding run_commits_def out(2)
    using res out(3) by (auto split: if_splits)
qed

text \<open>The scope of a run, from the prepared targets and the ports.\<close>

definition run_scope :: "runtime_config \<Rightarrow> 'db runtime_env \<Rightarrow> prepared_source \<Rightarrow> string" where
  "run_scope config env prepared =
     ScanScope_ID (re_unicode env)
       \<lparr>ss_Targets = prepared_Targets prepared, ss_TCPPorts = rc_TCPPorts config,
        ss_UDPPorts = rc_UDPPorts config\<rparr>"

lemma run_scope_nonempty: "run_scope config env prepared \<noteq> []"
proof
  assume "run_scope config env prepared = []"
  then have "length (run_scope config env prepared) = 0" by simp
  then show False by (simp add: run_scope_def ScanScope_ID_def)
qed

lemma run_result:
  assumes B: "bbolt B dbv txv" "ranges_ok (re_ranges env)" "utc_ok (re_now env)"
    and prep: "re_prepare env = (Inr prepared, effects)" "ps_closed prepared = None"
    and opened: "re_open env (rc_DBPath config) = Inr db" "store_wf (dbv db)"
    and scan: "start_scanner env config (prepared_Reader prepared)
      = (results, arrival)"
    and run: "runLifecycleRuntime B config env = ((outcome, actions), state)"
  shows "\<exists>db'. state = Some db' \<and> ro_ScopeID outcome = run_scope config env prepared
    \<and> run_commits (re_ranges env) (run_scope config env prepared) results arrival outcome (dbv db) (dbv db')"
proof -
  let ?sc = "run_scope config env prepared"
  obtain q db1 where init: "InitializeStateSchema B (re_now env) db = (q, db1)" by force
  note i = bbolt.Initialize_result [OF B(1) opened(2) B(3) init]
  obtain e0 s0 es0 where close: "prepared_Close (re_spool env) prepared = (e0, s0, es0)"
    by (metis prod.exhaust)
  show ?thesis
  proof (cases q)
    case (Inl err)
    with run prep(1) opened(1) init close
    have o: "outcome = zero_outcome\<lparr>ro_ScopeID := ?sc, ro_Err := errors_Join [Some err, e0, re_close env]\<rparr>"
      "state = Some db1"
      by (auto simp: runLifecycleRuntime_def Let_def run_scope_def fail_run_def)
    have "dbv db1 = dbv db" using i Inl by simp
    then show ?thesis unfolding o by (auto intro!: run_commits_failed simp: zero_outcome_def Successful_def)
  next
    case (Inr u)
    have wf1: "store_wf (dbv db1)" using i Inr opened(2) by simp
    have base1: "committed sc' (dbv db1) = committed sc' (dbv db)" for sc'
      using i Inr by (auto split: if_splits)
    obtain r closing db2 where res: "reservePreparedRuntimeScanWith (re_ctxErr env) (re_spool env) ?sc
        prepared (re_generate env) (CreateCurrentScanExclusive B) db1 = ((r, closing), db2)"
      by (metis prod.exhaust)
    note rp = reservePrepared_result [OF res prep(2)]
    note st = bbolt.reserved_state [OF B(1) _ wf1]
    show ?thesis
    proof (cases r)
      case (Inl err)
      with rp obtain cause where "db2 = db1
          \<or> reserveRuntimeScanWith (\<lambda>i. re_ctxErr env (Suc i)) ?sc (re_generate env)
              (CreateCurrentScanExclusive B) db1 = (Inl cause, db2)" by auto
      then have same: "committed sc' (dbv db2) = committed sc' (dbv db)" for sc'
        using st(2) base1 by fastforce
      have o: "outcome = zero_outcome\<lparr>ro_ScopeID := ?sc, ro_Err := errors_Join [Some err, re_close env]\<rparr>"
        "state = Some db2"
        using run prep(1) opened(1) init Inr res Inl
        by (auto simp: runLifecycleRuntime_def Let_def run_scope_def fail_run_def)
      show ?thesis
        unfolding o using same by (auto intro!: run_commits_failed simp: zero_outcome_def Successful_def)
    next
      case own: (Inr owned)
      with rp have o: "owned_ScopeID owned = ?sc" "owned_prepared owned = prepared"
        "owned_Reader owned = prepared_Reader prepared"
        "reserveRuntimeScanWith (\<lambda>i. re_ctxErr env (Suc i)) ?sc (re_generate env)
           (CreateCurrentScanExclusive B) db1 = (Inr (owned_ScanID owned), db2)" by auto
      note st2 = st [OF o(4)]
      obtain o1 a1 d1 where ro: "run_owned B config env ?sc owned db2 = ((o1, a1), d1)"
        by (metis prod.exhaust)
      have fin: "outcome = o1" "state = Some d1"
        using run prep(1) opened(1) init Inr res own ro
        by (auto simp: runLifecycleRuntime_def Let_def run_scope_def)
      have "run_commits (re_ranges env) ?sc results arrival o1 (dbv db2) (dbv d1)"
        using st2 o prep(2) scan
        by (intro run_owned_commits [OF B(1) _ B(2) o(1) run_scope_nonempty _ _ _ ro]) simp_all
      then have "run_commits (re_ranges env) ?sc results arrival o1 (dbv db) (dbv d1)"
        by (rule run_commits_start) (simp add: st2(2) base1)
      moreover have "ro_ScopeID o1 = ?sc"
        using ro by (auto simp: run_owned_def Let_def split: prod.splits)
      ultimately show ?thesis using fin by blast
    qed
  qed
qed

text \<open>C3: one run of the program moves the baseline of its scope, the one named by the hash of its targets and
  ports, from the last committed scan to this one or not at all. If the scan was successful the
  scanner had reported success, every result has a record, the changes are the comparison of the old
  baseline with the records of the results - the last one of a service winning, invalid UTF-8 replaced
  by U+FFFD as in every stored string - and the new baseline is the merge of both. Otherwise no change is
  reported, the run has an error, and the baseline is what it was. The baselines of other scopes never
  change.\<close>
theorem runLifecycleRuntime_commits:
  assumes B: "bbolt B dbv txv" "ranges_ok (re_ranges env)" "utc_ok (re_now env)"
    and prep: "re_prepare env = (Inr prepared, effects)" "ps_closed prepared = None"
    and opened: "re_open env (rc_DBPath config) = Inr db" "store_wf (dbv db)"
    and scan: "start_scanner env config (prepared_Reader prepared)
      = (results, arrival)"
    and run: "runLifecycleRuntime B config env = ((outcome, actions), state)"
  shows "\<exists>db'. state = Some db' \<and> ro_ScopeID outcome = run_scope config env prepared
    \<and> run_commits (re_ranges env) (run_scope config env prepared) results arrival outcome (dbv db) (dbv db')"
  using assms by (rule run_result)

section \<open>An emission that fails\<close>

lemma run_owned_write:
  assumes "run_owned B config env sc owned db = ((outcome, actions), db')"
  shows "\<exists>actions'. run_owned B config (env\<lparr>re_write := wr\<rparr>) sc owned db = ((outcome, actions'), db')"
  using assms by (auto simp: run_owned_def start_scanner_def Let_def split: prod.splits)

text \<open>The outcome of a run, and with it the exit status of the program, does not depend on whether the
  lifecycle events could be written: \<^verbatim>\<open>runLifecycleRuntime\<close> joins the error of the emission into the outcome
  and then assigns the outcome anew. A run whose events are lost ends like one that wrote them, while
  the baseline has been replaced, so the next run does not report them either.\<close>
lemma runLifecycleRuntime_write_ignored:
  "\<exists>actions actions' outcome state.
     runLifecycleRuntime B config env = ((outcome, actions), state)
     \<and> runLifecycleRuntime B config (env\<lparr>re_write := wr\<rparr>) = ((outcome, actions'), state)"
proof -
  obtain outcome actions state where run: "runLifecycleRuntime B config env = ((outcome, actions), state)"
    by (metis prod.exhaust)
  have "\<exists>actions'. runLifecycleRuntime B config (env\<lparr>re_write := wr\<rparr>) = ((outcome, actions'), state)"
  proof (cases "re_prepare env")
    case (Pair p effects)
    obtain e0 s0 es0 where close: "prepared_Close (re_spool env) (projr p) = (e0, s0, es0)"
      by (metis prod.exhaust)
    show ?thesis
      using run Pair close
      by (auto simp: runLifecycleRuntime_def fail_run_def Let_def split: sum.splits prod.splits
          dest: run_owned_write [where wr = wr])
  qed
  with run show ?thesis by blast
qed

section \<open>A sample run\<close>

definition sample_prepared :: prepared_source where
  "sample_prepared =
     \<lparr>ps_path = ''/tmp/x'', ps_content = ''h'' @ [CHR 0x0A], ps_targets = [''h''], ps_closed = None\<rparr>"

definition sample_run :: "store runtime_env" where
  "sample_run =
     \<lparr>re_prepare = (Inr sample_prepared, [SourceClose, SpoolSeek]),
      re_spool = sample_spool (\<lambda>k p. (length p, None)), re_open = (\<lambda>_. Inr Map.empty),
      re_close = None, re_ctxErr = (\<lambda>_. None), re_generate = (\<lambda>_. Inr sample_scanID),
      re_scan = (\<lambda>_ _ _ _ _ _ _ _. ([], Some ok_completion)), re_pick = (\<lambda>_. True), re_ranges = sorted_ranges,
      re_now = sample_time, re_clock = (\<lambda>_. sample_time), re_write = (\<lambda>_. None),
      re_unicode = id, re_sum64 = (\<lambda>_. 0)\<rparr>"

definition sample_config :: runtime_config where
  "sample_config =
     \<lparr>rc_DBPath = ''db'', rc_TCPPorts = [22], rc_UDPPorts = [], rc_Workers = 1,
      rc_Timeout = 1000000000, rc_RateLimit = 100, rc_DebugMode = False, rc_JSONMode = True,
      rc_Matcher = None\<rparr>"

lemma runLifecycleRuntime_resources_witness:
  "\<exists>outcome actions state.
     runLifecycleRuntime (spec_bolt (External ''x'')) sample_config sample_run = ((outcome, actions), state)
     \<and> resources actions = [Files SourceClose, Files SpoolSeek, DbOpen, Files SpoolClose,
         Files (SpoolRemove ''/tmp/x''), DbClose]"
proof -
  obtain outcome actions state where
    run: "runLifecycleRuntime (spec_bolt (External ''x'')) sample_config sample_run = ((outcome, actions), state)"
    by (metis prod.exhaust)
  have "ps_closed prepared = None" if "re_prepare sample_run = (Inr prepared, effects)" for prepared effects
    using that by (auto simp: sample_run_def sample_prepared_def)
  from runLifecycleRuntime_resources [OF run this] run show ?thesis
    by (simp add: sample_run_def sample_prepared_def closes_spool_def prepared_Path_def)
qed

lemma runLifecycleRuntime_commits_witness:
  "\<exists>outcome actions s.
     runLifecycleRuntime (spec_bolt (External ''x'')) sample_config sample_run = ((outcome, actions), Some s)
     \<and> ro_ScopeID outcome = run_scope sample_config sample_run sample_prepared
     \<and> run_commits sorted_ranges (ro_ScopeID outcome) [] (Some ok_completion) outcome Map.empty s"
proof -
  obtain outcome actions state where
    run: "runLifecycleRuntime (spec_bolt (External ''x'')) sample_config sample_run = ((outcome, actions), state)"
    by (metis prod.exhaust)
  have env: "ranges_ok (re_ranges sample_run)" "utc_ok (re_now sample_run)"
    "re_prepare sample_run = (Inr sample_prepared, [SourceClose, SpoolSeek])"
    "ps_closed sample_prepared = None" "re_open sample_run (rc_DBPath sample_config) = Inr Map.empty"
    "store_wf Map.empty"
    "start_scanner sample_run sample_config (prepared_Reader sample_prepared) = ([], Some ok_completion)"
    by (simp_all add: sample_run_def start_scanner_def ranges_ok_sorted sample_time_def utc_ok_def days_in_def
        sample_prepared_def store_wf_def)
  from runLifecycleRuntime_commits [OF spec_store.bbolt_axioms env(1-5) _ env(7) run] env(6) run
  show ?thesis by (auto simp: sample_run_def)
qed

end
