(* ===== verification/Program.thy ===== *)
theory Program
  imports Lifecycle
begin

text \<open>
  \<^verbatim>\<open>cmd/tcprecon/main.go\<close> and \<^verbatim>\<open>runtime_startup.go\<close>: the checks of the command line, the choice of
  the target source, and the program from its flags to its exit status.
\<close>

section \<open>The command line\<close>

record cli =
  cl_workers :: int
  cl_timeout :: int
  cl_ports :: string
  cl_udpPorts :: string
  cl_rate :: int
  cl_inputList :: string
  cl_debug :: bool
  cl_json :: bool
  cl_assetRules :: string
  cl_args :: "string list"

definition validateCLI :: "int \<Rightarrow> int \<Rightarrow> int \<Rightarrow> string list \<Rightarrow> string \<Rightarrow> error option" where
  "validateCLI workers timeout rateLimit args inputList =
     (if workers \<le> 0 then Some (Errorf ''workers must be greater than zero'')
      else if timeout \<le> 0 then Some (Errorf ''timeout must be greater than zero'')
      else if rateLimit \<le> 0 then Some (Errorf ''rate must be greater than zero'')
      else if length args > 1 then Some (Errorf ''expected at most one positional target'')
      else if length args = 1 \<and> inputList \<noteq> []
      then Some (Errorf ''positional target and -iL cannot be used together'')
      else None)"

section \<open>The target source\<close>

record os_env =
  os_dbPath :: string
  os_targetURL :: string
  os_stdin :: target_reader
  os_stdinPiped :: bool
  os_open :: "string \<Rightarrow> error + target_reader"
  os_newRequest :: "string \<Rightarrow> error option"
  os_client :: "string \<Rightarrow> error + http_response"
  os_readFile :: "string \<Rightarrow> error + string"

definition fetch_reader :: "os_env \<Rightarrow> string \<Rightarrow> error + target_reader" where
  "fetch_reader os url =
     fst (FetchTargets (os_newRequest os) (os_client os) url)"

text \<open>A reader that \<^verbatim>\<open>NopCloser\<close> wraps has no error of closing.\<close>

definition selectTargetReader ::
  "os_env \<Rightarrow> string list \<Rightarrow> string \<Rightarrow> string \<Rightarrow> error + target_reader" where
  "selectTargetReader os args inputList targetURL =
     (if length args = 1 then
        (let target = hd args in
         if strings_HasPrefix target ''http://'' \<or> strings_HasPrefix target ''https://''
         then fetch_reader os target
         else Inr \<lparr>tr_text = target @ [CHR 0x0A], tr_err = None, tr_close = None\<rparr>)
      else if inputList \<noteq> [] then
        (case os_open os inputList of
           Inl err \<Rightarrow> Inl (Wrapf err ''cannot open input list file'')
         | Inr file \<Rightarrow> Inr file)
      else if os_stdinPiped os then Inr ((os_stdin os)\<lparr>tr_close := None\<rparr>)
      else if targetURL \<noteq> [] then fetch_reader os targetURL
      else Inl (Errorf ''specify a target, -iL, use stdin pipe, or TARGET_URL env var''))"

text \<open>\<^verbatim>\<open>PrepareTargets\<close> of \<^verbatim>\<open>main\<close>: the selected reader is the source of the spool.\<close>

definition spool_source :: "spool_env \<Rightarrow> target_reader \<Rightarrow> spool_env" where
  "spool_source env r = env\<lparr>src_text := tr_text r, src_err := tr_err r, src_close := tr_close r\<rparr>"

definition prepare_targets ::
  "os_env \<Rightarrow> cli \<Rightarrow> (nat \<Rightarrow> error option) \<Rightarrow> spool_env \<Rightarrow> (error + prepared_source) \<times> effect list" where
  "prepare_targets os flags ctxErr env =
     (case selectTargetReader os (cl_args flags) (cl_inputList flags) (os_targetURL os) of
        Inl err \<Rightarrow> (Inl err, [])
      | Inr source \<Rightarrow>
          (case prepareTargetSourceWith ctxErr (spool_source env source) of
             (r, effects) \<Rightarrow> (map_sum the id r, effects)))"

section \<open>The program\<close>

text \<open>The ports and the rules, in the order \<^verbatim>\<open>main\<close> reads them; every failure exits with status 1.\<close>

definition parse_udp_ports :: "string \<Rightarrow> error + int list" where
  "parse_udp_ports udpPorts = (if udpPorts \<noteq> [] then ParsePortRange udpPorts else Inr [])"

definition load_rules :: "os_env \<Rightarrow> string \<Rightarrow> error + asset_rule list" where
  "load_rules os path = (if path \<noteq> [] then LoadRulesFromFile (os_readFile os) path else Inr [])"

text \<open>\<^verbatim>\<open>time.Duration(t) * time.Millisecond\<close>, in 64 bits.\<close>

definition duration_ms :: "int \<Rightarrow> int" where
  "duration_ms t = sint (word_of_int (t * 1000000) :: 64 word)"

lemma duration_ms_exact:
  "0 \<le> t \<Longrightarrow> t * 1000000 < 2 ^ 63 \<Longrightarrow> duration_ms t = t * 1000000"
  unfolding duration_ms_def int_word_sint by simp

text \<open>The first time-out that \<^verbatim>\<open>validateCLI\<close> accepts and the product turns into a negative one.\<close>

lemma duration_ms_overflow: "duration_ms 9223372036855 < 0"
  by (simp add: duration_ms_def int_word_sint)

definition main_config ::
  "os_env \<Rightarrow> (asset_rule list \<Rightarrow> asset_rule list) \<Rightarrow> cli \<Rightarrow> error + runtime_config" where
  "main_config os sortFunc flags =
     (case validateCLI (cl_workers flags) (cl_timeout flags) (cl_rate flags) (cl_args flags)
         (cl_inputList flags) of
        Some err \<Rightarrow> Inl err
      | None \<Rightarrow>
          bindE (ParsePortRange (cl_ports flags)) (\<lambda>tcpPorts.
          bindE (parse_udp_ports (cl_udpPorts flags)) (\<lambda>udpPorts.
          bindE (load_rules os (cl_assetRules flags)) (\<lambda>assetRules.
            let matcher = NewMatcher sortFunc assetRules;
                dbPath = (if os_dbPath os = [] then ''./asm_state.db'' else os_dbPath os)
            in Inr \<lparr>rc_DBPath = dbPath, rc_TCPPorts = tcpPorts, rc_UDPPorts = udpPorts,
                    rc_Workers = cl_workers flags, rc_Timeout = duration_ms (cl_timeout flags),
                    rc_RateLimit = cl_rate flags, rc_DebugMode = cl_debug flags, rc_JSONMode = cl_json flags,
                    rc_Matcher = Some (cidrMatcher_MatchString matcher)\<rparr>))))"

text \<open>The rest of the world is in \<open>env\<close>; its \<^const>\<open>re_prepare\<close> is replaced. \<open>prepCtx\<close> is \<^verbatim>\<open>ctx.Err\<close> during
  the preparation.\<close>

definition main_env ::
  "os_env \<Rightarrow> cli \<Rightarrow> (nat \<Rightarrow> error option) \<Rightarrow> 'db runtime_env \<Rightarrow> 'db runtime_env" where
  "main_env os flags prepCtx env = env\<lparr>re_prepare := prepare_targets os flags prepCtx (re_spool env)\<rparr>"

definition main_program ::
  "('db, 'tx) bolt \<Rightarrow> os_env \<Rightarrow> (asset_rule list \<Rightarrow> asset_rule list) \<Rightarrow> cli \<Rightarrow> (nat \<Rightarrow> error option)
     \<Rightarrow> 'db runtime_env \<Rightarrow> nat \<times> (runtime_outcome \<times> action list) option \<times> 'db option" where
  "main_program B os sortFunc flags prepCtx env =
     (case main_config os sortFunc flags of
        Inl err \<Rightarrow> (1, None, None)
      | Inr config \<Rightarrow>
          (case runLifecycleRuntime B config (main_env os flags prepCtx env) of
             ((outcome, actions), state) \<Rightarrow>
               (if ro_Err outcome \<noteq> None then 1 else 0, Some (outcome, actions), state)))"

section \<open>The startup of a scan\<close>

text \<open>\<^verbatim>\<open>prepareRuntimeStartupWith\<close>: the result, what is done to the files, and whether \<open>ready\<close> was
  called.\<close>

definition prepareRuntimeStartupWith ::
  "spool_env \<Rightarrow> (error + prepared_source) \<times> effect list \<Rightarrow> ('db \<Rightarrow> (error + unit) \<times> 'db) \<Rightarrow> 'db
     \<Rightarrow> ((error + prepared_source) \<times> effect list \<times> bool) \<times> 'db" where
  "prepareRuntimeStartupWith env prepare initialize db =
     (case prepare of
        (Inl err, effects) \<Rightarrow> ((Inl err, effects, False), db)
      | (Inr prepared, effects) \<Rightarrow>
          (case initialize db of
             (Inl err, db') \<Rightarrow>
               (case prepared_Close env prepared of
                  (closeErr, _, closing) \<Rightarrow>
                    ((Inl (the (errors_Join [Some err, closeErr])), effects @ closing, False), db'))
           | (Inr _, db') \<Rightarrow> ((Inr prepared, effects, True), db')))"

definition prepareRuntimeStartup ::
  "('db, 'tx) bolt \<Rightarrow> utc_time \<Rightarrow> (nat \<Rightarrow> error option) \<Rightarrow> spool_env \<Rightarrow> target_reader \<Rightarrow> 'db
     \<Rightarrow> ((error + prepared_source) \<times> effect list \<times> bool) \<times> 'db" where
  "prepareRuntimeStartup B now ctxErr env source =
     prepareRuntimeStartupWith env
       (case prepareTargetSourceWith ctxErr (spool_source env source) of
          (r, effects) \<Rightarrow> (map_sum the id r, effects))
       (InitializeStateSchema B now)"

text \<open>Readiness is announced exactly for a prepared source over an accepted state; a state that is refused
  leaves no file.\<close>

lemma prepareRuntimeStartup_result:
  assumes "prepareRuntimeStartup B now ctxErr env source db = ((r, effects, ready), db')"
  shows "(ready \<longleftrightarrow> (\<exists>prepared. r = Inr prepared))
    \<and> (ready \<longrightarrow> InitializeStateSchema B now db = (Inr (), db'))
    \<and> (\<forall>s es. prepareTargetSourceWith ctxErr (spool_source env source) = (Inr s, es) \<and> \<not> ready
         \<longrightarrow> effects = es @ [SpoolClose, SpoolRemove (ps_path s)])"
proof -
  obtain p es where p: "prepareTargetSourceWith ctxErr (spool_source env source) = (p, es)" by force
  obtain q d where q: "InitializeStateSchema B now db = (q, d)" by force
  show ?thesis
  proof (cases p)
    case (Inl e)
    with assms p show ?thesis by (auto simp: prepareRuntimeStartup_def prepareRuntimeStartupWith_def)
  next
    case (Inr s)
    have "ps_closed s = None" using prepare_Inr [of ctxErr _ s es] p Inr by blast
    with assms p q Inr show ?thesis
      by (cases q) (auto simp: prepareRuntimeStartup_def prepareRuntimeStartupWith_def prepared_Close_def Let_def)
  qed
qed

section \<open>What the exit status says\<close>

lemma validateCLI_None:
  "validateCLI w t r args inputList = None \<longleftrightarrow>
     0 < w \<and> 0 < t \<and> 0 < r \<and> (length args = 0 \<or> length args = 1 \<and> inputList = [])"
proof (cases args)
  case (Cons a as)
  then show ?thesis by (cases as) (auto simp: validateCLI_def)
qed (auto simp: validateCLI_def)

lemma ParsePortRange_ports:
  "ParsePortRange s = Inr ps \<Longrightarrow> list_all valid_port ps"
  using ParsePortRange_valid [of s ps] by (simp add: list_all_iff valid_port_def)

lemma main_config_ok:
  assumes "main_config os sortFunc flags = Inr config"
  shows "0 < cl_workers flags" "0 < cl_rate flags" "list_all valid_port (rc_TCPPorts config)"
    "list_all valid_port (rc_UDPPorts config)"
  using assms ParsePortRange_ports
  by (auto simp: main_config_def bindE_eq_Inr validateCLI_None parse_udp_ports_def Let_def
      split: option.splits if_splits)

lemma prepare_targets_Inr:
  assumes "prepare_targets os flags ctxErr env = (Inr s, es)"
  shows "\<exists>r lines. selectTargetReader os (cl_args flags) (cl_inputList flags) (os_targetURL os) = Inr r
    \<and> scanner_Lines (tr_text r) (tr_err r) = (lines, None) \<and> tr_err r = None \<and> tr_close r = None
    \<and> ps_targets s = List.map_filter ParseTargetLine lines \<and> ps_closed s = None
    \<and> ps_content s = spool_text (ps_targets s)"
proof -
  obtain r where r: "selectTargetReader os (cl_args flags) (cl_inputList flags) (os_targetURL os) = Inr r"
    using assms by (auto simp: prepare_targets_def split: sum.splits)
  obtain p es' where p: "prepareTargetSourceWith ctxErr (spool_source env r) = (p, es')" by force
  with assms r have "p = Inr s" by (cases p) (auto simp: prepare_targets_def)
  with p prepare_Inr [of ctxErr "spool_source env r" s es'] r show ?thesis
    by (auto simp: spool_source_def)
qed

lemma main_program_result:
  assumes B: "bbolt B dbv txv" "ranges_ok (re_ranges env)" "utc_ok (re_now env)"
    and wf: "\<And>path db. re_open env path = Inr db \<Longrightarrow> store_wf (dbv db)"
    and run: "main_program B os sortFunc flags prepCtx env = (0, out, state)"
  shows "\<exists>config outcome actions source lines prepared es db db'. main_config os sortFunc flags = Inr config
    \<and> list_all valid_port (rc_TCPPorts config) \<and> list_all valid_port (rc_UDPPorts config)
    \<and> 0 < cl_workers flags \<and> 0 < cl_rate flags
    \<and> prepare_targets os flags prepCtx (re_spool env) = (Inr prepared, es)
    \<and> selectTargetReader os (cl_args flags) (cl_inputList flags) (os_targetURL os) = Inr source
    \<and> tr_err source = None \<and> tr_close source = None
    \<and> scanner_Lines (tr_text source) None = (lines, None)
    \<and> prepared_Targets prepared = List.map_filter ParseTargetLine lines
    \<and> re_open env (rc_DBPath config) = Inr db \<and> state = Some db'
    \<and> out = Some (outcome, actions) \<and> ro_Err outcome = None
    \<and> Successful (rx_Completion (ro_Execution outcome))
    \<and> run_commits (re_ranges env) (run_scope config env prepared)
        (fst (start_scanner env config (prepared_Reader prepared)))
        (snd (start_scanner env config (prepared_Reader prepared)))
        outcome (dbv db) (dbv db')"
proof -
  let ?env = "main_env os flags prepCtx env"
  obtain config where config: "main_config os sortFunc flags = Inr config"
    using run by (cases "main_config os sortFunc flags") (auto simp: main_program_def)
  obtain outcome actions st where lr: "runLifecycleRuntime B config ?env = ((outcome, actions), st)"
    by (metis prod.exhaust)
  have out: "out = Some (outcome, actions)" "state = st" "ro_Err outcome = None"
    using run config lr by (auto simp: main_program_def split: if_splits)
  obtain p es where p: "prepare_targets os flags prepCtx (re_spool env) = (p, es)" by force
  have rp: "re_prepare ?env = (p, es)" "re_open ?env = re_open env" "re_ranges ?env = re_ranges env"
    "re_now ?env = re_now env" "start_scanner ?env config = start_scanner env config"
    "re_unicode ?env = re_unicode env"
    by (simp_all add: main_env_def p start_scanner_def fun_eq_iff)
  obtain prepared where prep: "p = Inr prepared"
    using lr rp(1) out(3) by (cases p) (auto simp: runLifecycleRuntime_def fail_run_def)
  obtain source :: target_reader and lines where
    source: "selectTargetReader os (cl_args flags) (cl_inputList flags) (os_targetURL os) = Inr source"
    "tr_err source = None" "tr_close source = None" "scanner_Lines (tr_text source) None = (lines, None)"
    "prepared_Targets prepared = List.map_filter ParseTargetLine lines"
    and closed: "ps_closed prepared = None"
    using prepare_targets_Inr [of os flags prepCtx "re_spool env" prepared es] p prep
    by (auto simp: prepared_Targets_def)
  obtain db where db: "re_open env (rc_DBPath config) = Inr db"
    using lr rp(1,2) prep out(3)
    by (cases "re_open env (rc_DBPath config)")
       (auto simp: runLifecycleRuntime_def fail_run_def Let_def split: prod.splits)
  obtain results arrival where scan:
    "start_scanner env config (prepared_Reader prepared) = (results, arrival)"
    by force
  have "\<exists>db'. st = Some db' \<and> ro_ScopeID outcome = run_scope config ?env prepared
    \<and> run_commits (re_ranges ?env) (run_scope config ?env prepared) results arrival outcome (dbv db) (dbv db')"
    using B closed db wf [OF db] scan lr rp prep
    by (intro run_result [of B dbv txv]) simp_all
  moreover have "run_scope config ?env prepared = run_scope config env prepared"
    by (simp add: run_scope_def rp)
  ultimately obtain db' where fin: "st = Some db'"
    "run_commits (re_ranges env) (run_scope config env prepared) results arrival outcome (dbv db) (dbv db')"
    using rp(3) by auto
  then have "Successful (rx_Completion (ro_Execution outcome))"
    using out(3) by (auto simp: run_commits_def split: if_splits)
  then show ?thesis
    using config main_config_ok [OF config] p prep source db out fin scan by auto
qed

text \<open>C2: exit status 0. When the program exits with status 0, its command line was valid - at least one
  worker, a positive rate, every port between 1 and 65535 - its targets are those of all the lines of the
  selected source, be it a file, a pipe or the body of a response, which was read to its end and closed
  without an error, and the scan was completed: the scanner reported success, every result has a record,
  and the baseline of the scope of exactly these targets and ports is now the merge of the old one with
  these records, invalid UTF-8 in their strings replaced by U+FFFD, the other baselines being as before.\<close>
theorem main_program_exit_zero:
  assumes B: "bbolt B dbv txv" "ranges_ok (re_ranges env)" "utc_ok (re_now env)"
    and wf: "\<And>path db. re_open env path = Inr db \<Longrightarrow> store_wf (dbv db)"
    and run: "main_program B os sortFunc flags prepCtx env = (0, out, state)"
  shows "\<exists>config outcome actions source lines prepared es db db'. main_config os sortFunc flags = Inr config
    \<and> list_all valid_port (rc_TCPPorts config) \<and> list_all valid_port (rc_UDPPorts config)
    \<and> 0 < cl_workers flags \<and> 0 < cl_rate flags
    \<and> prepare_targets os flags prepCtx (re_spool env) = (Inr prepared, es)
    \<and> selectTargetReader os (cl_args flags) (cl_inputList flags) (os_targetURL os) = Inr source
    \<and> tr_err source = None \<and> tr_close source = None
    \<and> scanner_Lines (tr_text source) None = (lines, None)
    \<and> prepared_Targets prepared = List.map_filter ParseTargetLine lines
    \<and> re_open env (rc_DBPath config) = Inr db \<and> state = Some db'
    \<and> out = Some (outcome, actions) \<and> ro_Err outcome = None
    \<and> Successful (rx_Completion (ro_Execution outcome))
    \<and> run_commits (re_ranges env) (run_scope config env prepared)
        (fst (start_scanner env config (prepared_Reader prepared)))
        (snd (start_scanner env config (prepared_Reader prepared)))
        outcome (dbv db) (dbv db')"
  using assms by (rule main_program_result)

definition sample_cli :: cli where
  "sample_cli =
     \<lparr>cl_workers = 1, cl_timeout = 1000, cl_ports = item_text (Single 22), cl_udpPorts = [],
      cl_rate = 100, cl_inputList = [], cl_debug = False, cl_json = True, cl_assetRules = [], cl_args = [''h'']\<rparr>"

definition sample_os :: os_env where
  "sample_os =
     \<lparr>os_dbPath = [], os_targetURL = [],
      os_stdin = \<lparr>tr_text = [], tr_err = None, tr_close = None\<rparr>, os_stdinPiped = False,
      os_open = (\<lambda>_. Inl (External ''x'')), os_newRequest = (\<lambda>_. None),
      os_client = (\<lambda>_. Inl (External ''x'')), os_readFile = (\<lambda>_. Inl (External ''x''))\<rparr>"

section \<open>A sample run that exits with status 0\<close>

lemma sample_init:
  "InitializeStateSchema (spec_bolt l) sample_time Map.empty = (Inr (), fresh_store sample_time)"
proof -
  obtain r db' where r: "InitializeStateSchema (spec_bolt l) sample_time Map.empty = (r, db')" by force
  have "storage_ok (spec_bolt l) (InitializeStateSchema_tx (spec_bolt l) sample_time) Map.empty" by simp
  with spec_store.Initialize_result [of Map.empty sample_time l r db'] r show ?thesis
    by (auto split: sum.splits)
qed

definition sample_reserved :: "string \<Rightarrow> store" where
  "sample_reserved sc = with_scan sc sample_scanID (fresh_store sample_time)"

lemma sample_openable:
  "sc \<noteq> [] \<Longrightarrow> length sc = 64 \<Longrightarrow> scan_openable sc sample_scanID (fresh_store sample_time)"
  by (simp add: scan_openable_def scans_openable_def no_value_cases fresh_store_def path_defs
      maxKeySize_def sample_scanID_def)

lemma sample_creates:
  assumes "sc \<noteq> []" "length sc = 64"
  shows "CreateCurrentScanExclusive (spec_bolt l) sc sample_scanID (fresh_store sample_time)
    = (Inr (), sample_reserved sc)"
proof -
  obtain q d where q: "CreateCurrentScanExclusive (spec_bolt l) sc sample_scanID (fresh_store sample_time)
      = (q, d)" by force
  have "fresh_store sample_time (scan_path sc sample_scanID) \<noteq> Some BBucket"
    by (simp add: fresh_store_def path_defs)
  with spec_store.Exclusive_result [OF q] sample_openable [OF assms] show ?thesis
    using q by (cases q) (auto simp: schema_ok_fresh sample_reserved_def)
qed

lemma sample_reserved_wf:
  assumes "sc \<noteq> []" "length sc = 64"
  shows "store_wf (sample_reserved sc)"
  using spec_store.Exclusive_wf [of "fresh_store sample_time" "External ''x''" sc sample_scanID]
    sample_creates [OF assms] store_wf_fresh by simp

lemma sample_reserved_promotes:
  assumes "sc \<noteq> []" "length sc = 64"
  shows "\<exists>db'. PromoteCurrentScan (spec_bolt l) sorted_ranges sc sample_scanID ok_completion
    (sample_reserved sc) = (Inr (reconcileServiceRecords sorted_ranges Map.empty Map.empty), db')"
proof -
  let ?s = "sample_reserved sc"
  have views: "observed sc sample_scanID ?s = Map.empty" "committed sc ?s = Map.empty"
    by (simp_all add: sample_reserved_def observed_def committed_def records_at_def with_scan_at_scan
        fresh_store_def path_defs with_scan_def with_scans_def fun_eq_iff)
  have none: "?s (baseline_path sc) = None"
    by (simp add: sample_reserved_def with_scan_def with_scans_def fresh_store_def path_defs)
  have "children ?s (scan_path sc sample_scanID) = {}"
    by (auto simp: children_def sample_reserved_def with_scan_at_scan) (simp add: fresh_store_def path_defs)
  then have "reconcilable sc sample_scanID ?s"
    by (simp add: reconcilable_def records_valid_def sample_reserved_def schema_ok_fresh)
       (simp add: fresh_store_def path_defs)
  then have "promotable sc sample_scanID ?s"
    using none by (simp add: promotable_def views merged_def fits_def no_value_cases)
  moreover obtain r db' where r: "PromoteCurrentScan (spec_bolt l) sorted_ranges sc sample_scanID
      ok_completion ?s = (r, db')" by force
  moreover have "sample_scanID \<noteq> []" by (simp add: sample_scanID_def)
  ultimately show ?thesis
    using spec_store.Promote_result [OF _ ranges_ok_sorted r] sample_reserved_wf [OF assms] assms(1)
    by (auto simp: views split: sum.splits)
qed

lemma sample_executes:
  fixes prepared :: prepared_source
  assumes "sc \<noteq> []" "length sc = 64"
  defines "owned \<equiv> \<lparr>owned_scopeID = sc, owned_scanID = sample_scanID, owned_prepared = prepared\<rparr>"
  assumes env: "sp_close env = None" "sp_remove env = None" "ps_closed prepared = None"
  shows "\<exists>execution effects db'. executeOwnedRuntimeScan env owned pick [] (Some ok_completion)
      (newRuntimeObservationPersister (spec_bolt l) owned) (FinalizeCurrentScan (spec_bolt l) sorted_ranges)
      (sample_reserved sc) = ((execution, effects), db') \<and> rx_Err execution = None"
proof -
  obtain st db1 where loop: "exec_loop (newRuntimeObservationPersister (spec_bolt l) owned)
      (Some ok_completion) pick 0 ([], exec_init, sample_reserved sc) = (st, db1)" by force
  have st: "ex_first st = None" "db1 = sample_reserved sc" "ex_completion st = ok_completion"
    using exec_loop_result [OF loop] by (simp_all add: arrived_def)
  obtain d where "PromoteCurrentScan (spec_bolt l) sorted_ranges sc sample_scanID ok_completion
      (sample_reserved sc) = (Inr (reconcileServiceRecords sorted_ranges Map.empty Map.empty), d)"
    using sample_reserved_promotes [OF assms(1,2)] by blast
  moreover have "sample_scanID \<noteq> []" by (simp add: sample_scanID_def)
  ultimately show ?thesis
    using loop st assms(1) env
    by (auto simp: executeOwnedRuntimeScan_def finalizeScanCompletion_def FinalizeCurrentScan_def
        owned_Close_def prepared_Close_def Let_def owned_ScopeID_def owned_ScanID_def owned_def
        ok_completion_def Successful_def)
qed

lemma sample_config_ok:
  "main_config sample_os id sample_cli = Inr
     \<lparr>rc_DBPath = ''./asm_state.db'', rc_TCPPorts = [22], rc_UDPPorts = [], rc_Workers = 1,
      rc_Timeout = 1000000000, rc_RateLimit = 100, rc_DebugMode = False, rc_JSONMode = True, rc_Matcher = Some (cidrMatcher_MatchString (NewMatcher id []))\<rparr>"
proof -
  have "ParsePortRange (item_text (Single 22)) = Inr [22]"
    using parse_items [of "[Single 22]"] item_text_no_comma [of "Single 22"]
    by (simp add: ParsePortRange_def strings_Split_no_sep valid_port_def)
  then show ?thesis
    by (simp add: main_config_def sample_cli_def sample_os_def validateCLI_def parse_udp_ports_def
        load_rules_def duration_ms_exact)
qed

lemma sample_prepares:
  "prepare_targets sample_os sample_cli (\<lambda>_. None) (sample_spool (\<lambda>k p. (length p, None)))
     = (Inr sample_prepared, [SourceClose, SpoolSeek])"
proof -
  have "\<not> strings_HasPrefix ''h'' ''http://''" "\<not> strings_HasPrefix ''h'' ''https://''"
    by (simp_all add: strings_HasPrefix_def)
  moreover have "scanner_Lines (''h'' @ [CHR 0x0A]) None = ([''h''], None)"
    by (simp add: scanner_Lines_def max_token_size_def drop_cr_def line_chars)
  ultimately show ?thesis
    by (simp add: prepare_targets_def selectTargetReader_def sample_os_def sample_cli_def Let_def
        prepareTargetSourceWith_def spool_source_def sample_spool_def sample_target sample_prepared_def)
qed

lemma run_owned_err:
  assumes "(case start_scanner env config (owned_Reader owned) of
      (results, completions) \<Rightarrow> executeOwnedRuntimeScan (re_spool env) owned (re_pick env) results
        completions (newRuntimeObservationPersister B owned) (FinalizeCurrentScan B (re_ranges env)) db)
      = ((execution, effects), db')"
  shows "\<exists>outcome actions. run_owned B config env sc owned db = ((outcome, actions), db')
    \<and> ro_Err outcome = errors_Join [rx_Err execution, re_close env]"
  using assms by (auto simp: run_owned_def Let_def split: prod.splits)

lemma run_lifecycle_ok:
  assumes "re_prepare env = (Inr prepared, effects)" "re_open env (rc_DBPath config) = Inr db"
    "InitializeStateSchema B (re_now env) db = (Inr (), dba)"
    "reservePreparedRuntimeScanWith (re_ctxErr env) (re_spool env) (run_scope config env prepared) prepared
       (re_generate env) (CreateCurrentScanExclusive B) dba = ((Inr owned, closing), dbb)"
    "run_owned B config env (run_scope config env prepared) owned dbb = ((outcome, actions), dbc)"
  shows "\<exists>acts. runLifecycleRuntime B config env = ((outcome, acts), Some dbc)"
  using assms by (auto simp: runLifecycleRuntime_def Let_def run_scope_def)

lemma sample_exits:
  "\<exists>outcome actions s. main_program (spec_bolt (External ''x'')) sample_os id sample_cli (\<lambda>_. None) sample_run
      = (0, Some (outcome, actions), Some s)"
proof -
  let ?B = "spec_bolt (External ''x'')"
  let ?c = "\<lparr>rc_DBPath = ''./asm_state.db'', rc_TCPPorts = [22], rc_UDPPorts = [], rc_Workers = 1,
      rc_Timeout = 1000000000, rc_RateLimit = 100, rc_DebugMode = False, rc_JSONMode = True, rc_Matcher = Some (cidrMatcher_MatchString (NewMatcher id []))\<rparr>"
  let ?env = "main_env sample_os sample_cli (\<lambda>_. None) sample_run"
  let ?sc = "run_scope ?c ?env sample_prepared"
  let ?owned = "\<lparr>owned_scopeID = ?sc, owned_scanID = sample_scanID, owned_prepared = sample_prepared\<rparr>"
  have sc: "?sc \<noteq> []" "length ?sc = 64"
    by (rule run_scope_nonempty) (simp add: run_scope_def ScanScope_ID_def)
  have env: "re_prepare ?env = (Inr sample_prepared, [SourceClose, SpoolSeek])"
    "re_open ?env = (\<lambda>_. Inr Map.empty)" "re_now ?env = sample_time" "re_close ?env = None"
    "re_ctxErr ?env = (\<lambda>_. None)" "re_generate ?env = (\<lambda>_. Inr sample_scanID)"
    "re_scan ?env = (\<lambda>_ _ _ _ _ _ _ _. ([], Some ok_completion))" "re_ranges ?env = sorted_ranges"
    "re_spool ?env = sample_spool (\<lambda>k p. (length p, None))"
    using sample_prepares by (simp_all add: main_env_def sample_run_def)
  have res: "reservePreparedRuntimeScanWith (\<lambda>_. None) (re_spool ?env) ?sc sample_prepared
      (\<lambda>_. Inr sample_scanID) (CreateCurrentScanExclusive ?B) (fresh_store sample_time)
    = ((Inr ?owned, []), sample_reserved ?sc)"
    using sample_creates [OF sc, of "External ''x''"] sample_scanID_valid
    by (simp add: reservePreparedRuntimeScanWith_def reserveRuntimeScanWith_def
        runtimeScanReservationAttempts_def eval_nat_numeral)
  obtain execution effects db' where ex:
    "executeOwnedRuntimeScan (re_spool ?env) ?owned (re_pick ?env) [] (Some ok_completion)
      (newRuntimeObservationPersister ?B ?owned) (FinalizeCurrentScan ?B sorted_ranges)
      (sample_reserved ?sc) = ((execution, effects), db')" "rx_Err execution = None"
    using sample_executes [OF sc, of "re_spool ?env" sample_prepared "re_pick ?env" "External ''x''"]
    by (auto simp: env sample_spool_def sample_prepared_def)
  have ro_ex: "\<exists>outcome actions. run_owned ?B ?c ?env ?sc ?owned (sample_reserved ?sc)
      = ((outcome, actions), db') \<and> ro_Err outcome = errors_Join [rx_Err execution, re_close ?env]"
    using ex(1) by (intro run_owned_err) (simp add: env start_scanner_def)
  then obtain outcome actions where ro: "run_owned ?B ?c ?env ?sc ?owned (sample_reserved ?sc)
      = ((outcome, actions), db')" "ro_Err outcome = None"
    using ex(2) env(4) by auto
  have "\<exists>acts. runLifecycleRuntime ?B ?c ?env = ((outcome, acts), Some db')"
    using res ro(1) sample_init [of "External ''x''"]
    by (intro run_lifecycle_ok [where dba = "fresh_store sample_time"]) (simp_all add: env)
  then show ?thesis
    using ro(2) by (auto simp: main_program_def sample_config_ok)
qed

lemma sample_run_wf: "re_open sample_run path = Inr db \<Longrightarrow> store_wf (id db)"
  by (auto simp: sample_run_def store_wf_def)

lemma main_program_exit_zero_witness:
  "\<exists>outcome actions s. main_program (spec_bolt (External ''x'')) sample_os id sample_cli (\<lambda>_. None) sample_run
      = (0, Some (outcome, actions), Some s)
    \<and> Successful (rx_Completion (ro_Execution outcome))"
proof -
  obtain outcome actions s where run: "main_program (spec_bolt (External ''x'')) sample_os id sample_cli
      (\<lambda>_. None) sample_run = (0, Some (outcome, actions), Some s)"
    using sample_exits by blast
  from main_program_exit_zero [OF spec_store.bbolt_axioms _ _ sample_run_wf run] run show ?thesis
    by (auto simp: sample_run_def)
qed

end
