(* ===== verification/NetConn.thy ===== *)
theory NetConn
  imports GoErrors GoStrings
begin

text \<open>
  A \<^verbatim>\<open>net.Conn\<close> as the scanner uses it, and the \<^verbatim>\<open>bufio.Reader\<close> over an \<^verbatim>\<open>io.LimitReader\<close> the
  banner parsers read through.

  What the peer sends is a list of chunks, in the sizes the network delivers them, and then an error
  (\<^verbatim>\<open>io.EOF\<close> when the peer closes, a timeout when the deadline passes). The other operations may
  fail as the environment says: \<open>conn_fails n\<close> is the error of the n-th of them. The log lists the
  operations done on the connection.
\<close>

datatype conn_op =
    SetDeadline
  | SetReadDeadline
  | SetWriteDeadline
  | Write_bytes string
  | Handshake string
  | Close

record net_conn =
  conn_chunks :: "string list"
  conn_end :: error
  conn_fails :: "nat \<Rightarrow> error option"
  conn_log :: "conn_op list"

definition conn_do :: "conn_op \<Rightarrow> net_conn \<Rightarrow> error option \<times> net_conn" where
  "conn_do op c = (conn_fails c (length (conn_log c)), c\<lparr>conn_log := conn_log c @ [op]\<rparr>)"

text \<open>\<^verbatim>\<open>Read\<close> on a TCP connection into a buffer of \<open>n\<close> bytes delivers what is there of the next chunk. In a
  stream an empty chunk is no delivery.\<close>

fun read_chunks :: "nat \<Rightarrow> string list \<Rightarrow> (string \<times> string list) option" where
  "read_chunks n [] = None"
| "read_chunks n (ch # chs) =
     (if ch = [] then read_chunks n chs
      else if length ch \<le> n then Some (ch, chs)
      else Some (take n ch, drop n ch # chs))"

definition conn_Read :: "nat \<Rightarrow> net_conn \<Rightarrow> (error + string) \<times> net_conn" where
  "conn_Read n c =
     (case read_chunks n (conn_chunks c) of
        None \<Rightarrow> (Inl (conn_end c), c\<lparr>conn_chunks := []\<rparr>)
      | Some (s, chs) \<Rightarrow> (Inr s, c\<lparr>conn_chunks := chs\<rparr>))"

text \<open>\<^verbatim>\<open>Read\<close> on a UDP socket takes one datagram, which may be empty, and loses what does not fit.\<close>

definition conn_ReadDatagram :: "nat \<Rightarrow> net_conn \<Rightarrow> (error + string) \<times> net_conn" where
  "conn_ReadDatagram n c =
     (case conn_chunks c of
        [] \<Rightarrow> (Inl (conn_end c), c)
      | d # ds \<Rightarrow> (Inr (take n d), c\<lparr>conn_chunks := ds\<rparr>))"

lemma conn_ReadDatagram_frame:
  "conn_log (snd (conn_ReadDatagram n c)) = conn_log c"
  by (simp add: conn_ReadDatagram_def split: list.split)

lemma read_chunks_Some:
  "read_chunks n chs = Some (s, chs') \<Longrightarrow> 0 < n
     \<Longrightarrow> concat chs = s @ concat chs' \<and> s \<noteq> [] \<and> length s \<le> n"
  by (induction chs) (auto split: if_splits)

lemma read_chunks_None: "read_chunks n chs = None \<longleftrightarrow> concat chs = []"
  by (induction chs) auto

lemma conn_Read_frame:
  "conn_log (snd (conn_Read n c)) = conn_log c" "conn_end (snd (conn_Read n c)) = conn_end c"
  "conn_fails (snd (conn_Read n c)) = conn_fails c"
  by (auto simp: conn_Read_def split: option.splits)

section \<open>Buffered, limited reading\<close>

text \<open>
  \<^verbatim>\<open>lim\<close> is what the \<^verbatim>\<open>LimitReader\<close> still lets through. The limits in use are below the 4096 bytes
  of a \<^verbatim>\<open>bufio.Reader\<close>, so its buffer never fills and a read always asks for \<^verbatim>\<open>lim\<close> bytes.
\<close>

record buf_reader =
  br_buf :: string
  br_err :: "error option"
  br_lim :: nat
  br_conn :: net_conn

definition new_reader :: "nat \<Rightarrow> net_conn \<Rightarrow> buf_reader" where
  "new_reader limit c = \<lparr>br_buf = [], br_err = None, br_lim = limit, br_conn = c\<rparr>"

definition br_fill :: "buf_reader \<Rightarrow> buf_reader" where
  "br_fill b =
     (if br_lim b = 0 then b\<lparr>br_err := Some (Sentinel IoEOF)\<rparr>
      else
        (case conn_Read (br_lim b) (br_conn b) of
           (Inl e, c) \<Rightarrow> b\<lparr>br_err := Some e, br_conn := c\<rparr>
         | (Inr s, c) \<Rightarrow> b\<lparr>br_buf := br_buf b @ s, br_lim := br_lim b - length s, br_conn := c\<rparr>))"

definition br_measure :: "buf_reader \<Rightarrow> nat" where
  "br_measure b = (if br_err b = None then Suc (br_lim b) else 0)"

lemma br_fill_measure: "br_err b = None \<Longrightarrow> br_measure (br_fill b) < br_measure b"
  using read_chunks_Some [of "br_lim b"]
  by (auto simp: br_measure_def br_fill_def conn_Read_def split: option.splits)

text \<open>\<^verbatim>\<open>ReadString\<close>: up to and with the delimiter, or what there is and the error.\<close>

function br_ReadString :: "char \<Rightarrow> buf_reader \<Rightarrow> (string \<times> error option) \<times> buf_reader" where
  "br_ReadString d b =
     (if d \<in> set (br_buf b)
      then ((takeWhile (\<lambda>c. c \<noteq> d) (br_buf b) @ [d], None),
            b\<lparr>br_buf := tl (dropWhile (\<lambda>c. c \<noteq> d) (br_buf b))\<rparr>)
      else if br_err b \<noteq> None
      then ((br_buf b, br_err b), b\<lparr>br_buf := [], br_err := None\<rparr>)
      else br_ReadString d (br_fill b))"
  by pat_completeness auto
termination
  by (relation "measure (\<lambda>(d, b). br_measure b)") (auto intro: br_fill_measure)

declare br_ReadString.simps [simp del]

section \<open>The stream behind the reader\<close>

text \<open>Whatever the chunks are, the reader delivers the bytes of the stream up to the limit, and then
  \<^verbatim>\<open>io.EOF\<close> when there was at least that much, or the error at the end of the stream.\<close>

definition limit_end :: "nat \<Rightarrow> string \<Rightarrow> error \<Rightarrow> error" where
  "limit_end limit s e = (if limit \<le> length s then Sentinel IoEOF else e)"

definition br_stream :: "buf_reader \<Rightarrow> string" where
  "br_stream b =
     br_buf b @ (if br_err b = None then take (br_lim b) (concat (conn_chunks (br_conn b))) else [])"

definition br_end :: "buf_reader \<Rightarrow> error" where
  "br_end b =
     (case br_err b of
        Some e \<Rightarrow> e
      | None \<Rightarrow> limit_end (br_lim b) (concat (conn_chunks (br_conn b))) (conn_end (br_conn b)))"

lemma br_new [simp]:
  "br_stream (new_reader limit c) = take limit (concat (conn_chunks c))"
  "br_end (new_reader limit c) = limit_end limit (concat (conn_chunks c)) (conn_end c)"
  "br_conn (new_reader limit c) = c"
  by (simp_all add: br_stream_def br_end_def new_reader_def)

lemma br_fill_stream:
  assumes "br_err b = None"
  shows "br_stream (br_fill b) = br_stream b" "br_end (br_fill b) = br_end b"
    "conn_log (br_conn (br_fill b)) = conn_log (br_conn b)"
proof -
  have "br_stream (br_fill b) = br_stream b \<and> br_end (br_fill b) = br_end b
      \<and> conn_log (br_conn (br_fill b)) = conn_log (br_conn b)"
  proof (cases "br_lim b = 0")
    case True
    with assms show ?thesis by (simp add: br_fill_def br_stream_def br_end_def limit_end_def)
  next
    case False
    show ?thesis
    proof (cases "read_chunks (br_lim b) (conn_chunks (br_conn b))")
      case None
      then have "concat (conn_chunks (br_conn b)) = []" by (simp only: read_chunks_None)
      with None False assms show ?thesis
        by (simp add: br_fill_def conn_Read_def br_stream_def br_end_def limit_end_def
            del: concat_eq_Nil_conv)
    next
      case (Some p)
      obtain s chs where p: "p = (s, chs)" by (cases p)
      with Some False read_chunks_Some have "concat (conn_chunks (br_conn b)) = s @ concat chs"
        "length s \<le> br_lim b" by blast+
      with Some p False assms show ?thesis
        by (auto simp: br_fill_def conn_Read_def br_stream_def br_end_def limit_end_def)
    qed
  qed
  then show "br_stream (br_fill b) = br_stream b" "br_end (br_fill b) = br_end b"
    "conn_log (br_conn (br_fill b)) = conn_log (br_conn b)" by auto
qed

text \<open>The first line of a string and the rest, when there is a whole line.\<close>

definition cut_line :: "char \<Rightarrow> string \<Rightarrow> (string \<times> string) option" where
  "cut_line d s =
     (if d \<in> set s
      then Some (takeWhile (\<lambda>c. c \<noteq> d) s @ [d], tl (dropWhile (\<lambda>c. c \<noteq> d) s))
      else None)"

lemma first_occurrence:
  "d \<notin> set us \<Longrightarrow> takeWhile (\<lambda>c. c \<noteq> d) (us @ d # vs) = us"
  "d \<notin> set us \<Longrightarrow> dropWhile (\<lambda>c. c \<noteq> d) (us @ d # vs) = d # vs"
  by (induction us) auto

lemma cut_line_Some: "cut_line d s = Some (l, t) \<longleftrightarrow> (\<exists>us. l = us @ [d] \<and> s = us @ d # t \<and> d \<notin> set us)"
proof
  assume c: "cut_line d s = Some (l, t)"
  then have "d \<in> set s" by (simp add: cut_line_def split: if_splits)
  then obtain us vs where s: "s = us @ d # vs" "d \<notin> set us" by (blast dest: split_list_first)
  with c show "\<exists>us. l = us @ [d] \<and> s = us @ d # t \<and> d \<notin> set us"
    by (simp add: cut_line_def first_occurrence)
next
  assume "\<exists>us. l = us @ [d] \<and> s = us @ d # t \<and> d \<notin> set us"
  then show "cut_line d s = Some (l, t)" by (auto simp: cut_line_def first_occurrence)
qed

lemma cut_line_None: "cut_line d s = None \<longleftrightarrow> d \<notin> set s"
  by (simp add: cut_line_def)

lemma cut_line_append: "cut_line d s = Some (l, t) \<Longrightarrow> s = l @ t \<and> l \<noteq> []"
  by (auto simp: cut_line_Some)

lemma cut_line_left: "d \<in> set s \<Longrightarrow>
  cut_line d (s @ t) = Some (takeWhile (\<lambda>c. c \<noteq> d) s @ [d], tl (dropWhile (\<lambda>c. c \<noteq> d) s) @ t)"
proof -
  assume "d \<in> set s"
  then obtain us vs where "s = us @ d # vs" "d \<notin> set us" by (blast dest: split_list_first)
  then show ?thesis by (simp add: cut_line_Some first_occurrence)
qed

lemma br_ReadString_stream:
  "(case cut_line d (br_stream b) of
      Some (l, t) \<Rightarrow> \<exists>b'. br_ReadString d b = ((l, None), b') \<and> br_stream b' = t \<and> br_end b' = br_end b
        \<and> conn_log (br_conn b') = conn_log (br_conn b)
    | None \<Rightarrow> \<exists>b'. br_ReadString d b = ((br_stream b, Some (br_end b)), b')
        \<and> conn_log (br_conn b') = conn_log (br_conn b))"
proof (induction d b rule: br_ReadString.induct)
  case (1 d b)
  consider "d \<in> set (br_buf b)" | "d \<notin> set (br_buf b)" "br_err b \<noteq> None"
    | "d \<notin> set (br_buf b)" "br_err b = None" by blast
  then show ?case
  proof cases
    case 1
    then show ?thesis
      unfolding br_stream_def cut_line_left [OF 1]
      by (cases "br_err b") (simp_all add: br_ReadString.simps [of d b] br_end_def)
  next
    case 2
    then show ?thesis
      by (auto simp: br_ReadString.simps [of d b] br_stream_def br_end_def cut_line_def)
  next
    case 3
    have "br_ReadString d b = br_ReadString d (br_fill b)"
      using 3 by (simp add: br_ReadString.simps [of d b])
    with "1.IH" [OF 3(1)] 3(2) show ?thesis
      by (auto simp: br_fill_stream split: option.splits)
  qed
qed

lemma br_ReadString_measure:
  assumes "br_ReadString d b = ((l, None), b')"
  shows "length (br_stream b') < length (br_stream b)"
proof (cases "cut_line d (br_stream b)")
  case None
  with assms br_ReadString_stream [of d b] show ?thesis by auto
next
  case (Some p)
  obtain l t where "p = (l, t)" by (cases p)
  with assms Some br_ReadString_stream [of d b] cut_line_append [of d "br_stream b" l t]
  show ?thesis by auto
qed

end
