(* ===== verification/TlsProbe.thy ===== *)
theory TlsProbe
  imports NetConn GoTime
begin

text \<open>
  \<^verbatim>\<open>internal/scanner/tls.go\<close>: the TLS inspection of an open connection. The handshake, the
  verification of a certificate chain and the names of the cipher suites are \<^verbatim>\<open>crypto/tls\<close> and
  \<^verbatim>\<open>crypto/x509\<close>: arguments, collected in a record.
\<close>

record certificate =
  cert_NotBefore :: utc_time
  cert_NotAfter :: utc_time
  cert_SubjectCommonName :: string
  cert_IssuerOrganization :: "string list"
  cert_DNSNames :: "string list"

record connection_state =
  cs_Version :: "16 word"
  cs_CipherSuite :: "16 word"
  cs_PeerCertificates :: "certificate list"

record tls_config =
  cfg_InsecureSkipVerify :: bool
  cfg_ServerName :: string
  cfg_MinVersion :: "16 word"
  cfg_CipherSuites :: "16 word list"

record tls_env =
  te_CipherSuites :: "16 word list"
  te_InsecureCipherSuites :: "16 word list"
  te_CipherSuiteName :: "16 word \<Rightarrow> string"
  te_Handshake :: "tls_config \<Rightarrow> net_conn \<Rightarrow> (error + connection_state) \<times> net_conn"
  te_Verify :: "certificate \<Rightarrow> string \<Rightarrow> error option"

record tls_meta =
  tm_Version :: string
  tm_CipherSuite :: string
  tm_NotBefore :: string
  tm_NotAfter :: string
  tm_CertVerified :: bool
  tm_CertSubject :: string
  tm_CertIssuer :: string
  tm_SANs :: "string list"

definition zero_tls_meta :: tls_meta where
  "zero_tls_meta =
     \<lparr>tm_Version = [], tm_CipherSuite = [], tm_NotBefore = [], tm_NotAfter = [],
      tm_CertVerified = False, tm_CertSubject = [], tm_CertIssuer = [], tm_SANs = []\<rparr>"

definition allSupportedCipherSuites :: "tls_env \<Rightarrow> 16 word list" where
  "allSupportedCipherSuites env = te_CipherSuites env @ te_InsecureCipherSuites env"

text \<open>\<^verbatim>\<open>tls.VersionName\<close>; an unknown version is written as \<^verbatim>\<open>0x%04X\<close>.\<close>

definition upper_hex :: "nat \<Rightarrow> char" where
  "upper_hex n = (if n < 10 then char_of (48 + n) else char_of (55 + n))"

definition tls_VersionName :: "16 word \<Rightarrow> string" where
  "tls_VersionName v =
     (if v = 0x0300 then ''SSLv3''
      else if v = 0x0301 then ''TLS 1.0''
      else if v = 0x0302 then ''TLS 1.1''
      else if v = 0x0303 then ''TLS 1.2''
      else if v = 0x0304 then ''TLS 1.3''
      else ''0x'' @ map (\<lambda>k. upper_hex (unat v div 16 ^ k mod 16)) [3, 2, 1, 0])"

definition versionTLS10 :: "16 word" where
  "versionTLS10 = 0x0301"

definition probeTLS :: "tls_env \<Rightarrow> net_conn \<Rightarrow> string \<Rightarrow> tls_meta \<times> net_conn" where
  "probeTLS env c targetName =
     (case conn_do SetDeadline c of
        (Some err, c) \<Rightarrow> (zero_tls_meta, c)
      | (None, c) \<Rightarrow>
          let tlsConfig =
            \<lparr>cfg_InsecureSkipVerify = True, cfg_ServerName = targetName,
             cfg_MinVersion = versionTLS10, cfg_CipherSuites = allSupportedCipherSuites env\<rparr>
          in
          (case te_Handshake env tlsConfig c of
             (Inl err, c) \<Rightarrow> (zero_tls_meta, c)
           | (Inr state, c) \<Rightarrow>
               let versionStr = tls_VersionName (cs_Version state);
                   cipherSuiteStr = te_CipherSuiteName env (cs_CipherSuite state)
               in
               (case cs_PeerCertificates state of
                  [] \<Rightarrow>
                    (zero_tls_meta\<lparr>tm_Version := versionStr, tm_CipherSuite := cipherSuiteStr\<rparr>, c)
                | leaf # _ \<Rightarrow>
                    let certIssuer =
                          (case cert_IssuerOrganization leaf of [] \<Rightarrow> [] | org # _ \<Rightarrow> org);
                        notBefore = format_RFC3339 (cert_NotBefore leaf);
                        notAfter = format_RFC3339 (cert_NotAfter leaf);
                        verified = (te_Verify env leaf targetName = None)
                    in
                    (\<lparr>tm_Version = versionStr, tm_CipherSuite = cipherSuiteStr,
                      tm_NotBefore = notBefore, tm_NotAfter = notAfter,
                      tm_CertVerified = verified, tm_CertSubject = cert_SubjectCommonName leaf,
                      tm_CertIssuer = certIssuer, tm_SANs = cert_DNSNames leaf\<rparr>, c))))"

section \<open>What the metadata says\<close>

lemma tls_VersionName_nonempty [simp]: "tls_VersionName v \<noteq> []"
  by (simp add: tls_VersionName_def)

text \<open>The outcome of the probe: the handshake state when there was one.\<close>

definition probe_state :: "tls_env \<Rightarrow> net_conn \<Rightarrow> string \<Rightarrow> connection_state option" where
  "probe_state env c targetName =
     (case conn_do SetDeadline c of
        (Some _, _) \<Rightarrow> None
      | (None, c) \<Rightarrow>
          (case te_Handshake env
             \<lparr>cfg_InsecureSkipVerify = True, cfg_ServerName = targetName,
              cfg_MinVersion = versionTLS10, cfg_CipherSuites = allSupportedCipherSuites env\<rparr> c of
             (Inl _, _) \<Rightarrow> None
           | (Inr state, _) \<Rightarrow> Some state))"

lemma probeTLS_cases:
  "fst (probeTLS env c targetName) =
     (case probe_state env c targetName of
        None \<Rightarrow> zero_tls_meta
      | Some state \<Rightarrow>
          (case cs_PeerCertificates state of
             [] \<Rightarrow> zero_tls_meta\<lparr>tm_Version := tls_VersionName (cs_Version state),
                    tm_CipherSuite := te_CipherSuiteName env (cs_CipherSuite state)\<rparr>
           | leaf # _ \<Rightarrow>
               \<lparr>tm_Version = tls_VersionName (cs_Version state),
                tm_CipherSuite = te_CipherSuiteName env (cs_CipherSuite state),
                tm_NotBefore = format_RFC3339 (cert_NotBefore leaf),
                tm_NotAfter = format_RFC3339 (cert_NotAfter leaf),
                tm_CertVerified = (te_Verify env leaf targetName = None),
                tm_CertSubject = cert_SubjectCommonName leaf,
                tm_CertIssuer = (case cert_IssuerOrganization leaf of [] \<Rightarrow> [] | org # _ \<Rightarrow> org),
                tm_SANs = cert_DNSNames leaf\<rparr>))"
  by (simp add: probeTLS_def probe_state_def Let_def split: prod.split sum.split option.split list.split)

text \<open>The TLS probe never fails a scan: a version is recorded exactly when the handshake completed, and
  then the name is not empty; without one every field is empty. A certificate is recorded as verified
  only if the peer presented one and it verifies for the name of the target.\<close>
lemma probeTLS_meta:
  "(tm_Version (fst (probeTLS env c targetName)) \<noteq> [] \<longleftrightarrow> probe_state env c targetName \<noteq> None)
   \<and> (fst (probeTLS env c targetName) = zero_tls_meta \<longleftrightarrow> probe_state env c targetName = None)
   \<and> (tm_CertVerified (fst (probeTLS env c targetName)) \<longleftrightarrow>
        (\<exists>state leaf certs. probe_state env c targetName = Some state
           \<and> cs_PeerCertificates state = leaf # certs \<and> te_Verify env leaf targetName = None))"
  by (simp add: probeTLS_cases zero_tls_meta_def split: option.split list.split)

end
