(* ===== verification/Banners.thy ===== *)
theory Banners
  imports NetConn
begin

text \<open>
  \<^verbatim>\<open>internal/scanner/banners.go\<close>: what the scanner reads from an HTTP or SSH service. The
  specification of both parsers is on the stream of the peer, whatever the chunks it arrives in.
\<close>

section \<open>The code\<close>

definition newline :: char where
  "newline = CHR 0x0A"

definition crlf :: string where
  "crlf = [CHR 0x0D, CHR 0x0A]"

definition http_probe :: string where
  "http_probe = ''GET / HTTP/1.1'' @ crlf @ ''Host: probe'' @ crlf @ ''Connection: close'' @ crlf @ crlf"

definition maxHTTPHeaderBytes :: nat where
  "maxHTTPHeaderBytes = 2048"

definition http_fallback :: "string \<Rightarrow> error + string" where
  "http_fallback fallbackStatus =
     (if fallbackStatus \<noteq> [] then Inr fallbackStatus else Inl (Sentinel IoEOF))"

function http_headers ::
  "(nat \<Rightarrow> nat) \<Rightarrow> string \<Rightarrow> nat \<Rightarrow> buf_reader \<Rightarrow> (error + string) \<times> buf_reader" where
  "http_headers uni fallbackStatus bytesRead b =
     (case br_ReadString newline b of
        ((line, Some err), b') \<Rightarrow>
          let bytesRead' = bytesRead + length line in
          if errors_Is err IoEOF
          then (if maxHTTPHeaderBytes \<le> bytesRead' then Inl (Wrapf err ''exceeded max limit'')
                else http_fallback fallbackStatus, b')
          else (Inl err, b')
      | ((line, None), b') \<Rightarrow>
          let bytesRead' = bytesRead + length line;
              trimmed = strings_TrimRight line crlf in
          if trimmed = [] then (http_fallback fallbackStatus, b')
          else if strings_HasPrefix (strings_ToLower uni trimmed) ''server:''
          then (Inr (strings_TrimSpace (drop 7 trimmed)), b')
          else http_headers uni fallbackStatus bytesRead' b')"
  by pat_completeness auto
termination
  by (relation "measure (\<lambda>(uni, f, n, b). length (br_stream b))")
    (auto intro: br_ReadString_measure [OF sym])

declare http_headers.simps [simp del]

definition ParseHTTP :: "(nat \<Rightarrow> nat) \<Rightarrow> net_conn \<Rightarrow> (error + string) \<times> net_conn" where
  "ParseHTTP uni c =
     (case conn_do SetDeadline c of
        (Some err, c) \<Rightarrow> (Inl err, c)
      | (None, c) \<Rightarrow>
          (case conn_do (Write_bytes http_probe) c of
             (Some err, c) \<Rightarrow> (Inl err, c)
           | (None, c) \<Rightarrow>
               (case br_ReadString newline (new_reader maxHTTPHeaderBytes c) of
                  ((statusLine, Some err), b) \<Rightarrow> (Inl err, br_conn b)
                | ((statusLine, None), b) \<Rightarrow>
                    (case http_headers uni (strings_TrimRight statusLine crlf) (length statusLine) b of
                       (r, b) \<Rightarrow> (r, br_conn b)))))"

definition maxBannerSize :: nat where
  "maxBannerSize = 1024"

definition ParseSSH :: "net_conn \<Rightarrow> (error + string) \<times> net_conn" where
  "ParseSSH c =
     (case conn_do SetDeadline c of
        (Some err, c) \<Rightarrow> (Inl err, c)
      | (None, c) \<Rightarrow>
          (case br_ReadString newline (new_reader maxBannerSize c) of
             ((line, err), b) \<Rightarrow>
               let checked =
                 (case err of
                    None \<Rightarrow> None
                  | Some e \<Rightarrow>
                      if errors_Is e IoEOF
                      then (if maxBannerSize \<le> length line
                            then Some (Errorf ''banner exceeded max limit'')
                            else if length line = 0 then Some e else None)
                      else Some e)
               in (case checked of
                     Some e \<Rightarrow> Inl e
                   | None \<Rightarrow>
                       let banner = strings_TrimRight line crlf in
                       if \<not> strings_HasPrefix banner ''SSH-''
                       then Inl (Errorf ''invalid protocol: not an SSH banner'')
                       else Inr banner, br_conn b)))"

section \<open>The specification\<close>

text \<open>The complete lines of a stream, and the unfinished one.\<close>

function stream_cut :: "string \<Rightarrow> string list \<times> string" where
  "stream_cut s =
     (case cut_line newline s of
        None \<Rightarrow> ([], s)
      | Some (l, t) \<Rightarrow> (case stream_cut t of (ls, r) \<Rightarrow> (l # ls, r)))"
  by pat_completeness auto
termination
  by (relation "measure length") (auto dest: cut_line_append)

declare stream_cut.simps [simp del]

definition is_server :: "(nat \<Rightarrow> nat) \<Rightarrow> string \<Rightarrow> bool" where
  "is_server uni l \<longleftrightarrow> strings_HasPrefix (strings_ToLower uni (strings_TrimRight l crlf)) ''server:''"

definition is_blank :: "string \<Rightarrow> bool" where
  "is_blank l \<longleftrightarrow> strings_TrimRight l crlf = []"

text \<open>What is said by the header lines: the first of them that is a Server header or blank decides; when
  there is none, the end of the stream does.\<close>

definition http_spec :: "(nat \<Rightarrow> nat) \<Rightarrow> string \<Rightarrow> error \<Rightarrow> error + string" where
  "http_spec uni s e =
     (case stream_cut s of
        ([], _) \<Rightarrow> Inl e
      | (status # headers, _) \<Rightarrow>
          let fallback = http_fallback (strings_TrimRight status crlf) in
          (case find (\<lambda>l. is_blank l \<or> is_server uni l) headers of
             Some l \<Rightarrow> if is_blank l then fallback
                       else Inr (strings_TrimSpace (drop 7 (strings_TrimRight l crlf)))
           | None \<Rightarrow>
               if \<not> errors_Is e IoEOF then Inl e
               else if maxHTTPHeaderBytes \<le> length s then Inl (Wrapf e ''exceeded max limit'')
               else fallback))"

lemma http_headers_spec:
  "fst (http_headers uni f n b) =
     (case find (\<lambda>l. is_blank l \<or> is_server uni l) (fst (stream_cut (br_stream b))) of
        Some l \<Rightarrow> if is_blank l then http_fallback f
                  else Inr (strings_TrimSpace (drop 7 (strings_TrimRight l crlf)))
      | None \<Rightarrow>
          if \<not> errors_Is (br_end b) IoEOF then Inl (br_end b)
          else if maxHTTPHeaderBytes \<le> n + length (br_stream b)
          then Inl (Wrapf (br_end b) ''exceeded max limit'') else http_fallback f)
   \<and> conn_log (br_conn (snd (http_headers uni f n b))) = conn_log (br_conn b)"
proof (induction uni f n b rule: http_headers.induct)
  case (1 uni f n b)
  show ?case
  proof (cases "cut_line newline (br_stream b)")
    case None
    then obtain b' where "br_ReadString newline b = ((br_stream b, Some (br_end b)), b')"
      "conn_log (br_conn b') = conn_log (br_conn b)"
      using br_ReadString_stream [of newline b] by auto
    with None show ?thesis
      by (simp add: http_headers.simps [of uni f n b] stream_cut.simps [of "br_stream b"] Let_def)
  next
    case (Some p)
    obtain l t where p: "p = (l, t)" by (cases p)
    with Some obtain b' where r: "br_ReadString newline b = ((l, None), b')" and
      b': "br_stream b' = t" "br_end b' = br_end b" "conn_log (br_conn b') = conn_log (br_conn b)"
      using br_ReadString_stream [of newline b] by auto
    obtain ls u where cut: "stream_cut t = (ls, u)" by (cases "stream_cut t")
    have len: "length (br_stream b) = length l + length t"
      using cut_line_append Some p by (metis length_append)
    have cut_b: "stream_cut (br_stream b) = (l # ls, u)"
      using Some p cut by (simp add: stream_cut.simps [of "br_stream b"])
    show ?thesis
    proof (cases "is_blank l \<or> is_server uni l")
      case True
      with r b' cut_b show ?thesis
        by (auto simp: http_headers.simps [of uni f n b] Let_def is_blank_def is_server_def)
    next
      case False
      then have bl: "\<not> is_blank l" "\<not> is_server uni l" by simp_all
      have step: "http_headers uni f n b = http_headers uni f (n + length l) b'"
        using r bl by (simp add: http_headers.simps [of uni f n b] Let_def is_blank_def is_server_def)
      have ih: "fst (http_headers uni f (n + length l) b') =
         (case find (\<lambda>l. is_blank l \<or> is_server uni l) ls of
            Some l \<Rightarrow> if is_blank l then http_fallback f
                      else Inr (strings_TrimSpace (drop 7 (strings_TrimRight l crlf)))
          | None \<Rightarrow>
              if \<not> errors_Is (br_end b) IoEOF then Inl (br_end b)
              else if maxHTTPHeaderBytes \<le> n + length l + length t
              then Inl (Wrapf (br_end b) ''exceeded max limit'') else http_fallback f)
         \<and> conn_log (br_conn (snd (http_headers uni f (n + length l) b'))) = conn_log (br_conn b)"
        using "1.IH" [OF r [symmetric] refl refl refl refl] bl
        unfolding is_blank_def is_server_def b' cut fst_conv by blast
      show ?thesis
        unfolding step cut_b len fst_conv using ih bl by (simp add: add.assoc)
    qed
  qed
qed

text \<open>C39: what \<^const>\<open>ParseHTTP\<close> returns depends on the bytes of the peer only, not on the pieces they
  arrive in: it is the specification on the first 2048 bytes. It sends the probe and nothing else.\<close>
theorem ParseHTTP_stream:
  assumes "conn_fails c (length (conn_log c)) = None" "conn_fails c (Suc (length (conn_log c))) = None"
  shows "fst (ParseHTTP uni c) =
      http_spec uni (take 2048 (concat (conn_chunks c)))
        (limit_end 2048 (concat (conn_chunks c)) (conn_end c))
    \<and> conn_log (snd (ParseHTTP uni c)) = conn_log c @ [SetDeadline, Write_bytes http_probe]"
proof -
  define c' where "c' = c\<lparr>conn_log := conn_log c @ [SetDeadline, Write_bytes http_probe]\<rparr>"
  define b where "b = new_reader maxHTTPHeaderBytes c'"
  let ?s = "br_stream b"
  have s: "?s = take 2048 (concat (conn_chunks c))"
    and e: "br_end b = limit_end 2048 (concat (conn_chunks c)) (conn_end c)"
    and log: "conn_log (br_conn b) = conn_log c @ [SetDeadline, Write_bytes http_probe]"
    by (simp_all add: b_def c'_def maxHTTPHeaderBytes_def)
  have run: "ParseHTTP uni c =
     (case br_ReadString newline b of
        ((statusLine, Some err), b) \<Rightarrow> (Inl err, br_conn b)
      | ((statusLine, None), b) \<Rightarrow>
          (case http_headers uni (strings_TrimRight statusLine crlf) (length statusLine) b of
             (r, b) \<Rightarrow> (r, br_conn b)))"
    using assms by (simp add: ParseHTTP_def conn_do_def b_def c'_def)
  have "fst (ParseHTTP uni c) = http_spec uni ?s (br_end b)
      \<and> conn_log (snd (ParseHTTP uni c)) = conn_log (br_conn b)"
  proof (cases "cut_line newline ?s")
    case None
    then obtain b' where "br_ReadString newline b = ((?s, Some (br_end b)), b')"
      "conn_log (br_conn b') = conn_log (br_conn b)"
      using br_ReadString_stream [of newline b] by auto
    with None show ?thesis
      by (simp add: run http_spec_def stream_cut.simps [of ?s])
  next
    case (Some p)
    obtain l t where p: "p = (l, t)" by (cases p)
    with Some obtain b' where r: "br_ReadString newline b = ((l, None), b')" and
      b': "br_stream b' = t" "br_end b' = br_end b" "conn_log (br_conn b') = conn_log (br_conn b)"
      using br_ReadString_stream [of newline b] by auto
    obtain ls u where cut: "stream_cut t = (ls, u)" by (cases "stream_cut t")
    have len: "length ?s = length l + length t"
      using cut_line_append Some p by (metis length_append)
    have cut_b: "stream_cut ?s = (l # ls, u)"
      using Some p cut by (simp add: stream_cut.simps [of ?s])
    have "ParseHTTP uni c = map_prod id br_conn (http_headers uni (strings_TrimRight l crlf) (length l) b')"
      by (simp add: run r split: prod.split)
    then show ?thesis
      using http_headers_spec [of uni "strings_TrimRight l crlf" "length l" b']
      unfolding http_spec_def cut_b b' cut len
      by (simp add: Let_def)
  qed
  then show ?thesis unfolding s e log .
qed

definition sample_conn :: "string list \<Rightarrow> net_conn" where
  "sample_conn chunks =
     \<lparr>conn_chunks = chunks, conn_end = Sentinel IoEOF, conn_fails = (\<lambda>_. None), conn_log = []\<rparr>"

lemma sample_http_spec:
  "http_spec uni (''HTTP/1.1 200 OK'' @ crlf @ crlf) e = Inr ''HTTP/1.1 200 OK''"
proof -
  have status: "strings_TrimRight (''HTTP/1.1 200 OK'' @ crlf) crlf = ''HTTP/1.1 200 OK''"
    and blank: "strings_TrimRight crlf crlf = []"
    by (simp_all add: strings_TrimRight_def crlf_def)
  have "cut_line newline (''HTTP/1.1 200 OK'' @ crlf @ crlf) = Some (''HTTP/1.1 200 OK'' @ crlf, crlf)"
    "cut_line newline crlf = Some (crlf, [])" "cut_line newline [] = None"
    by (simp_all add: cut_line_def newline_def crlf_def)
  then have "stream_cut (''HTTP/1.1 200 OK'' @ crlf @ crlf) = ([''HTTP/1.1 200 OK'' @ crlf, crlf], [])"
    by (simp add: stream_cut.simps [of "''HTTP/1.1 200 OK'' @ crlf @ crlf"]
        stream_cut.simps [of crlf] stream_cut.simps [of "[]"] del: append.simps)
  then show ?thesis
    unfolding http_spec_def by (simp only: prod.case list.case)
      (simp add: status [unfolded append.simps] blank is_blank_def http_fallback_def)
qed

lemma ParseHTTP_stream_witness:
  "fst (ParseHTTP id (sample_conn [''HTTP/1.'', ''1 200 OK'' @ crlf, crlf]))
     = Inr ''HTTP/1.1 200 OK''"
proof -
  let ?c = "sample_conn [''HTTP/1.'', ''1 200 OK'' @ crlf, crlf]"
  have s: "concat (conn_chunks ?c) = ''HTTP/1.1 200 OK'' @ crlf @ crlf"
    "length (''HTTP/1.1 200 OK'' @ crlf @ crlf) \<le> 2048"
    by (simp_all add: sample_conn_def crlf_def)
  have "fst (ParseHTTP id ?c) = http_spec id (take 2048 (concat (conn_chunks ?c)))
      (limit_end 2048 (concat (conn_chunks ?c)) (conn_end ?c))"
    using ParseHTTP_stream [of ?c id] by (simp add: sample_conn_def)
  then show ?thesis
    unfolding s(1) take_all [OF s(2)] sample_http_spec .
qed

section \<open>SSH\<close>

text \<open>An SSH banner is what comes before the first newline of the first 1024 bytes - or before the end of
  a shorter stream that the peer closed - without its line end, provided it starts with SSH-. Every
  other stream is an error. Nothing is sent.\<close>
lemma ParseSSH_stream:
  assumes "conn_fails c (length (conn_log c)) = None"
    and s: "s = take 1024 (concat (conn_chunks c))"
  shows "(fst (ParseSSH c) = Inr banner \<longleftrightarrow>
      (\<exists>l. ((\<exists>rest. s = l @ newline # rest \<and> newline \<notin> set l)
            \<or> s = l \<and> newline \<notin> set l \<and> length l < 1024 \<and> errors_Is (conn_end c) IoEOF)
         \<and> banner = strings_TrimRight l crlf \<and> prefix ''SSH-'' banner))
    \<and> conn_log (snd (ParseSSH c)) = conn_log c @ [SetDeadline]"
proof -
  define c' where "c' = c\<lparr>conn_log := conn_log c @ [SetDeadline]\<rparr>"
  define b where "b = new_reader maxBannerSize c'"
  have st: "br_stream b = s" and e: "br_end b = limit_end 1024 (concat (conn_chunks c)) (conn_end c)"
    and log: "conn_log (br_conn b) = conn_log c @ [SetDeadline]"
    by (simp_all add: b_def c'_def maxBannerSize_def s)
  have do: "conn_do SetDeadline c = (None, c')" using assms(1) by (simp add: conn_do_def c'_def)
  have run: "ParseSSH c =
     (case br_ReadString newline b of
        ((line, err), b) \<Rightarrow>
          let checked =
            (case err of
               None \<Rightarrow> None
             | Some e \<Rightarrow>
                 if errors_Is e IoEOF
                 then (if maxBannerSize \<le> length line
                       then Some (Errorf ''banner exceeded max limit'')
                       else if length line = 0 then Some e else None)
                 else Some e)
          in (case checked of
                Some e \<Rightarrow> Inl e
              | None \<Rightarrow>
                  let banner = strings_TrimRight line crlf in
                  if \<not> strings_HasPrefix banner ''SSH-''
                  then Inl (Errorf ''invalid protocol: not an SSH banner'')
                  else Inr banner, br_conn b))"
    by (simp only: ParseSSH_def do b_def prod.case option.case)
  have nl: "strings_TrimRight (us @ [newline]) crlf = strings_TrimRight us crlf" for us
    by (simp add: strings_TrimRight_def newline_def crlf_def)
  show ?thesis
  proof (cases "cut_line newline s")
    case None
    then have no: "newline \<notin> set s" by (simp add: cut_line_None)
    from None obtain b' where r: "br_ReadString newline b = ((s, Some (br_end b)), b')"
      "conn_log (br_conn b') = conn_log (br_conn b)"
      using br_ReadString_stream [of newline b] st by auto
    have be: "br_end b = conn_end c" if "length s < 1024"
      using that by (auto simp: e limit_end_def s)
    have ne: "s \<noteq> []" if "prefix ''SSH-'' (strings_TrimRight s crlf)"
      using that by (auto simp: strings_TrimRight_def)
    have only: "(\<exists>l. ((\<exists>rest. s = l @ newline # rest \<and> newline \<notin> set l)
            \<or> s = l \<and> newline \<notin> set l \<and> length l < 1024 \<and> errors_Is (conn_end c) IoEOF)
         \<and> banner = strings_TrimRight l crlf \<and> prefix ''SSH-'' banner)
      \<longleftrightarrow> length s < 1024 \<and> errors_Is (conn_end c) IoEOF
        \<and> banner = strings_TrimRight s crlf \<and> prefix ''SSH-'' banner"
      using no by auto
    show ?thesis
      unfolding only run r(1) prod.case
      using r(2) be ne by (auto simp: Let_def maxBannerSize_def log strings_HasPrefix_def)
  next
    case (Some p)
    obtain l t where p: "p = (l, t)" by (cases p)
    with Some obtain us where us: "l = us @ [newline]" "s = us @ newline # t" "newline \<notin> set us"
      by (auto simp: cut_line_Some)
    from Some p obtain b' where r: "br_ReadString newline b = ((l, None), b')"
      "conn_log (br_conn b') = conn_log (br_conn b)"
      using br_ReadString_stream [of newline b] st by auto
    have uniq: "us @ newline # t = l' @ newline # rest \<and> newline \<notin> set l' \<longleftrightarrow> l' = us \<and> rest = t"
      for l' rest
      using us(3) by (metis first_occurrence(1) list.inject same_append_eq)
    have only: "(\<exists>l. ((\<exists>rest. s = l @ newline # rest \<and> newline \<notin> set l)
            \<or> s = l \<and> newline \<notin> set l \<and> length l < 1024 \<and> errors_Is (conn_end c) IoEOF)
         \<and> banner = strings_TrimRight l crlf \<and> prefix ''SSH-'' banner)
      \<longleftrightarrow> banner = strings_TrimRight us crlf \<and> prefix ''SSH-'' banner"
      unfolding us(2) uniq by auto
    show ?thesis
      unfolding only run r(1) prod.case
      using r(2) by (auto simp: Let_def log strings_HasPrefix_def us(1) nl)
  qed
qed

lemma ParseSSH_stream_witness:
  "fst (ParseSSH (sample_conn [''SSH-2.0-'', ''x'' @ crlf])) = Inr ''SSH-2.0-x''"
proof -
  let ?c = "sample_conn [''SSH-2.0-'', ''x'' @ crlf]" and ?l = "''SSH-2.0-x'' @ [CHR 0x0D]"
  have s: "?l @ newline # [] = take 1024 (concat (conn_chunks ?c))"
    by (simp add: sample_conn_def crlf_def newline_def)
  have line: "newline \<notin> set ?l" by (simp add: newline_def)
  have banner: "''SSH-2.0-x'' = strings_TrimRight ?l crlf" "prefix ''SSH-'' ''SSH-2.0-x''"
    by (simp_all add: strings_TrimRight_def crlf_def)
  have "conn_fails ?c (length (conn_log ?c)) = None" by (simp add: sample_conn_def)
  from ParseSSH_stream [OF this s, of "''SSH-2.0-x''"] line banner show ?thesis by blast
qed

end
