(* ===== verification/Payloads.thy ===== *)
theory Payloads
  imports Prelude
begin

unbundle bit_operations_syntax

text \<open>
  \<^verbatim>\<open>internal/scanner/payloads.go\<close>: the requests sent to UDP services and the checks of their
  responses, on lists of bytes. The wire formats are given independently as decoders: a DNS
  question (RFC 1035) and BER values with short lengths (as SNMP uses them).
\<close>

section \<open>Byte slices\<close>

text \<open>\<^verbatim>\<open>binary.BigEndian\<close> and \<^verbatim>\<open>copy\<close> into a slice that is long enough.\<close>

definition put_uint16 :: "nat \<Rightarrow> 16 word \<Rightarrow> byte list \<Rightarrow> byte list" where
  "put_uint16 i v buf = buf[i := ucast (drop_bit 8 v), Suc i := ucast v]"

definition uint16_of :: "byte \<Rightarrow> byte \<Rightarrow> 16 word" where
  "uint16_of a b = (push_bit 8 (ucast a)) OR ucast b"

definition uint16_at :: "nat \<Rightarrow> byte list \<Rightarrow> 16 word" where
  "uint16_at i buf = uint16_of (buf ! i) (buf ! Suc i)"

definition uint64_be :: "byte list \<Rightarrow> 64 word" where
  "uint64_be bs = foldl (\<lambda>acc b. (push_bit 8 acc) OR ucast b) 0 bs"

definition copy_at :: "nat \<Rightarrow> byte list \<Rightarrow> byte list \<Rightarrow> byte list" where
  "copy_at i src buf = take i buf @ src @ drop (i + length src) buf"

definition bytes_of :: "string \<Rightarrow> byte list" where
  "bytes_of s = map (\<lambda>c. word_of_nat (of_char c)) s"

section \<open>The code\<close>

definition BuildDNSQuery :: "16 word \<Rightarrow> byte list" where
  "BuildDNSQuery txID =
     (let buf = replicate 27 0;
          buf = put_uint16 0 txID buf;
          buf = put_uint16 2 0x0100 buf;
          buf = put_uint16 4 1 buf;
          buf = buf[12 := 9];
          buf = copy_at 13 (bytes_of ''localhost'') buf;
          buf = buf[22 := 0];
          buf = put_uint16 23 1 buf
      in put_uint16 25 1 buf)"

definition ValidateDNSResponse :: "byte list \<Rightarrow> byte list \<Rightarrow> bool" where
  "ValidateDNSResponse req resp =
     (if length resp < 12 \<or> length req < 2 then False
      else if uint16_at 0 req \<noteq> uint16_at 0 resp then False
      else if resp ! 2 AND 0x80 \<noteq> 0x80 then False
      else (drop_bit 3 (resp ! 2)) AND 0x0F = 0)"

definition BuildNTPRequest :: "byte list" where
  "BuildNTPRequest = (replicate 48 0)[0 := 0x23]"

definition ValidateNTPResponse :: "byte list \<Rightarrow> bool" where
  "ValidateNTPResponse resp =
     (if length resp < 48 then False
      else
        let mode = resp ! 0 AND 0x07 in
        if mode \<noteq> 4 \<and> mode \<noteq> 5 then False
        else
          let vn = (drop_bit 3 (resp ! 0)) AND 0x07 in
          if vn < 1 \<or> vn > 4 then False
          else if resp ! 1 > 16 then False
          else if uint64_be (take 8 (drop 40 resp)) = 0 then False
          else True)"

definition UDPPayloads :: "int \<rightharpoonup> byte list" where
  "UDPPayloads =
     [53 \<mapsto> BuildDNSQuery 0x1337,
      123 \<mapsto> BuildNTPRequest,
      161 \<mapsto>
       [0x30, 0x26, 0x02, 0x01, 0x01, 0x04, 0x06, 0x70,
        0x75, 0x62, 0x6c, 0x69, 0x63, 0xa0, 0x19, 0x02,
        0x04, 0x1a, 0x5e, 0x97, 0x00, 0x02, 0x01, 0x00,
        0x02, 0x01, 0x00, 0x30, 0x0b, 0x30, 0x09, 0x06,
        0x05, 0x2b, 0x06, 0x01, 0x02, 0x01, 0x05, 0x00]]"

section \<open>Words and bytes\<close>

lemma uint16_split [simp]: "uint16_of (ucast (drop_bit 8 v)) (ucast v) = v"
  unfolding uint16_of_def
  by (rule bit_word_eqI) (auto simp: bit_simps)

lemma uint16_of_inj: "uint16_of a b = uint16_of c d \<longleftrightarrow> a = c \<and> b = d"
proof
  assume eq: "uint16_of a b = uint16_of c d"
  have low: "bit b n = bit d n" if "n < 8" for n
    using arg_cong [OF eq, of "\<lambda>w. bit w n"] that by (simp add: uint16_of_def bit_simps)
  have high: "bit a n = bit c n" if "n < 8" for n
    using arg_cong [OF eq, of "\<lambda>w. bit w (n + 8)"] that bit_imp_le_length [of b "n + 8"] bit_imp_le_length [of d "n + 8"]
    by (auto simp: uint16_of_def bit_simps)
  show "a = c \<and> b = d"
    using low high by (auto intro!: bit_word_eqI)
qed simp

lemma length_put_uint16 [simp]: "length (put_uint16 i v buf) = length buf"
  by (simp add: put_uint16_def)

text \<open>The eight bytes read as a number are zero only if they all are.\<close>

lemma uint64_be_zero_aux:
  "length bs \<le> 8 - k \<Longrightarrow> k \<le> 8 \<Longrightarrow> (\<forall>n. 8 * k \<le> n \<longrightarrow> \<not> bit acc n)
     \<Longrightarrow> foldl (\<lambda>acc b. (push_bit 8 acc) OR ucast b) (acc :: 64 word) (bs :: byte list) = 0
     \<longleftrightarrow> acc = 0 \<and> (\<forall>b\<in>set bs. b = 0)"
proof (induction bs arbitrary: acc k)
  case (Cons b bs)
  let ?acc = "(push_bit 8 acc) OR ucast b :: 64 word"
  have k: "Suc k \<le> 8" using Cons.prems(1,2) by simp
  have "?acc = 0 \<longleftrightarrow> acc = 0 \<and> b = 0"
  proof
    assume z: "?acc = 0"
    have b: "\<not> bit b n" if "n < 8" for n
      using arg_cong [OF z, of "\<lambda>w. bit w n"] that by (simp add: bit_simps)
    have a: "\<not> bit acc n" if "n < 64" for n
    proof (cases "n < 8 * k")
      case True
      then have "n + 8 < 64" using k by linarith
      then show ?thesis using arg_cong [OF z, of "\<lambda>w. bit w (n + 8)"] by (simp add: bit_simps)
    next
      case False
      then show ?thesis using Cons.prems(3) by simp
    qed
    show "acc = 0 \<and> b = 0" using a b by (auto intro!: bit_word_eqI)
  qed simp
  moreover have "foldl (\<lambda>acc b. (push_bit 8 acc) OR ucast b) ?acc bs = 0
      \<longleftrightarrow> ?acc = 0 \<and> (\<forall>b\<in>set bs. b = 0)"
  proof (rule Cons.IH [of "Suc k"])
    show "length bs \<le> 8 - Suc k" using Cons.prems(1) by simp
    show "\<forall>n. 8 * Suc k \<le> n \<longrightarrow> \<not> bit ?acc n"
      using Cons.prems(3) by (auto simp: bit_simps dest: bit_imp_le_length)
  qed (rule k)
  ultimately show ?case by auto
qed simp

lemma uint64_be_zero: "length bs \<le> 8 \<Longrightarrow> uint64_be bs = 0 \<longleftrightarrow> (\<forall>b\<in>set bs. b = 0)"
  using uint64_be_zero_aux [of bs 0 0] by (simp add: uint64_be_def)

section \<open>DNS\<close>

text \<open>Lists are updated at literal positions.\<close>

lemma list_update_Cons_lit [simp]:
  "(x # xs)[numeral k := y] = x # xs[pred_numeral k := y]"
  by (simp add: numeral_eq_Suc)

lemma replicate_lit [simp]: "replicate (numeral k) x = x # replicate (pred_numeral k) x"
  by (simp add: numeral_eq_Suc)

text \<open>The query, byte by byte.\<close>

lemma bytes_localhost:
  "bytes_of ''localhost'' = [0x6c, 0x6f, 0x63, 0x61, 0x6c, 0x68, 0x6f, 0x73, 0x74]"
  by (simp add: bytes_of_def)

lemma BuildDNSQuery_bytes:
  "BuildDNSQuery txID =
     [ucast (drop_bit 8 txID), ucast txID, 1, 0, 0, 1, 0, 0, 0, 0, 0, 0,
      9, 0x6c, 0x6f, 0x63, 0x61, 0x6c, 0x68, 0x6f, 0x73, 0x74, 0, 0, 1, 0, 1]"
  by (simp add: BuildDNSQuery_def Let_def put_uint16_def copy_at_def bytes_localhost)

text \<open>A decoder of DNS messages with one question: the identifier, the flags, the four counts, the
  labels of the name, the type and the class, and what follows.\<close>

fun dns_labels :: "nat \<Rightarrow> byte list \<Rightarrow> (byte list list \<times> byte list) option" where
  "dns_labels 0 bs = None"
| "dns_labels (Suc fuel) [] = None"
| "dns_labels (Suc fuel) (n # bs) =
     (if n = 0 then Some ([], bs)
      else if 63 < n \<or> length bs < unat n then None
      else map_option (map_prod (\<lambda>ls. take (unat n) bs # ls) id)
             (dns_labels fuel (drop (unat n) bs)))"

record dns_question =
  dq_id :: "16 word"
  dq_flags :: "16 word"
  dq_counts :: "16 word list"
  dq_name :: "byte list list"
  dq_type :: "16 word"
  dq_class :: "16 word"

definition dns_decode :: "byte list \<Rightarrow> dns_question option" where
  "dns_decode bs =
     (if length bs < 12 then None
      else
        (case dns_labels (length bs) (drop 12 bs) of
           Some (ls, [t1, t2, c1, c2]) \<Rightarrow>
             Some \<lparr>dq_id = uint16_at 0 bs, dq_flags = uint16_at 2 bs,
               dq_counts = [uint16_at 4 bs, uint16_at 6 bs, uint16_at 8 bs, uint16_at 10 bs],
               dq_name = ls, dq_type = uint16_of t1 t2, dq_class = uint16_of c1 c2\<rparr>
         | _ \<Rightarrow> None))"

text \<open>A DNS decoder reads \<^const>\<open>BuildDNSQuery\<close> back as one recursive question of type A and class
  IN for the name localhost with the transaction number it was given, and no byte is left over.\<close>
lemma BuildDNSQuery_roundtrip:
  "dns_decode (BuildDNSQuery txID) =
     Some \<lparr>dq_id = txID, dq_flags = 0x0100, dq_counts = [1, 0, 0, 0],
       dq_name = [bytes_of ''localhost''], dq_type = 1, dq_class = 1\<rparr>"
proof -
  have "dns_labels 27 [9, 0x6c, 0x6f, 0x63, 0x61, 0x6c, 0x68, 0x6f, 0x73, 0x74, 0, 0, 1, 0, 1]
      = Some ([bytes_of ''localhost''], [0, 1, 0, 1])"
    unfolding bytes_localhost by code_simp
  then show ?thesis
    by (simp add: dns_decode_def BuildDNSQuery_bytes uint16_at_def bytes_localhost)
       (simp add: uint16_of_def)
qed

text \<open>The specification of an accepted response: it has a full header, it repeats the two bytes of the
  transaction number, the response bit is set and the operation is a standard query.\<close>

lemma bit_0x80: "bit (0x80 :: byte) n \<longleftrightarrow> n = 7"
proof -
  have p: "(0x80 :: byte) = push_bit 7 1" by simp
  show ?thesis unfolding p by (auto simp only: bit_push_bit_iff) (auto simp: bit_simps)
qed

lemma response_bit: "(b :: byte) AND 0x80 = 0x80 \<longleftrightarrow> bit b 7"
proof
  assume "b AND 0x80 = 0x80"
  from arg_cong [OF this, of "\<lambda>w. bit w 7"] show "bit b 7" by (simp add: bit_and_iff bit_0x80)
next
  assume "bit b 7"
  then show "b AND 0x80 = 0x80"
    by (intro bit_word_eqI) (metis bit_and_iff bit_0x80)
qed

lemma opcode_zero: "(drop_bit 3 (b :: byte)) AND 0x0F = 0 \<longleftrightarrow> (\<forall>n\<in>{3..6}. \<not> bit b n)"
proof -
  have m: "(0x0F :: byte) = mask 4" by (simp add: mask_eq_exp_minus_1)
  have i: "bit ((drop_bit 3 b) AND (0x0F :: byte)) n \<longleftrightarrow> n < 4 \<and> bit b (n + 3)" for n :: nat
    unfolding m by (auto simp: bit_simps ac_simps)
  have "(drop_bit 3 b) AND 0x0F = 0 \<longleftrightarrow> (\<forall>n<4::nat. \<not> bit b (n + 3))"
    unfolding bit_eq_iff [of _ "0 :: byte"] by (auto simp: i)
  also have "\<dots> \<longleftrightarrow> (\<forall>n\<in>{3..6}. \<not> bit b n)"
  proof (intro iffI ballI allI impI)
    fix n :: nat assume "\<forall>n<4. \<not> bit b (n + 3)" "n \<in> {3..6}"
    then show "\<not> bit b n" by (auto dest: spec [of _ "n - 3"])
  qed auto
  finally show ?thesis .
qed

text \<open>A response to our query is accepted exactly when it has a full header, repeats the
  transaction number, has the response bit set and the standard opcode. In particular the check reads
  nothing beyond the header, and it refuses our own query reflected back.\<close>
lemma ValidateDNSResponse_iff:
  "(ValidateDNSResponse (BuildDNSQuery txID) resp \<longleftrightarrow>
      12 \<le> length resp \<and> uint16_at 0 resp = txID \<and> bit (resp ! 2) 7
      \<and> (\<forall>n\<in>{3..6}. \<not> bit (resp ! 2) n))
   \<and> \<not> ValidateDNSResponse (BuildDNSQuery txID) (BuildDNSQuery txID)"
  by (auto simp: ValidateDNSResponse_def BuildDNSQuery_bytes uint16_at_def response_bit opcode_zero)

text \<open>The response to a query of \<^const>\<open>BuildDNSQuery\<close>, for another component's use.\<close>

lemma ValidateDNSResponse_echo:
  "12 \<le> length resp \<Longrightarrow> resp ! 0 = ucast (drop_bit 8 txID) \<Longrightarrow> resp ! 1 = ucast txID
     \<Longrightarrow> resp ! 2 = 0x81 \<Longrightarrow> ValidateDNSResponse (BuildDNSQuery txID) resp"
  by (simp add: ValidateDNSResponse_def BuildDNSQuery_bytes uint16_at_def)

section \<open>NTP\<close>

lemma byte_field:
  "unat ((b :: byte) AND 0x07) = unat b mod 8"
  "unat ((drop_bit 3 (b :: byte)) AND 0x07) = unat b div 8 mod 8"
proof -
  have m: "(0x07 :: byte) = mask 3" by (simp add: mask_eq_exp_minus_1)
  show "unat (b AND 0x07) = unat b mod 8"
    unfolding m by (simp flip: take_bit_eq_mask add: unsigned_take_bit_eq)
       (simp add: take_bit_eq_mod)
  show "unat ((drop_bit 3 b) AND 0x07) = unat b div 8 mod 8"
    unfolding m by (simp flip: take_bit_eq_mask
        add: unsigned_take_bit_eq unsigned_drop_bit_eq)
       (use unsigned_less [of b, where ?'a = nat] in \<open>simp add: take_bit_eq_mod drop_bit_eq_div\<close>)
qed

lemma set_take_drop: "n + k \<le> length xs \<Longrightarrow> set (take k (drop n xs)) = {xs ! i |i. n \<le> i \<and> i < n + k}"
proof (intro set_eqI iffI)
  fix x assume l: "n + k \<le> length xs" and "x \<in> {xs ! i |i. n \<le> i \<and> i < n + k}"
  then obtain i where "n \<le> i" "i < n + k" "x = xs ! i" by blast
  then have "take k (drop n xs) ! (i - n) = x" "i - n < length (take k (drop n xs))" using l by auto
  then show "x \<in> set (take k (drop n xs))" by (metis nth_mem)
qed (auto simp: in_set_conv_nth)

text \<open>An NTP response is accepted exactly when it has the 48 bytes of the header, its mode is server or
  broadcast, its version between 1 and 4, its stratum at most 16 and one of the eight bytes of its
  transmit timestamp is not zero. The client request the scanner sends has 48 bytes, version 4 and
  the client mode, so its own reflection is refused.\<close>
lemma ValidateNTPResponse_iff:
  "(ValidateNTPResponse resp \<longleftrightarrow>
      48 \<le> length resp \<and> unat (resp ! 0) mod 8 \<in> {4, 5} \<and> unat (resp ! 0) div 8 mod 8 \<in> {1..4}
      \<and> unat (resp ! 1) \<le> 16 \<and> (\<exists>i. 40 \<le> i \<and> i < 48 \<and> resp ! i \<noteq> 0))
   \<and> length BuildNTPRequest = 48 \<and> unat (BuildNTPRequest ! 0) div 8 mod 8 = 4
   \<and> unat (BuildNTPRequest ! 0) mod 8 = 3 \<and> \<not> ValidateNTPResponse BuildNTPRequest"
proof -
  have tx: "uint64_be (take 8 (drop 40 resp)) = 0 \<longleftrightarrow> \<not> (\<exists>i. 40 \<le> i \<and> i < 48 \<and> resp ! i \<noteq> 0)"
    if "48 \<le> length resp"
    using that set_take_drop [of 40 8 resp] by (subst uint64_be_zero) auto
  have mode: "resp ! 0 AND 0x07 \<noteq> 4 \<and> resp ! 0 AND 0x07 \<noteq> 5 \<longleftrightarrow> unat (resp ! 0) mod 8 \<notin> {4, 5}"
    by (simp only: word_unat_eq_iff byte_field(1)) simp
  have vn: "(drop_bit 3 (resp ! 0)) AND 0x07 < 1 \<or> (drop_bit 3 (resp ! 0)) AND 0x07 > 4
      \<longleftrightarrow> unat (resp ! 0) div 8 mod 8 \<notin> {1..4}"
    by (simp only: word_less_nat_alt byte_field(2)) auto
  have stratum: "resp ! 1 > 16 \<longleftrightarrow> \<not> unat (resp ! 1) \<le> 16"
    by (simp only: word_less_nat_alt) auto
  have "ValidateNTPResponse resp \<longleftrightarrow>
      48 \<le> length resp \<and> unat (resp ! 0) mod 8 \<in> {4, 5} \<and> unat (resp ! 0) div 8 mod 8 \<in> {1..4}
      \<and> unat (resp ! 1) \<le> 16 \<and> (\<exists>i. 40 \<le> i \<and> i < 48 \<and> resp ! i \<noteq> 0)"
  proof (cases "48 \<le> length resp")
    case True
    then show ?thesis
      unfolding ValidateNTPResponse_def Let_def mode vn stratum tx [OF True] if_bool_eq_disj
      by (simp only: not_less [symmetric]) blast
  qed (simp add: ValidateNTPResponse_def)
  then show ?thesis
    by (simp add: ValidateNTPResponse_def BuildNTPRequest_def)
qed

section \<open>SNMP\<close>

text \<open>A decoder of BER values with short lengths: a primitive value, or a constructed one (tag bit 6)
  with what it contains.\<close>

datatype ber = Prim byte "byte list" | Constr byte "ber list"

fun ber_decode :: "nat \<Rightarrow> byte list \<Rightarrow> ber list option" where
  "ber_decode 0 bs = None"
| "ber_decode (Suc fuel) [] = Some []"
| "ber_decode (Suc fuel) [t] = None"
| "ber_decode (Suc fuel) (t # n # bs) =
     (if 127 < n \<or> length bs < unat n then None
      else
        (case (if bit t 5 then map_option (Constr t) (ber_decode fuel (take (unat n) bs))
               else Some (Prim t (take (unat n) bs))) of
           None \<Rightarrow> None
         | Some v \<Rightarrow> map_option (\<lambda>vs. v # vs) (ber_decode fuel (drop (unat n) bs))))"

text \<open>The static payload of port 161 is one well-formed SNMPv2c message: every BER length in it is
  right, the community is public and the body is a GetRequest (tag \<open>0xa0\<close>) with one variable. The
  variable is named 1.3.6.1.2.1, the root of MIB-2, and not sysDescr.0 (1.3.6.1.2.1.1.1.0) as the
  comment in the source says. The payloads of ports 53 and 123 are those of the builders.\<close>
lemma UDPPayloads_snmp:
  "map_option (ber_decode 40) (UDPPayloads 161) =
     Some (Some [Constr 0x30
       [Prim 2 [1], Prim 4 (bytes_of ''public''),
        Constr 0xa0
          [Prim 2 [0x1a, 0x5e, 0x97, 0], Prim 2 [0], Prim 2 [0],
           Constr 0x30 [Constr 0x30 [Prim 6 [0x2b, 6, 1, 2, 1], Prim 5 []]]]]])
   \<and> UDPPayloads 53 = Some (BuildDNSQuery 0x1337) \<and> UDPPayloads 123 = Some BuildNTPRequest
   \<and> dom UDPPayloads = {53, 123, 161}"
proof -
  have "bytes_of ''public'' = [0x70, 0x75, 0x62, 0x6c, 0x69, 0x63]" by (simp add: bytes_of_def)
  moreover have "ber_decode 40
     [0x30, 0x26, 0x02, 0x01, 0x01, 0x04, 0x06, 0x70,
        0x75, 0x62, 0x6c, 0x69, 0x63, 0xa0, 0x19, 0x02,
        0x04, 0x1a, 0x5e, 0x97, 0x00, 0x02, 0x01, 0x00,
        0x02, 0x01, 0x00, 0x30, 0x0b, 0x30, 0x09, 0x06,
        0x05, 0x2b, 0x06, 0x01, 0x02, 0x01, 0x05, 0x00]
     = Some [Constr 0x30
       [Prim 2 [1], Prim 4 [0x70, 0x75, 0x62, 0x6c, 0x69, 0x63],
        Constr 0xa0
          [Prim 2 [0x1a, 0x5e, 0x97, 0], Prim 2 [0], Prim 2 [0],
           Constr 0x30 [Constr 0x30 [Prim 6 [0x2b, 6, 1, 2, 1], Prim 5 []]]]]]"
    by code_simp
  ultimately show ?thesis by (auto simp: UDPPayloads_def)
qed

end
