(* ===== verification/Workers.thy ===== *)
theory Workers
  imports TlsProbe Banners Payloads Models ServiceIdentity TargetParser
begin

text \<open>
  \<^verbatim>\<open>internal/scanner/worker.go\<close> and \<^verbatim>\<open>udp_worker.go\<close>: what a worker does with the jobs it takes from
  its channel, in the order it takes them. The environment gives, for the n-th turn of the loop,
  whether the select saw the context done, what the rate limiter said, and the connection (or the
  error) of the dial. A worker that stops leaves the jobs it has not taken to the others.
\<close>

record worker_env =
  we_done :: "nat \<Rightarrow> bool"
  we_ctxErr :: error
  we_wait :: "nat \<Rightarrow> error option"
  we_dial :: "nat \<Rightarrow> string \<Rightarrow> error + net_conn"
  we_nanos :: "nat \<Rightarrow> int"

section \<open>The TCP worker\<close>

text \<open>One \<^verbatim>\<open>Read\<close> through a \<^verbatim>\<open>LimitReader\<close>, for services that speak first.\<close>

definition read_greeting :: "net_conn \<Rightarrow> string \<times> net_conn" where
  "read_greeting c =
     (case conn_do SetReadDeadline c of
        (_, c) \<Rightarrow>
          (case conn_Read 1024 c of
             (Inr buf, c) \<Rightarrow> (buf, c)
           | (Inl _, c) \<Rightarrow> ([], c)))"

definition keep_banner :: "(error + string) \<times> net_conn \<Rightarrow> string \<times> net_conn" where
  "keep_banner r = (case r of (Inr banner, c) \<Rightarrow> (banner, c) | (Inl _, c) \<Rightarrow> ([], c))"

definition grab_banner :: "(nat \<Rightarrow> nat) \<Rightarrow> int \<Rightarrow> net_conn \<Rightarrow> string \<times> net_conn" where
  "grab_banner uni port c =
     (if port \<in> {22, 2222} then keep_banner (ParseSSH c)
      else if port \<in> {80, 8000, 8080} then keep_banner (ParseHTTP uni c)
      else read_greeting c)"

definition scan_conn ::
  "(nat \<Rightarrow> nat) \<Rightarrow> tls_env \<Rightarrow> scan_job \<Rightarrow> net_conn \<Rightarrow> scan_result \<times> net_conn" where
  "scan_conn uni tls job c =
     (case probeTLS tls c (job_TargetName job) of
        (meta, c) \<Rightarrow>
          (case (if tm_Version meta \<noteq> [] then ([], c) else grab_banner uni (job_Port job) c) of
             (banner, c) \<Rightarrow>
               let osHint = FingerprintOS uni banner;
                   c = snd (conn_do Close c)
               in
               (\<lparr>sr_TargetName = job_TargetName job, sr_TargetIP = job_TargetIP job,
                 sr_Port = job_Port job, sr_Protocol = ''tcp'', sr_State = ''open'',
                 sr_Banner = strings_TrimSpace banner, sr_OSHint = osHint,
                 sr_CertSubject = tm_CertSubject meta, sr_CertIssuer = tm_CertIssuer meta,
                 sr_SANs = tm_SANs meta, sr_TLSVersion = tm_Version meta,
                 sr_CipherSuite = tm_CipherSuite meta, sr_CertVerified = tm_CertVerified meta,
                 sr_CertNotBefore = tm_NotBefore meta, sr_CertNotAfter = tm_NotAfter meta\<rparr>, c)))"

text \<open>The loop: the results pushed, the connections used and the jobs left in the channel.\<close>

fun Worker ::
  "(nat \<Rightarrow> nat) \<Rightarrow> tls_env \<Rightarrow> worker_env \<Rightarrow> nat \<Rightarrow> scan_job list
     \<Rightarrow> scan_result list \<times> net_conn list \<times> scan_job list" where
  "Worker uni tls env n [] = ([], [], [])"
| "Worker uni tls env n (job # jobs) =
     (if we_done env n then ([], [], job # jobs)
      else
        (case we_wait env n of
           Some err \<Rightarrow> ([], [], jobs)
         | None \<Rightarrow>
             (case we_dial env n (joinHostPort (job_TargetIP job) (job_Port job)) of
                Inl err \<Rightarrow> Worker uni tls env (Suc n) jobs
              | Inr c \<Rightarrow>
                  (case scan_conn uni tls job c of (r, c) \<Rightarrow>
                    (case Worker uni tls env (Suc n) jobs of (rs, cs, left) \<Rightarrow>
                      (r # rs, c # cs, left))))))"

section \<open>The UDP worker\<close>

definition bytes_string :: "byte list \<Rightarrow> string" where
  "bytes_string bs = map (\<lambda>b. char_of (unat b)) bs"

definition udp_request :: "int \<Rightarrow> int \<Rightarrow> error + byte list" where
  "udp_request nanos port =
     (if port = 53 then Inr (BuildDNSQuery (word_of_int (nanos mod 0x10000)))
      else if port = 123 then Inr BuildNTPRequest
      else (case UDPPayloads port of
              None \<Rightarrow> Inl (Errorf ''unsupported UDP payload for port'')
            | Some payload \<Rightarrow> Inr payload))"

definition udp_isOpen :: "int \<Rightarrow> byte list \<Rightarrow> byte list \<Rightarrow> bool" where
  "udp_isOpen port reqPayload respBytes =
     (if port = 53 then ValidateDNSResponse reqPayload respBytes
      else if port = 123 then ValidateNTPResponse respBytes
      else length respBytes > 0)"

text \<open>The exchange on a socket: the response, if there was one. The socket is closed on every path.\<close>

definition udp_exchange :: "byte list \<Rightarrow> net_conn \<Rightarrow> string option \<times> net_conn" where
  "udp_exchange reqPayload c =
     (case conn_do SetWriteDeadline c of
        (Some err, c) \<Rightarrow> (None, snd (conn_do Close c))
      | (None, c) \<Rightarrow>
          (case conn_do (Write_bytes (bytes_string reqPayload)) c of
             (Some err, c) \<Rightarrow> (None, snd (conn_do Close c))
           | (None, c) \<Rightarrow>
               (case conn_do SetReadDeadline c of
                  (Some err, c) \<Rightarrow> (None, snd (conn_do Close c))
                | (None, c) \<Rightarrow>
                    (case conn_ReadDatagram 2048 c of
                       (r, c) \<Rightarrow>
                         let c = snd (conn_do Close c) in
                         (case r of Inl err \<Rightarrow> (None, c)
                          | Inr buf \<Rightarrow> (if length buf = 0 then None else Some buf, c))))))"

definition udp_result :: "scan_job \<Rightarrow> string \<Rightarrow> scan_result" where
  "udp_result job resp =
     zero_scan_result\<lparr>sr_TargetName := job_TargetName job, sr_TargetIP := job_TargetIP job,
       sr_Port := job_Port job, sr_Protocol := ''udp'', sr_State := ''open'',
       sr_Banner := hex_EncodeToString resp\<rparr>"

fun UDPWorker ::
  "worker_env \<Rightarrow> nat \<Rightarrow> error option \<Rightarrow> scan_job list
     \<Rightarrow> error option \<times> scan_result list \<times> net_conn list \<times> scan_job list" where
  "UDPWorker env n workerErr [] =
     (if we_done env n then (Some (we_ctxErr env), [], [], []) else (workerErr, [], [], []))"
| "UDPWorker env n workerErr (job # jobs) =
     (if we_done env n then (Some (we_ctxErr env), [], [], job # jobs)
      else
        (case we_wait env n of
           Some err \<Rightarrow> (Some err, [], [], jobs)
         | None \<Rightarrow>
             (case udp_request (we_nanos env n) (job_Port job) of
                Inl err \<Rightarrow>
                  UDPWorker env (Suc n) (if workerErr = None then Some err else workerErr) jobs
              | Inr reqPayload \<Rightarrow>
                  (case we_dial env n (joinHostPort (job_TargetIP job) (job_Port job)) of
                     Inl err \<Rightarrow> UDPWorker env (Suc n) workerErr jobs
                   | Inr c \<Rightarrow>
                       (case udp_exchange reqPayload c of (resp, c) \<Rightarrow>
                         (case UDPWorker env (Suc n) workerErr jobs of (e, rs, cs, left) \<Rightarrow>
                           (e, (case resp of
                                  None \<Rightarrow> rs
                                | Some buf \<Rightarrow>
                                    if udp_isOpen (job_Port job) reqPayload (bytes_of buf)
                                    then udp_result job buf # rs else rs),
                            c # cs, left)))))))"

section \<open>Connections are closed once\<close>

text \<open>A connection is closed once and nothing is done on it afterwards.\<close>

definition closed_once :: "net_conn \<Rightarrow> bool" where
  "closed_once c \<longleftrightarrow> (\<exists>ops. conn_log c = ops @ [Close] \<and> Close \<notin> set ops)"

definition opened :: "net_conn \<Rightarrow> bool" where
  "opened c \<longleftrightarrow> Close \<notin> set (conn_log c)"

text \<open>What the code relies on: a dial gives a connection that is not closed, and the handshake of
  \<^verbatim>\<open>crypto/tls\<close> does not close the connection it works on.\<close>

definition handshake_ok :: "tls_env \<Rightarrow> bool" where
  "handshake_ok tls \<longleftrightarrow> (\<forall>cfg c. opened c \<longrightarrow> opened (snd (te_Handshake tls cfg c)))"

definition dials_open :: "worker_env \<Rightarrow> bool" where
  "dials_open env \<longleftrightarrow> (\<forall>n a c. we_dial env n a = Inr c \<longrightarrow> opened c)"

lemma opened_do: "opened c \<Longrightarrow> op \<noteq> Close \<Longrightarrow> opened (snd (conn_do op c))"
  by (simp add: opened_def conn_do_def)

lemma opened_doE: "conn_do op c = (r, c') \<Longrightarrow> opened c \<Longrightarrow> op \<noteq> Close \<Longrightarrow> opened c'"
  using opened_do [of c op] by simp

lemma opened_Read:
  "opened (snd (conn_Read n c)) = opened c" "opened (snd (conn_ReadDatagram n c)) = opened c"
  by (simp_all add: opened_def conn_Read_frame conn_ReadDatagram_frame)

lemma closed_once_Close: "opened c \<Longrightarrow> closed_once (snd (conn_do Close c))"
  by (simp add: closed_once_def conn_do_def opened_def)

lemma opened_br_ReadString: "opened (br_conn (snd (br_ReadString d b))) = opened (br_conn b)"
  using br_ReadString_stream [of d b] by (auto simp: opened_def split: option.splits prod.splits)

lemma opened_ParseSSH: "opened c \<Longrightarrow> opened (snd (ParseSSH c))"
proof -
  assume o: "opened c"
  obtain r c' where d: "conn_do SetDeadline c = (r, c')" by force
  obtain l e b where b: "br_ReadString newline (new_reader maxBannerSize c') = ((l, e), b)"
    by (metis prod.exhaust)
  have "opened c'" using d o by (rule opened_doE) simp
  then have "opened (br_conn b)"
    using opened_br_ReadString [of newline "new_reader maxBannerSize c'"] b by simp
  with \<open>opened c'\<close> show ?thesis
    by (cases r) (simp_all add: ParseSSH_def d b Let_def)
qed

lemma opened_http_headers: "opened (br_conn (snd (http_headers uni f n b))) = opened (br_conn b)"
  using http_headers_spec [of uni f n b] by (simp add: opened_def)

lemma opened_ParseHTTP: "opened c \<Longrightarrow> opened (snd (ParseHTTP uni c))"
proof -
  assume o: "opened c"
  obtain r1 c1 where d1: "conn_do SetDeadline c = (r1, c1)" by force
  obtain r2 c2 where d2: "conn_do (Write_bytes http_probe) c1 = (r2, c2)" by force
  obtain l e b where b: "br_ReadString newline (new_reader maxHTTPHeaderBytes c2) = ((l, e), b)"
    by (metis prod.exhaust)
  obtain r b' where h: "http_headers uni (strings_TrimRight l crlf) (length l) b = (r, b')" by force
  have c1: "opened c1" using d1 o by (rule opened_doE) simp
  have c2: "opened c2" using d2 c1 by (rule opened_doE) simp
  have ob: "opened (br_conn b)"
    using opened_br_ReadString [of newline "new_reader maxHTTPHeaderBytes c2"] b c2 by simp
  have "opened (br_conn b')"
    using opened_http_headers [of uni "strings_TrimRight l crlf" "length l" b] h ob by simp
  with c1 c2 ob show ?thesis
    by (cases r1; cases r2; cases e) (simp_all add: ParseHTTP_def d1 d2 b h)
qed

lemma snd_keep_banner [simp]: "snd (keep_banner r) = snd r"
  by (simp add: keep_banner_def split: prod.split sum.split)

lemma opened_grab_banner: "opened c \<Longrightarrow> opened (snd (grab_banner uni port c))"
proof -
  assume o: "opened c"
  obtain r c' where d: "conn_do SetReadDeadline c = (r, c')" by force
  obtain q c'' where q: "conn_Read 1024 c' = (q, c'')" by force
  have "opened c'" using d o by (rule opened_doE) simp
  then have "opened c''" using opened_Read [of 1024 c'] q by simp
  then have "opened (snd (read_greeting c))"
    by (cases q) (simp_all add: read_greeting_def d q)
  then show ?thesis
    using o by (simp add: grab_banner_def opened_ParseSSH opened_ParseHTTP)
qed

lemma opened_probeTLS: "handshake_ok tls \<Longrightarrow> opened c \<Longrightarrow> opened (snd (probeTLS tls c name))"
proof -
  assume h: "handshake_ok tls" and o: "opened c"
  obtain r c1 where d: "conn_do SetDeadline c = (r, c1)" by force
  let ?cfg = "\<lparr>cfg_InsecureSkipVerify = True, cfg_ServerName = name,
    cfg_MinVersion = versionTLS10, cfg_CipherSuites = allSupportedCipherSuites tls\<rparr>"
  obtain q c2 where q: "te_Handshake tls ?cfg c1 = (q, c2)" by force
  have c1: "opened c1" using d o by (rule opened_doE) simp
  then have "opened c2" using h q by (metis handshake_ok_def snd_conv)
  with c1 show ?thesis
    by (cases r; cases q) (simp_all add: probeTLS_def d q Let_def split: list.split)
qed

lemma scan_conn_closed:
  "handshake_ok tls \<Longrightarrow> opened c \<Longrightarrow> closed_once (snd (scan_conn uni tls job c))"
proof -
  assume h: "handshake_ok tls" and o: "opened c"
  obtain m c1 where p: "probeTLS tls c (job_TargetName job) = (m, c1)" by force
  have "opened c1" using opened_probeTLS [OF h o, of "job_TargetName job"] p by simp
  obtain bn c2 where g: "grab_banner uni (job_Port job) c1 = (bn, c2)" by force
  then have "opened c2" using opened_grab_banner \<open>opened c1\<close> by (metis snd_conv)
  with \<open>opened c1\<close> show ?thesis
    by (simp add: scan_conn_def p g Let_def closed_once_Close)
qed

lemma udp_exchange_closed: "opened c \<Longrightarrow> closed_once (snd (udp_exchange req c))"
proof -
  assume o: "opened c"
  obtain r1 c1 where d1: "conn_do SetWriteDeadline c = (r1, c1)" by force
  obtain r2 c2 where d2: "conn_do (Write_bytes (bytes_string req)) c1 = (r2, c2)" by force
  obtain r3 c3 where d3: "conn_do SetReadDeadline c2 = (r3, c3)" by force
  obtain r4 c4 where d4: "conn_ReadDatagram 2048 c3 = (r4, c4)" by force
  have c1: "opened c1" using d1 o by (rule opened_doE) simp
  have c2: "opened c2" using d2 c1 by (rule opened_doE) simp
  have c3: "opened c3" using d3 c2 by (rule opened_doE) simp
  have c4: "opened c4" using opened_Read(2) [of 2048 c3] d4 c3 by simp
  show ?thesis
    using c1 c2 c3 c4
    by (cases r1; cases r2; cases r3; cases r4)
       (simp_all add: udp_exchange_def d1 d2 d3 d4 Let_def closed_once_Close)
qed

section \<open>What the TCP worker reports\<close>

text \<open>The reference: each job on its own, at its turn.\<close>

definition tcp_scan ::
  "(nat \<Rightarrow> nat) \<Rightarrow> tls_env \<Rightarrow> worker_env \<Rightarrow> nat \<Rightarrow> scan_job
     \<Rightarrow> (scan_result \<times> net_conn) option" where
  "tcp_scan uni tls env n job =
     (case we_dial env n (joinHostPort (job_TargetIP job) (job_Port job)) of
        Inl err \<Rightarrow> None
      | Inr c \<Rightarrow> Some (scan_conn uni tls job c))"

definition runs :: "worker_env \<Rightarrow> nat \<Rightarrow> bool" where
  "runs env n \<longleftrightarrow> \<not> we_done env n \<and> we_wait env n = None"

fun turns :: "worker_env \<Rightarrow> nat \<Rightarrow> scan_job list \<Rightarrow> nat" where
  "turns env n [] = 0"
| "turns env n (job # jobs) = (if runs env n then Suc (turns env (Suc n) jobs) else 0)"

lemma turns_le: "turns env n jobs \<le> length jobs"
  by (induction jobs arbitrary: n) auto

lemma turns_all: "(\<forall>k. runs env k) \<Longrightarrow> turns env n jobs = length jobs"
  by (induction jobs arbitrary: n) auto

lemma Worker_reference:
  assumes "Worker uni tls env n jobs = (rs, cs, left)"
  shows "rs = map fst (List.map_filter (\<lambda>(i, j). tcp_scan uni tls env i j)
                (enumerate n (take (turns env n jobs) jobs)))
    \<and> cs = map snd (List.map_filter (\<lambda>(i, j). tcp_scan uni tls env i j)
                (enumerate n (take (turns env n jobs) jobs)))"
  using assms
proof (induction jobs arbitrary: n rs cs left)
  case (Cons job jobs)
  show ?case
  proof (cases "runs env n")
    case False
    with Cons.prems show ?thesis
      by (auto simp: runs_def map_filter_simps split: if_splits option.splits)
  next
    case True
    obtain rs' cs' left' where w: "Worker uni tls env (Suc n) jobs = (rs', cs', left')"
      by (metis prod.exhaust)
    note ih = Cons.IH [OF w]
    have not_done: "\<not> we_done env n" "we_wait env n = None" using True by (simp_all add: runs_def)
    show ?thesis
    proof (cases "we_dial env n (joinHostPort (job_TargetIP job) (job_Port job))")
      case (Inl e)
      with Cons.prems not_done w have "rs = rs'" "cs = cs'" by simp_all
      with ih True Inl show ?thesis by (simp add: map_filter_simps tcp_scan_def)
    next
      case (Inr c)
      obtain r c' where s: "scan_conn uni tls job c = (r, c')" by force
      with Inr Cons.prems not_done w have "rs = r # rs'" "cs = c' # cs'" by simp_all
      with ih True Inr s show ?thesis by (simp add: map_filter_simps tcp_scan_def)
    qed
  qed
qed (simp add: map_filter_simps)

lemma map_filter_all:
  "(\<And>x y. x \<in> set xs \<Longrightarrow> f x = Some y \<Longrightarrow> P y) \<Longrightarrow> list_all P (List.map_filter f xs)"
  by (auto simp: list_all_iff map_filter_def)

lemma set_enumerate_snd: "(i, x) \<in> set (enumerate n (take m xs)) \<Longrightarrow> x \<in> set xs"
  by (metis in_set_takeD in_set_zip enumerate_eq_zip nth_mem snd_conv)

text \<open>A result is about its job.\<close>

definition about_job :: "string \<Rightarrow> scan_job \<Rightarrow> scan_result \<Rightarrow> bool" where
  "about_job proto job r \<longleftrightarrow> sr_TargetName r = job_TargetName job \<and> sr_TargetIP r = job_TargetIP job
     \<and> sr_Port r = job_Port job \<and> sr_Protocol r = proto \<and> sr_State r = ''open''"

lemma scan_conn_about: "about_job ''tcp'' job (fst (scan_conn uni tls job c))"
proof -
  obtain m c1 where p: "probeTLS tls c (job_TargetName job) = (m, c1)" by force
  obtain bn c2 where g: "(if tm_Version m \<noteq> [] then ([], c1) else grab_banner uni (job_Port job) c1) = (bn, c2)"
    by (metis prod.exhaust)
  show ?thesis by (simp only: scan_conn_def p g prod.case Let_def fst_conv about_job_def scan_result.simps simp_thms)
qed

lemma tcp_scan_Some:
  assumes "handshake_ok tls" "dials_open env" "tcp_scan uni tls env n job = Some (r, c)"
  shows "about_job ''tcp'' job r \<and> closed_once c"
proof -
  obtain c0 where d: "we_dial env n (joinHostPort (job_TargetIP job) (job_Port job)) = Inr c0"
    and s: "scan_conn uni tls job c0 = (r, c)"
    using assms(3) by (auto simp: tcp_scan_def split: sum.splits)
  have "opened c0" using assms(2) d by (simp add: dials_open_def)
  then show ?thesis
    using scan_conn_about [of job uni tls c0] scan_conn_closed [OF assms(1), of c0 uni job] s by simp
qed

text \<open>C36: a TCP worker pushes exactly one result for every job whose port accepted the connection, in the
  order of the jobs, whatever the TLS probe and the banner parser made of it, and none for the
  others. Every connection it opened has been closed, once, as the last thing done on it. It stops at the
  first turn where the context is done or the limiter fails; without one it takes every job.\<close>
theorem Worker_results:
  assumes "handshake_ok tls" "dials_open env"
    and run: "Worker uni tls env n jobs = (rs, cs, left)"
  shows "rs = map fst (List.map_filter (\<lambda>(i, j). tcp_scan uni tls env i j)
                (enumerate n (take (turns env n jobs) jobs)))
    \<and> length cs = length rs \<and> list_all closed_once cs
    \<and> list_all (\<lambda>r. \<exists>job. job \<in> set jobs \<and> about_job ''tcp'' job r) rs
    \<and> ((\<forall>k. runs env k) \<longrightarrow> turns env n jobs = length jobs)"
proof -
  let ?ps = "List.map_filter (\<lambda>(i, j). tcp_scan uni tls env i j)
    (enumerate n (take (turns env n jobs) jobs))"
  have "rs = map fst ?ps" "cs = map snd ?ps" using Worker_reference [OF run] by simp_all
  moreover have "list_all (\<lambda>p. (\<exists>job. job \<in> set jobs \<and> about_job ''tcp'' job (fst p))
      \<and> closed_once (snd p)) ?ps"
    using tcp_scan_Some [OF assms(1,2)] set_enumerate_snd
    by (intro map_filter_all) (fastforce split: prod.splits)
  ultimately show ?thesis using turns_all by (auto simp: list_all_iff)
qed

section \<open>The banner after a failed handshake\<close>

lemma empty_stream:
  assumes "concat (conn_chunks c) = []"
  shows "fst (grab_banner uni port c) = []"
proof -
  have none: "fst (br_ReadString newline (new_reader limit c')) = ([], Some (limit_end limit [] (conn_end c')))"
    if "concat (conn_chunks c') = []" for limit c'
    using br_ReadString_stream [of newline "new_reader limit c'"] that
    by (auto simp: cut_line_def)
  have ssh: "fst (keep_banner (ParseSSH c)) = []"
  proof -
    obtain r c1 where d: "conn_do SetDeadline c = (r, c1)" by force
    then have "concat (conn_chunks c1) = []" using assms by (auto simp: conn_do_def)
    from none [OF this, of maxBannerSize] obtain b e where
      "br_ReadString newline (new_reader maxBannerSize c1) = (([], Some e), b)" by (metis prod.collapse)
    with d show ?thesis
      by (cases r) (simp_all add: ParseSSH_def keep_banner_def Let_def maxBannerSize_def)
  qed
  have http: "fst (keep_banner (ParseHTTP uni c)) = []"
  proof -
    obtain r1 c1 where d1: "conn_do SetDeadline c = (r1, c1)" by force
    obtain r2 c2 where d2: "conn_do (Write_bytes http_probe) c1 = (r2, c2)" by force
    have "concat (conn_chunks c2) = []" using assms d1 d2 by (auto simp: conn_do_def)
    from none [OF this, of maxHTTPHeaderBytes] obtain b e where
      "br_ReadString newline (new_reader maxHTTPHeaderBytes c2) = (([], Some e), b)"
      by (metis prod.collapse)
    with d1 d2 show ?thesis
      by (cases r1; cases r2) (simp_all add: ParseHTTP_def keep_banner_def)
  qed
  have "fst (read_greeting c) = []"
  proof -
    obtain r c1 where d: "conn_do SetReadDeadline c = (r, c1)" by force
    then have "concat (conn_chunks c1) = []" using assms by (auto simp: conn_do_def)
    then have "read_chunks 1024 (conn_chunks c1) = None" by (simp only: read_chunks_None)
    then show ?thesis by (simp add: read_greeting_def d conn_Read_def)
  qed
  with ssh http show ?thesis by (simp add: grab_banner_def)
qed

text \<open>The banner is read from the connection the handshake was tried on. When the failed handshake has
  taken in all that the peer sends - as \<^verbatim>\<open>crypto/tls\<close> does with a greeting that is not a TLS record -
  no banner is found, on any port, and so no hint of the operating system.\<close>
lemma scan_conn_greeting_lost:
  assumes "conn_do SetDeadline c = (None, c1)"
    and "te_Handshake tls \<lparr>cfg_InsecureSkipVerify = True, cfg_ServerName = job_TargetName job,
      cfg_MinVersion = versionTLS10, cfg_CipherSuites = allSupportedCipherSuites tls\<rparr> c1 = (Inl e, c2)"
    and "concat (conn_chunks c2) = []"
  shows "sr_Banner (fst (scan_conn uni tls job c)) = [] \<and> sr_OSHint (fst (scan_conn uni tls job c)) = []"
proof -
  have p: "probeTLS tls c (job_TargetName job) = (zero_tls_meta, c2)"
    using assms(1,2) by (simp add: probeTLS_def)
  obtain c3 where g: "grab_banner uni (job_Port job) c2 = ([], c3)"
    using empty_stream [OF assms(3), of uni "job_Port job"] by (metis prod.collapse)
  have z: "tm_Version zero_tls_meta = []" by (simp add: zero_tls_meta_def)
  have t: "strings_TrimSpace [] = []" "FingerprintOS uni [] = []"
    by (simp_all add: FingerprintOS_def strings_TrimSpace_graphic)
  show ?thesis
    by (simp only: scan_conn_def p g z prod.case Let_def fst_conv scan_result.simps t if_False not_True_eq_False simp_thms)
qed

text \<open>A peer that greets, and a handshake that fails on the greeting.\<close>

definition sample_tls :: tls_env where
  "sample_tls =
     \<lparr>te_CipherSuites = [0x1301], te_InsecureCipherSuites = [], te_CipherSuiteName = (\<lambda>_. ''x''),
      te_Handshake = (\<lambda>cfg c. (Inl (External ''tls: first record does not look like a TLS handshake''),
        c\<lparr>conn_chunks := []\<rparr>)),
      te_Verify = (\<lambda>_ _. None)\<rparr>"

definition sample_worker :: worker_env where
  "sample_worker =
     \<lparr>we_done = (\<lambda>_. False), we_ctxErr = Sentinel ContextCanceled, we_wait = (\<lambda>_. None),
      we_dial = (\<lambda>n _. if n = 0 then Inr (sample_conn [''SSH-2.0-x'']) else Inl (External ''refused'')),
      we_nanos = (\<lambda>_. 0)\<rparr>"

definition sample_job :: "int \<Rightarrow> scan_job" where
  "sample_job port =
     \<lparr>job_TargetIP = ''192.0.2.1'', job_TargetName = ''h'', job_Port = port, job_Protocol = ''tcp''\<rparr>"

lemma sample_env_ok: "handshake_ok sample_tls" "dials_open sample_worker" "runs sample_worker k"
  by (auto simp: handshake_ok_def sample_tls_def opened_def dials_open_def sample_worker_def
      sample_conn_def runs_def split: if_splits)

lemma Worker_results_witness:
  "\<exists>r c. Worker id sample_tls sample_worker 0 [sample_job 22, sample_job 23] = ([r], [c], [])
     \<and> closed_once c \<and> sr_State r = ''open''"
proof -
  obtain rs cs left where
    run: "Worker id sample_tls sample_worker 0 [sample_job 22, sample_job 23] = (rs, cs, left)"
    by (metis prod.exhaust)
  obtain r c where one: "scan_conn id sample_tls (sample_job 22) (sample_conn [''SSH-2.0-x'']) = (r, c)"
    by force
  have "left = []"
    using run one by (simp add: sample_worker_def)
  moreover from Worker_results [OF sample_env_ok(1,2) run] one
  have "rs = [r]" "list_all closed_once cs" "length cs = 1" "sr_State r = ''open''"
    by (auto simp: sample_env_ok(3) tcp_scan_def map_filter_simps about_job_def)
       (auto simp: sample_worker_def map_filter_simps)
  ultimately show ?thesis using run by (cases cs) auto
qed

lemma scan_conn_greeting_lost_witness:
  "sr_Banner (fst (scan_conn id sample_tls (sample_job 22) (sample_conn [''SSH-2.0-x'']))) = []"
proof -
  have "conn_do SetDeadline (sample_conn [''SSH-2.0-x''])
      = (None, sample_conn [''SSH-2.0-x'']\<lparr>conn_log := [SetDeadline]\<rparr>)"
    by (simp add: conn_do_def sample_conn_def)
  from scan_conn_greeting_lost [OF this, of sample_tls "sample_job 22" _ _ id]
  show ?thesis by (simp add: sample_tls_def)
qed

section \<open>What the UDP worker reports\<close>

definition udp_scan :: "worker_env \<Rightarrow> nat \<Rightarrow> scan_job \<Rightarrow> scan_result option" where
  "udp_scan env n job =
     (case udp_request (we_nanos env n) (job_Port job) of
        Inl err \<Rightarrow> None
      | Inr req \<Rightarrow>
          (case we_dial env n (joinHostPort (job_TargetIP job) (job_Port job)) of
             Inl err \<Rightarrow> None
           | Inr c \<Rightarrow>
               (case fst (udp_exchange req c) of
                  None \<Rightarrow> None
                | Some buf \<Rightarrow> if udp_isOpen (job_Port job) req (bytes_of buf)
                              then Some (udp_result job buf) else None)))"

text \<open>The first job whose port has no payload.\<close>

definition unsupported :: "scan_job \<Rightarrow> bool" where
  "unsupported job \<longleftrightarrow> job_Port job \<notin> dom UDPPayloads"

lemma dom_UDPPayloads: "dom UDPPayloads = {53, 123, 161}"
  by (auto simp: UDPPayloads_def)

lemma udp_request_unsupported:
  "unsupported job \<Longrightarrow> udp_request nanos (job_Port job) = Inl (Errorf ''unsupported UDP payload for port'')"
  using dom_UDPPayloads by (auto simp: unsupported_def udp_request_def split: option.split)

lemma udp_request_supported:
  "\<not> unsupported job \<Longrightarrow> \<exists>req. udp_request nanos (job_Port job) = Inr req"
  by (auto simp: unsupported_def udp_request_def)

lemma UDPWorker_reference:
  assumes "dials_open env" "UDPWorker env n we jobs = (e, rs, cs, left)"
  shows "rs = List.map_filter (\<lambda>(i, j). udp_scan env i j) (enumerate n (take (turns env n jobs) jobs))
    \<and> list_all closed_once cs
    \<and> (turns env n jobs = length jobs \<and> \<not> we_done env (n + length jobs) \<longrightarrow>
         left = [] \<and> e = (if we = None \<and> (\<exists>job\<in>set jobs. unsupported job)
              then Some (Errorf ''unsupported UDP payload for port'') else we))"
  using assms(2)
proof (induction jobs arbitrary: n we e rs cs left)
  case Nil
  then show ?case by (auto simp: map_filter_simps split: if_splits)
next
  case (Cons job jobs)
  show ?case
  proof (cases "runs env n")
    case False
    with Cons.prems show ?thesis
      by (auto simp: runs_def map_filter_simps split: if_splits option.splits)
  next
    case True
    then have go: "\<not> we_done env n" "we_wait env n = None" by (simp_all add: runs_def)
    let ?we = "if we = None \<and> unsupported job then Some (Errorf ''unsupported UDP payload for port'') else we"
    obtain e' rs' cs' left' where w: "UDPWorker env (Suc n) ?we jobs = (e', rs', cs', left')"
      by (metis prod.exhaust)
    note ih = Cons.IH [OF w]
    show ?thesis
    proof (cases "unsupported job")
      case un: True
      then have "UDPWorker env n we (job # jobs) = UDPWorker env (Suc n) ?we jobs"
        using go by (simp add: udp_request_unsupported)
      with Cons.prems w have "rs = rs'" "cs = cs'" "e = e'" "left = left'" by auto
      with ih True un show ?thesis
        by (auto simp: map_filter_simps udp_scan_def udp_request_unsupported)
    next
      case su: False
      obtain req where req: "udp_request (we_nanos env n) (job_Port job) = Inr req"
        using udp_request_supported [OF su] by blast
      show ?thesis
      proof (cases "we_dial env n (joinHostPort (job_TargetIP job) (job_Port job))")
        case (Inl x)
        with Cons.prems go req w su have "rs = rs'" "cs = cs'" "e = e'" "left = left'" by simp_all
        with ih True su Inl req show ?thesis by (simp add: map_filter_simps udp_scan_def)
      next
        case (Inr c)
        obtain resp c' where x: "udp_exchange req c = (resp, c')" by force
        have "closed_once c'"
          using udp_exchange_closed [of c req] x assms(1) Inr by (simp add: dials_open_def)
        moreover have "cs = c' # cs'" "e = e'" "left = left'"
          "rs = (case udp_scan env n job of None \<Rightarrow> rs' | Some r \<Rightarrow> r # rs')"
          using Cons.prems go req w su Inr x
          by (auto simp: udp_scan_def split: option.split)
        ultimately show ?thesis
          using ih True su by (auto simp: map_filter_simps split: option.split)
      qed
    qed
  qed
qed

text \<open>C37: the results of a UDP worker are those of its jobs, one by one: a port is reported only when the response
  passed the check of its protocol, with the response in hexadecimal as banner. Every socket is closed
  once. A port without a payload does not stop the worker: it goes on with the other jobs, and when
  the channel is drained it returns an error exactly when there was such a port.\<close>
theorem UDPWorker_results:
  assumes "dials_open env" and run: "UDPWorker env n None jobs = (e, rs, cs, left)"
  shows "rs = List.map_filter (\<lambda>(i, j). udp_scan env i j) (enumerate n (take (turns env n jobs) jobs))
    \<and> list_all closed_once cs
    \<and> list_all (\<lambda>r. \<exists>job nanos req resp. job \<in> set jobs \<and> about_job ''udp'' job r
          \<and> udp_request nanos (job_Port job) = Inr req
          \<and> hex_DecodeString (sr_Banner r) = Some resp
          \<and> udp_isOpen (job_Port job) req (bytes_of resp)) rs
    \<and> ((\<forall>k. runs env k) \<longrightarrow> left = [] \<and> (e = None \<longleftrightarrow> (\<forall>job\<in>set jobs. job_Port job \<in> {53, 123, 161})))"
proof -
  note ref = UDPWorker_reference [OF assms]
  have one: "\<exists>nanos req resp. about_job ''udp'' job r \<and> udp_request nanos (job_Port job) = Inr req
      \<and> hex_DecodeString (sr_Banner r) = Some resp \<and> udp_isOpen (job_Port job) req (bytes_of resp)"
    if "udp_scan env i job = Some r" for i job r
    using that
    by (auto simp: udp_scan_def udp_result_def about_job_def zero_scan_result_def hex_roundtrip
        split: sum.splits option.splits if_splits) blast
  have "list_all (\<lambda>r. \<exists>job nanos req resp. job \<in> set jobs \<and> about_job ''udp'' job r
      \<and> udp_request nanos (job_Port job) = Inr req \<and> hex_DecodeString (sr_Banner r) = Some resp
      \<and> udp_isOpen (job_Port job) req (bytes_of resp))
    (List.map_filter (\<lambda>(i, j). udp_scan env i j) (enumerate n (take (turns env n jobs) jobs)))"
  proof (rule map_filter_all)
    fix x r
    assume "x \<in> set (enumerate n (take (turns env n jobs) jobs))" "(\<lambda>(i, j). udp_scan env i j) x = Some r"
    moreover obtain i job where "x = (i, job)" by (cases x)
    ultimately have "job \<in> set jobs" "udp_scan env i job = Some r"
      using set_enumerate_snd by simp_all
    with one [OF this(2)] show "\<exists>job nanos req resp. job \<in> set jobs \<and> about_job ''udp'' job r
      \<and> udp_request nanos (job_Port job) = Inr req \<and> hex_DecodeString (sr_Banner r) = Some resp
      \<and> udp_isOpen (job_Port job) req (bytes_of resp)" by blast
  qed
  moreover have "left = [] \<and> (e = None \<longleftrightarrow> (\<forall>job\<in>set jobs. job_Port job \<in> {53, 123, 161}))"
    if all: "\<forall>k. runs env k"
  proof -
    have "turns env n jobs = length jobs \<and> \<not> we_done env (n + length jobs)"
      using turns_all [OF all] all by (simp add: runs_def)
    with ref have "left = []"
      "e = (if \<exists>job\<in>set jobs. unsupported job
            then Some (Errorf ''unsupported UDP payload for port'') else None)" by auto
    then show ?thesis by (simp add: unsupported_def dom_UDPPayloads)
  qed
  ultimately show ?thesis using ref by simp
qed

lemma UDPWorker_results_witness:
  "\<exists>e rs cs. UDPWorker sample_worker 0 None [sample_job 161, sample_job 9] = (e, rs, cs, [])
     \<and> e \<noteq> None \<and> list_all closed_once cs"
proof -
  obtain e rs cs left where
    run: "UDPWorker sample_worker 0 None [sample_job 161, sample_job 9] = (e, rs, cs, left)"
    by (metis prod.exhaust)
  from UDPWorker_results [OF sample_env_ok(2) run] show ?thesis
    using run by (auto simp: sample_env_ok(3)) (auto simp: sample_job_def)
qed

end
