(* ===== verification/Dispatcher.thy ===== *)
theory Dispatcher
  imports Workers Completion Steps "HOL-Library.Multiset"
begin

text \<open>
  \<^verbatim>\<open>internal/scanner/dispatcher.go\<close>: the goroutines and channels of a scan, as a transition system. A
  state holds the program counter of every goroutine (target producer, job router, workers, lifecycle
  monitor, completion), the channels between them, and what the consumer of the results has received.
  A step is one action of one goroutine, in any order; sending on a closed channel and closing a
  channel twice panics, as in Go. The context may be done at any time.

  The parameters are what the goroutines work on: the jobs the producer sends and its error when it is
  not cancelled (\<^const>\<open>StreamTargets\<close>), what a worker makes of a job (\<^const>\<open>Worker\<close>, \<^const>\<open>UDPWorker\<close>: a result, no
  result, or the error of an unsupported port), and whether the rate limiter may fail before the
  context is done. The consumer receives every result sent, as the execution loop does.
\<close>

section \<open>Channels\<close>

record 'a chan =
  ch_buf :: "'a list"
  ch_closed :: bool

definition new_chan :: "'a chan" where
  "new_chan = \<lparr>ch_buf = [], ch_closed = False\<rparr>"

definition ch_send :: "'a \<Rightarrow> 'a chan \<Rightarrow> 'a chan" where
  "ch_send x c = c\<lparr>ch_buf := ch_buf c @ [x]\<rparr>"

definition ch_close :: "'a chan \<Rightarrow> 'a chan" where
  "ch_close c = c\<lparr>ch_closed := True\<rparr>"

definition ch_tail :: "'a chan \<Rightarrow> 'a chan" where
  "ch_tail c = c\<lparr>ch_buf := tl (ch_buf c)\<rparr>"

lemma chan_simps [simp]:
  "ch_buf new_chan = []" "\<not> ch_closed new_chan"
  "ch_buf (ch_send x c) = ch_buf c @ [x]" "ch_closed (ch_send x c) = ch_closed c"
  "ch_buf (ch_close c) = ch_buf c" "ch_closed (ch_close c)"
  "ch_buf (ch_tail c) = tl (ch_buf c)" "ch_closed (ch_tail c) = ch_closed c"
  by (simp_all add: new_chan_def ch_send_def ch_close_def ch_tail_def)

section \<open>The state\<close>

text \<open>The program counters follow the bodies of the goroutines, deferred calls in their order.\<close>

datatype producer_pc =
    P_send "scan_job list" "error option"
  | P_report "error option"
  | P_closeErr "error option"
  | P_closeRaw "error option"
  | P_end "error option"

datatype router_pc =
    R_recv
  | R_send scan_job
  | R_closeTcp "error option"
  | R_closeUdp "error option"
  | R_report "error option"
  | R_closeErr "error option"
  | R_end "error option"

datatype worker_pc =
    W_recv
  | W_wait scan_job
  | W_scan scan_job
  | W_push scan_job scan_result
  | W_report error
  | W_end

datatype monitor_pc = M_wait | M_closeResults | M_closeErr | M_closeDone | M_end

datatype completion_pc =
    C_producer
  | C_router "error option option"
  | C_done "error option option" "error option option"
  | C_worker "error option option" "error option option"
  | C_end scan_completion

record worker =
  wk_udp :: bool
  wk_pc :: worker_pc
  wk_err :: "error option"

record pipeline =
  pl_done :: bool
  pl_producer :: producer_pc
  pl_router :: router_pc
  pl_workers :: "worker list"
  pl_monitor :: monitor_pc
  pl_completion :: completion_pc
  pl_raw :: "scan_job chan"
  pl_tcp :: "scan_job chan"
  pl_udp :: "scan_job chan"
  pl_producerErr :: "error option chan"
  pl_routerErr :: "error option chan"
  pl_workerErr :: "error chan"
  pl_resultsClosed :: bool
  pl_doneClosed :: bool
  pl_results :: "scan_result list"
  pl_panic :: bool
  pl_scanned :: "scan_job list" \<comment> \<open>history: the jobs a worker has finished\<close>
  pl_dropped :: "scan_job list" \<comment> \<open>history: the jobs given up\<close>

record pipe_params =
  pp_numWorkers :: nat
  pp_ctxErr :: error
  pp_waitErr :: error
  pp_early :: bool
  pp_tcp :: "scan_job \<Rightarrow> scan_result option"
  pp_udp :: "scan_job \<Rightarrow> error + scan_result option"

text \<open>\<^verbatim>\<open>Run\<close>: the pools and the channels it starts with.\<close>

definition udpWorkers :: "nat \<Rightarrow> nat" where
  "udpWorkers numWorkers = (if numWorkers div 4 < 1 then 1 else numWorkers div 4)"

definition new_worker :: "bool \<Rightarrow> worker" where
  "new_worker udp = \<lparr>wk_udp = udp, wk_pc = W_recv, wk_err = None\<rparr>"

definition Run_start :: "pipe_params \<Rightarrow> scan_job list \<Rightarrow> error option \<Rightarrow> pipeline" where
  "Run_start P jobs err =
     \<lparr>pl_done = False, pl_producer = P_send jobs err, pl_router = R_recv,
      pl_workers = replicate (pp_numWorkers P) (new_worker False)
        @ replicate (udpWorkers (pp_numWorkers P)) (new_worker True),
      pl_monitor = M_wait, pl_completion = C_producer,
      pl_raw = new_chan, pl_tcp = new_chan, pl_udp = new_chan,
      pl_producerErr = new_chan, pl_routerErr = new_chan, pl_workerErr = new_chan,
      pl_resultsClosed = False, pl_doneClosed = False, pl_results = [], pl_panic = False,
      pl_scanned = [], pl_dropped = []\<rparr>"

definition job_cap :: "pipe_params \<Rightarrow> nat" where
  "job_cap P = pp_numWorkers P * 2"

section \<open>The actions\<close>

text \<open>A send waits for room, and panics on a closed channel.\<close>

definition can_send :: "nat \<Rightarrow> 'a chan \<Rightarrow> bool" where
  "can_send cap c \<longleftrightarrow> ch_closed c \<or> length (ch_buf c) < cap"

datatype actor = Context | Producer | Router | Work nat | Monitor | Completing

text \<open>\<^verbatim>\<open>startTargetProducer\<close>: cancellation drops the jobs not sent.\<close>

inductive producer_step :: "pipe_params \<Rightarrow> pipeline \<Rightarrow> pipeline \<Rightarrow> bool" for P where
  produce:
    "pl_producer s = P_send (j # js) e \<Longrightarrow> can_send (job_cap P) (pl_raw s)
     \<Longrightarrow> producer_step P s
       (s\<lparr>pl_producer := P_send js e, pl_raw := ch_send j (pl_raw s),
          pl_panic := pl_panic s \<or> ch_closed (pl_raw s)\<rparr>)"
| produced:
    "pl_producer s = P_send [] e \<Longrightarrow> producer_step P s (s\<lparr>pl_producer := P_report e\<rparr>)"
| produce_cancelled:
    "pl_producer s = P_send js e \<Longrightarrow> pl_done s
     \<Longrightarrow> producer_step P s
       (s\<lparr>pl_producer := P_report (Some (pp_ctxErr P)), pl_dropped := pl_dropped s @ js\<rparr>)"
| produce_report:
    "pl_producer s = P_report e \<Longrightarrow> can_send 1 (pl_producerErr s)
     \<Longrightarrow> producer_step P s
       (s\<lparr>pl_producer := P_closeErr e, pl_producerErr := ch_send e (pl_producerErr s),
          pl_panic := pl_panic s \<or> ch_closed (pl_producerErr s)\<rparr>)"
| produce_closeErr:
    "pl_producer s = P_closeErr e
     \<Longrightarrow> producer_step P s
       (s\<lparr>pl_producer := P_closeRaw e, pl_producerErr := ch_close (pl_producerErr s),
          pl_panic := pl_panic s \<or> ch_closed (pl_producerErr s)\<rparr>)"
| produce_closeRaw:
    "pl_producer s = P_closeRaw e
     \<Longrightarrow> producer_step P s
       (s\<lparr>pl_producer := P_end e, pl_raw := ch_close (pl_raw s),
          pl_panic := pl_panic s \<or> ch_closed (pl_raw s)\<rparr>)"

text \<open>\<^verbatim>\<open>startJobRouter\<close> and \<^verbatim>\<open>routeJobs\<close>.\<close>

inductive router_step :: "pipe_params \<Rightarrow> pipeline \<Rightarrow> pipeline \<Rightarrow> bool" for P where
  route_cancelled:
    "pl_router s = R_recv \<Longrightarrow> pl_done s
     \<Longrightarrow> router_step P s (s\<lparr>pl_router := R_closeTcp (Some (pp_ctxErr P))\<rparr>)"
| route_recv:
    "pl_router s = R_recv \<Longrightarrow> ch_buf (pl_raw s) = j # js
     \<Longrightarrow> router_step P s (s\<lparr>pl_router := R_send j, pl_raw := ch_tail (pl_raw s)\<rparr>)"
| route_drained:
    "pl_router s = R_recv \<Longrightarrow> ch_buf (pl_raw s) = [] \<Longrightarrow> ch_closed (pl_raw s)
     \<Longrightarrow> router_step P s (s\<lparr>pl_router := R_closeTcp None\<rparr>)"
| route_udp:
    "pl_router s = R_send j \<Longrightarrow> job_Protocol j = ''udp'' \<Longrightarrow> can_send (job_cap P) (pl_udp s)
     \<Longrightarrow> router_step P s
       (s\<lparr>pl_router := R_recv, pl_udp := ch_send j (pl_udp s),
          pl_panic := pl_panic s \<or> ch_closed (pl_udp s)\<rparr>)"
| route_tcp:
    "pl_router s = R_send j \<Longrightarrow> job_Protocol j \<noteq> ''udp'' \<Longrightarrow> can_send (job_cap P) (pl_tcp s)
     \<Longrightarrow> router_step P s
       (s\<lparr>pl_router := R_recv, pl_tcp := ch_send j (pl_tcp s),
          pl_panic := pl_panic s \<or> ch_closed (pl_tcp s)\<rparr>)"
| route_send_cancelled:
    "pl_router s = R_send j \<Longrightarrow> pl_done s
     \<Longrightarrow> router_step P s
       (s\<lparr>pl_router := R_closeTcp (Some (pp_ctxErr P)), pl_dropped := pl_dropped s @ [j]\<rparr>)"
| route_closeTcp:
    "pl_router s = R_closeTcp e
     \<Longrightarrow> router_step P s
       (s\<lparr>pl_router := R_closeUdp e, pl_tcp := ch_close (pl_tcp s),
          pl_panic := pl_panic s \<or> ch_closed (pl_tcp s)\<rparr>)"
| route_closeUdp:
    "pl_router s = R_closeUdp e
     \<Longrightarrow> router_step P s
       (s\<lparr>pl_router := R_report e, pl_udp := ch_close (pl_udp s),
          pl_panic := pl_panic s \<or> ch_closed (pl_udp s)\<rparr>)"
| route_report:
    "pl_router s = R_report e \<Longrightarrow> can_send 1 (pl_routerErr s)
     \<Longrightarrow> router_step P s
       (s\<lparr>pl_router := R_closeErr e, pl_routerErr := ch_send e (pl_routerErr s),
          pl_panic := pl_panic s \<or> ch_closed (pl_routerErr s)\<rparr>)"
| route_closeErr:
    "pl_router s = R_closeErr e
     \<Longrightarrow> router_step P s
       (s\<lparr>pl_router := R_end e, pl_routerErr := ch_close (pl_routerErr s),
          pl_panic := pl_panic s \<or> ch_closed (pl_routerErr s)\<rparr>)"

text \<open>What a worker makes of a job, and the channel it takes jobs from.\<close>

definition outcome :: "pipe_params \<Rightarrow> bool \<Rightarrow> scan_job \<Rightarrow> error + scan_result option" where
  "outcome P udp j = (if udp then pp_udp P j else Inr (pp_tcp P j))"

definition jobs_chan :: "bool \<Rightarrow> pipeline \<Rightarrow> scan_job chan" where
  "jobs_chan udp s = (if udp then pl_udp s else pl_tcp s)"

definition take_job :: "bool \<Rightarrow> pipeline \<Rightarrow> pipeline" where
  "take_job udp s =
     (if udp then s\<lparr>pl_udp := ch_tail (pl_udp s)\<rparr> else s\<lparr>pl_tcp := ch_tail (pl_tcp s)\<rparr>)"

definition set_pc :: "nat \<Rightarrow> worker_pc \<Rightarrow> pipeline \<Rightarrow> pipeline" where
  "set_pc i pc s = s\<lparr>pl_workers := (pl_workers s)[i := (pl_workers s ! i)\<lparr>wk_pc := pc\<rparr>]\<rparr>"

definition note_err :: "nat \<Rightarrow> error \<Rightarrow> pipeline \<Rightarrow> pipeline" where
  "note_err i e s =
     (let w = pl_workers s ! i in
      s\<lparr>pl_workers := (pl_workers s)[i := w\<lparr>wk_err := (if wk_err w = None then Some e else wk_err w)\<rparr>]\<rparr>)"

definition stop_pc :: "bool \<Rightarrow> error \<Rightarrow> worker_pc" where
  "stop_pc udp e = (if udp then W_report e else W_end)"

definition drained_pc :: "worker \<Rightarrow> worker_pc" where
  "drained_pc w =
     (if wk_udp w then (case wk_err w of Some e \<Rightarrow> W_report e | None \<Rightarrow> W_end) else W_end)"

text \<open>The worker goroutines: \<^verbatim>\<open>Worker\<close> and \<^verbatim>\<open>UDPWorker\<close>, step by step, and the report of the error a
  UDP worker returns.\<close>

inductive worker_step :: "pipe_params \<Rightarrow> nat \<Rightarrow> pipeline \<Rightarrow> pipeline \<Rightarrow> bool" for P i where
  work_done:
    "i < length (pl_workers s) \<Longrightarrow> w = pl_workers s ! i \<Longrightarrow> wk_pc w = W_recv \<Longrightarrow> pl_done s
     \<Longrightarrow> worker_step P i s (set_pc i (stop_pc (wk_udp w) (pp_ctxErr P)) s)"
| work_recv:
    "i < length (pl_workers s) \<Longrightarrow> w = pl_workers s ! i \<Longrightarrow> wk_pc w = W_recv
     \<Longrightarrow> ch_buf (jobs_chan (wk_udp w) s) = j # js
     \<Longrightarrow> worker_step P i s (set_pc i (W_wait j) (take_job (wk_udp w) s))"
| work_drained:
    "i < length (pl_workers s) \<Longrightarrow> w = pl_workers s ! i \<Longrightarrow> wk_pc w = W_recv
     \<Longrightarrow> ch_buf (jobs_chan (wk_udp w) s) = [] \<Longrightarrow> ch_closed (jobs_chan (wk_udp w) s)
     \<Longrightarrow> worker_step P i s (set_pc i (drained_pc w) s)"
| work_limited:
    "i < length (pl_workers s) \<Longrightarrow> w = pl_workers s ! i \<Longrightarrow> wk_pc w = W_wait j
     \<Longrightarrow> pl_done s \<or> pp_early P
     \<Longrightarrow> worker_step P i s
       ((set_pc i (stop_pc (wk_udp w) (pp_waitErr P)) s)\<lparr>pl_dropped := pl_dropped s @ [j]\<rparr>)"
| work_go:
    "i < length (pl_workers s) \<Longrightarrow> wk_pc (pl_workers s ! i) = W_wait j
     \<Longrightarrow> worker_step P i s (set_pc i (W_scan j) s)"
| work_unsupported:
    "i < length (pl_workers s) \<Longrightarrow> w = pl_workers s ! i \<Longrightarrow> wk_pc w = W_scan j
     \<Longrightarrow> outcome P (wk_udp w) j = Inl e
     \<Longrightarrow> worker_step P i s
       ((set_pc i W_recv (note_err i e s))\<lparr>pl_dropped := pl_dropped s @ [j]\<rparr>)"
| work_nothing:
    "i < length (pl_workers s) \<Longrightarrow> w = pl_workers s ! i \<Longrightarrow> wk_pc w = W_scan j
     \<Longrightarrow> outcome P (wk_udp w) j = Inr None
     \<Longrightarrow> worker_step P i s ((set_pc i W_recv s)\<lparr>pl_scanned := pl_scanned s @ [j]\<rparr>)"
| work_found:
    "i < length (pl_workers s) \<Longrightarrow> w = pl_workers s ! i \<Longrightarrow> wk_pc w = W_scan j
     \<Longrightarrow> outcome P (wk_udp w) j = Inr (Some r)
     \<Longrightarrow> worker_step P i s (set_pc i (W_push j r) s)"
| work_push:
    "i < length (pl_workers s) \<Longrightarrow> wk_pc (pl_workers s ! i) = W_push j r
     \<Longrightarrow> worker_step P i s
       ((set_pc i W_recv s)\<lparr>pl_scanned := pl_scanned s @ [j], pl_results := pl_results s @ [r],
          pl_panic := pl_panic s \<or> pl_resultsClosed s\<rparr>)"
| work_report:
    "i < length (pl_workers s) \<Longrightarrow> wk_pc (pl_workers s ! i) = W_report e
     \<Longrightarrow> worker_step P i s
       ((set_pc i W_end s)\<lparr>
          pl_workerErr := (if can_send 1 (pl_workerErr s) then ch_send e (pl_workerErr s)
                           else pl_workerErr s),
          pl_panic := pl_panic s \<or> ch_closed (pl_workerErr s)\<rparr>)"

text \<open>The lifecycle monitor of \<^verbatim>\<open>Run\<close>.\<close>

inductive monitor_step :: "pipeline \<Rightarrow> pipeline \<Rightarrow> bool" where
  monitor_wait:
    "pl_monitor s = M_wait \<Longrightarrow> list_all (\<lambda>w. wk_pc w = W_end) (pl_workers s)
     \<Longrightarrow> monitor_step s (s\<lparr>pl_monitor := M_closeResults\<rparr>)"
| monitor_results:
    "pl_monitor s = M_closeResults
     \<Longrightarrow> monitor_step s (s\<lparr>pl_monitor := M_closeErr, pl_resultsClosed := True,
          pl_panic := pl_panic s \<or> pl_resultsClosed s\<rparr>)"
| monitor_err:
    "pl_monitor s = M_closeErr
     \<Longrightarrow> monitor_step s (s\<lparr>pl_monitor := M_closeDone, pl_workerErr := ch_close (pl_workerErr s),
          pl_panic := pl_panic s \<or> ch_closed (pl_workerErr s)\<rparr>)"
| monitor_done:
    "pl_monitor s = M_closeDone
     \<Longrightarrow> monitor_step s (s\<lparr>pl_monitor := M_end, pl_doneClosed := True,
          pl_panic := pl_panic s \<or> pl_doneClosed s\<rparr>)"

text \<open>\<^verbatim>\<open>startScannerCompletion\<close>: a receive gives a value, or nothing from a closed channel.\<close>

definition received :: "'a chan \<Rightarrow> 'a option \<Rightarrow> bool" where
  "received c x \<longleftrightarrow>
     (case ch_buf c of v # _ \<Rightarrow> x = Some v | [] \<Rightarrow> ch_closed c \<and> x = None)"

inductive completion_step :: "pipe_params \<Rightarrow> pipeline \<Rightarrow> pipeline \<Rightarrow> bool" for P where
  complete_producer:
    "pl_completion s = C_producer \<Longrightarrow> received (pl_producerErr s) p
     \<Longrightarrow> completion_step P s
       (s\<lparr>pl_completion := C_router p, pl_producerErr := ch_tail (pl_producerErr s)\<rparr>)"
| complete_router:
    "pl_completion s = C_router p \<Longrightarrow> received (pl_routerErr s) r
     \<Longrightarrow> completion_step P s
       (s\<lparr>pl_completion := C_done p r, pl_routerErr := ch_tail (pl_routerErr s)\<rparr>)"
| complete_done:
    "pl_completion s = C_done p r \<Longrightarrow> pl_doneClosed s
     \<Longrightarrow> completion_step P s (s\<lparr>pl_completion := C_worker p r\<rparr>)"
| complete_worker:
    "pl_completion s = C_worker p r \<Longrightarrow> received (pl_workerErr s) x
     \<Longrightarrow> completion_step P s
       (s\<lparr>pl_completion := C_end (awaitScannerCompletion
            (if pl_done s then Some (pp_ctxErr P) else None) p r (map_option Some x)),
          pl_workerErr := ch_tail (pl_workerErr s)\<rparr>)"

text \<open>A step of the scan.\<close>

inductive pipe_step :: "pipe_params \<Rightarrow> actor \<Rightarrow> pipeline \<Rightarrow> pipeline \<Rightarrow> bool" for P where
  cancel: "\<not> pl_done s \<Longrightarrow> pipe_step P Context s (s\<lparr>pl_done := True\<rparr>)"
| by_producer: "producer_step P s s' \<Longrightarrow> pipe_step P Producer s s'"
| by_router: "router_step P s s' \<Longrightarrow> pipe_step P Router s s'"
| by_worker: "worker_step P i s s' \<Longrightarrow> pipe_step P (Work i) s s'"
| by_monitor: "monitor_step s s' \<Longrightarrow> pipe_step P Monitor s s'"
| by_completion: "completion_step P s s' \<Longrightarrow> pipe_step P Completing s s'"

inductive reachable :: "pipe_params \<Rightarrow> scan_job list \<Rightarrow> error option \<Rightarrow> pipeline \<Rightarrow> bool"
  for P jobs err where
  reach_start: "reachable P jobs err (Run_start P jobs err)"
| reach_step: "reachable P jobs err s \<Longrightarrow> pipe_step P a s s' \<Longrightarrow> reachable P jobs err s'"

section \<open>Who closes what\<close>

fun producer_closed :: "producer_pc \<Rightarrow> bool \<times> bool" where
  "producer_closed (P_send js e) = (False, False)"
| "producer_closed (P_report e) = (False, False)"
| "producer_closed (P_closeErr e) = (False, False)"
| "producer_closed (P_closeRaw e) = (True, False)"
| "producer_closed (P_end e) = (True, True)"

fun router_closed :: "router_pc \<Rightarrow> bool \<times> bool \<times> bool" where
  "router_closed R_recv = (False, False, False)"
| "router_closed (R_send j) = (False, False, False)"
| "router_closed (R_closeTcp e) = (False, False, False)"
| "router_closed (R_closeUdp e) = (True, False, False)"
| "router_closed (R_report e) = (True, True, False)"
| "router_closed (R_closeErr e) = (True, True, False)"
| "router_closed (R_end e) = (True, True, True)"

fun monitor_closed :: "monitor_pc \<Rightarrow> bool \<times> bool \<times> bool" where
  "monitor_closed M_wait = (False, False, False)"
| "monitor_closed M_closeResults = (False, False, False)"
| "monitor_closed M_closeErr = (True, False, False)"
| "monitor_closed M_closeDone = (True, True, False)"
| "monitor_closed M_end = (True, True, True)"

text \<open>Every channel has one closer, which closes it at one point of its body; nobody sends after it.\<close>

definition control_inv :: "pipeline \<Rightarrow> bool" where
  "control_inv s \<longleftrightarrow> \<not> pl_panic s
     \<and> producer_closed (pl_producer s) = (ch_closed (pl_producerErr s), ch_closed (pl_raw s))
     \<and> router_closed (pl_router s)
         = (ch_closed (pl_tcp s), ch_closed (pl_udp s), ch_closed (pl_routerErr s))
     \<and> (pl_monitor s \<noteq> M_wait \<longrightarrow> list_all (\<lambda>w. wk_pc w = W_end) (pl_workers s))
     \<and> monitor_closed (pl_monitor s)
         = (pl_resultsClosed s, ch_closed (pl_workerErr s), pl_doneClosed s)"

lemma set_pc_simps [simp]:
  "pl_done (set_pc i pc s) = pl_done s" "pl_producer (set_pc i pc s) = pl_producer s"
  "pl_router (set_pc i pc s) = pl_router s" "pl_monitor (set_pc i pc s) = pl_monitor s"
  "pl_completion (set_pc i pc s) = pl_completion s" "pl_raw (set_pc i pc s) = pl_raw s"
  "pl_tcp (set_pc i pc s) = pl_tcp s" "pl_udp (set_pc i pc s) = pl_udp s"
  "pl_producerErr (set_pc i pc s) = pl_producerErr s"
  "pl_routerErr (set_pc i pc s) = pl_routerErr s" "pl_workerErr (set_pc i pc s) = pl_workerErr s"
  "pl_resultsClosed (set_pc i pc s) = pl_resultsClosed s"
  "pl_doneClosed (set_pc i pc s) = pl_doneClosed s" "pl_results (set_pc i pc s) = pl_results s"
  "pl_panic (set_pc i pc s) = pl_panic s" "pl_scanned (set_pc i pc s) = pl_scanned s"
  "pl_dropped (set_pc i pc s) = pl_dropped s"
  by (simp_all add: set_pc_def)

lemma take_job_simps [simp]:
  "pl_done (take_job u s) = pl_done s" "pl_producer (take_job u s) = pl_producer s"
  "pl_router (take_job u s) = pl_router s" "pl_monitor (take_job u s) = pl_monitor s"
  "pl_completion (take_job u s) = pl_completion s" "pl_raw (take_job u s) = pl_raw s"
  "pl_tcp (take_job u s) = (if u then pl_tcp s else ch_tail (pl_tcp s))"
  "pl_udp (take_job u s) = (if u then ch_tail (pl_udp s) else pl_udp s)"
  "pl_workers (take_job u s) = pl_workers s"
  "pl_producerErr (take_job u s) = pl_producerErr s"
  "pl_routerErr (take_job u s) = pl_routerErr s" "pl_workerErr (take_job u s) = pl_workerErr s"
  "pl_resultsClosed (take_job u s) = pl_resultsClosed s"
  "pl_doneClosed (take_job u s) = pl_doneClosed s" "pl_results (take_job u s) = pl_results s"
  "pl_panic (take_job u s) = pl_panic s" "pl_scanned (take_job u s) = pl_scanned s"
  "pl_dropped (take_job u s) = pl_dropped s"
  by (simp_all add: take_job_def)

lemma note_err_simps [simp]:
  "pl_done (note_err i e s) = pl_done s" "pl_producer (note_err i e s) = pl_producer s"
  "pl_router (note_err i e s) = pl_router s" "pl_monitor (note_err i e s) = pl_monitor s"
  "pl_completion (note_err i e s) = pl_completion s" "pl_raw (note_err i e s) = pl_raw s"
  "pl_tcp (note_err i e s) = pl_tcp s" "pl_udp (note_err i e s) = pl_udp s"
  "pl_producerErr (note_err i e s) = pl_producerErr s"
  "pl_routerErr (note_err i e s) = pl_routerErr s" "pl_workerErr (note_err i e s) = pl_workerErr s"
  "pl_resultsClosed (note_err i e s) = pl_resultsClosed s"
  "pl_doneClosed (note_err i e s) = pl_doneClosed s" "pl_results (note_err i e s) = pl_results s"
  "pl_panic (note_err i e s) = pl_panic s" "pl_scanned (note_err i e s) = pl_scanned s"
  "pl_dropped (note_err i e s) = pl_dropped s"
  by (simp_all add: note_err_def Let_def)

text \<open>Before the monitor has seen every worker end, a worker that has not ended may act.\<close>

lemma acting_worker:
  "control_inv s \<Longrightarrow> i < length (pl_workers s) \<Longrightarrow> wk_pc (pl_workers s ! i) \<noteq> W_end
     \<Longrightarrow> pl_monitor s = M_wait"
  by (auto simp: control_inv_def list_all_length)

lemma worker_step_acts:
  "worker_step P i s s' \<Longrightarrow> i < length (pl_workers s) \<and> wk_pc (pl_workers s ! i) \<noteq> W_end"
  by (induction rule: worker_step.induct) simp_all

lemma control_inv_step: "pipe_step P a s s' \<Longrightarrow> control_inv s \<Longrightarrow> control_inv s'"
proof (induction rule: pipe_step.induct)
  case (cancel s)
  then show ?case by (simp add: control_inv_def)
next
  case (by_producer s s')
  then show ?case by (induction rule: producer_step.induct) (simp_all add: control_inv_def)
next
  case (by_router s s')
  then show ?case by (induction rule: router_step.induct) (simp_all add: control_inv_def)
next
  case (by_worker i s s')
  then have "pl_monitor s = M_wait" using worker_step_acts acting_worker by blast
  with by_worker show ?case
    by (induction rule: worker_step.induct) (simp_all add: control_inv_def)
next
  case (by_monitor s s')
  then show ?case by (induction rule: monitor_step.induct) (simp_all add: control_inv_def)
next
  case (by_completion s s')
  then show ?case by (induction rule: completion_step.induct) (simp_all add: control_inv_def)
qed

lemma control_inv_reachable: "reachable P jobs err s \<Longrightarrow> control_inv s"
proof (induction rule: reachable.induct)
  case reach_start
  show ?case by (simp add: control_inv_def Run_start_def)
qed (rule control_inv_step)

section \<open>No job is lost or done twice\<close>

fun held :: "worker_pc \<Rightarrow> scan_job list" where
  "held (W_wait j) = [j]"
| "held (W_scan j) = [j]"
| "held (W_push j r) = [j]"
| "held _ = []"

fun unsent :: "producer_pc \<Rightarrow> scan_job list" where
  "unsent (P_send js e) = js"
| "unsent _ = []"

fun routing :: "router_pc \<Rightarrow> scan_job list" where
  "routing (R_send j) = [j]"
| "routing _ = []"

definition in_hand :: "pipeline \<Rightarrow> scan_job multiset" where
  "in_hand s = (\<Sum>w\<in>#mset (pl_workers s). mset (held (wk_pc w)))"

text \<open>Where the jobs are.\<close>

definition all_jobs :: "pipeline \<Rightarrow> scan_job multiset" where
  "all_jobs s =
     mset (unsent (pl_producer s)) + mset (ch_buf (pl_raw s)) + mset (routing (pl_router s))
     + mset (ch_buf (pl_tcp s)) + mset (ch_buf (pl_udp s)) + in_hand s
     + mset (pl_scanned s) + mset (pl_dropped s)"

lemma sum_mset_update:
  assumes "i < length ws"
  shows "(\<Sum>w\<in>#mset (ws[i := w']). f w) + f (ws ! i) = (\<Sum>w\<in>#mset ws. f w) + (f w' :: 'a multiset)"
proof -
  have m: "ws ! i \<in># mset ws" using assms by simp
  have "mset ws = add_mset (ws ! i) (mset ws - {#ws ! i#})" by (rule insert_DiffM [OF m, symmetric])
  then have "(\<Sum>w\<in>#mset ws. f w) = f (ws ! i) + (\<Sum>w\<in>#mset ws - {#ws ! i#}. f w)"
    by (metis image_mset_add_mset sum_mset.add_mset)
  moreover have "(\<Sum>w\<in>#mset (ws[i := w']). f w) = f w' + (\<Sum>w\<in>#mset ws - {#ws ! i#}. f w)"
    using assms by (simp add: mset_update)
  ultimately show ?thesis by (simp add: ac_simps)
qed

lemma in_hand_set_pc:
  assumes "i < length (pl_workers s)" "wk_pc (pl_workers s ! i) = pc0"
  shows "in_hand (set_pc i pc s) + mset (held pc0) = in_hand s + mset (held pc)"
  using sum_mset_update [OF assms(1), where f = "\<lambda>w. mset (held (wk_pc w))"] assms(2)
  by (simp add: in_hand_def set_pc_def)

lemma in_hand_set_pc_free:
  assumes "i < length (pl_workers s)" "held (wk_pc (pl_workers s ! i)) = []"
  shows "in_hand (set_pc i pc s) = in_hand s + mset (held pc)"
  using in_hand_set_pc [OF assms(1) refl] assms(2) by simp

lemma in_hand_set_pc_job:
  assumes "i < length (pl_workers s)" "held (wk_pc (pl_workers s ! i)) = [j]"
  shows "in_hand (set_pc i pc s) + {#j#} = in_hand s + mset (held pc)"
  using in_hand_set_pc [OF assms(1) refl] assms(2) by simp

lemma in_hand_simps [simp]:
  "in_hand (take_job u s) = in_hand s"
  by (simp add: in_hand_def)

lemma in_hand_note_err [simp]:
  assumes "i < length (pl_workers s)"
  shows "in_hand (note_err i e s) = in_hand s"
  using sum_mset_update [OF assms, where f = "\<lambda>w. mset (held (wk_pc w))"
      and w' = "(pl_workers s ! i)\<lparr>wk_err := (if wk_err (pl_workers s ! i) = None then Some e
        else wk_err (pl_workers s ! i))\<rparr>"]
  by (simp add: in_hand_def note_err_def Let_def)

lemma note_err_worker:
  "i < length (pl_workers s) \<Longrightarrow> wk_pc (pl_workers (note_err i e s) ! i) = wk_pc (pl_workers s ! i)"
  "length (pl_workers (note_err i e s)) = length (pl_workers s)"
  by (simp_all add: note_err_def Let_def)

lemma mset_tail: "xs = y # ys \<Longrightarrow> mset xs = add_mset y (mset (tl xs))"
  by simp

lemma stop_pc_held [simp]: "held (stop_pc u e) = []"
  by (simp add: stop_pc_def)

lemma drained_pc_held [simp]: "held (drained_pc w) = []"
  by (simp add: drained_pc_def split: option.split)

lemma all_jobs_worker:
  "worker_step P i s s' \<Longrightarrow> all_jobs s' = all_jobs s"
proof (induction rule: worker_step.induct)
  case (work_done s w)
  then show ?case
    using in_hand_set_pc_free [of i s "stop_pc (wk_udp w) (pp_ctxErr P)"] by (simp add: all_jobs_def)
next
  case (work_recv s w j js)
  then show ?case
    using in_hand_set_pc_free [of i "take_job (wk_udp w) s" "W_wait j"]
    by (auto simp: all_jobs_def jobs_chan_def)
next
  case (work_drained s w)
  then show ?case
    using in_hand_set_pc_free [of i s "drained_pc w"] by (simp add: all_jobs_def)
next
  case (work_limited s w j)
  then show ?case
    using in_hand_set_pc_job [of i s j "stop_pc (wk_udp w) (pp_waitErr P)"]
    by (simp add: all_jobs_def in_hand_def)
next
  case (work_go s j)
  then show ?case
    using in_hand_set_pc_job [of i s j "W_scan j"] by (simp add: all_jobs_def)
next
  case (work_unsupported s w j e)
  then show ?case
    using in_hand_set_pc_job [of i "note_err i e s" j W_recv]
    by (simp add: all_jobs_def in_hand_def note_err_worker)
       (simp add: in_hand_def [symmetric])
next
  case (work_nothing s w j)
  then show ?case
    using in_hand_set_pc_job [of i s j W_recv] by (simp add: all_jobs_def in_hand_def)
next
  case (work_found s w j r)
  then show ?case
    using in_hand_set_pc_job [of i s j "W_push j r"] by (simp add: all_jobs_def)
next
  case (work_push s j r)
  then show ?case
    using in_hand_set_pc_job [of i s j W_recv] by (simp add: all_jobs_def in_hand_def)
next
  case (work_report s e)
  then show ?case
    using in_hand_set_pc_free [of i s W_end] by (simp add: all_jobs_def in_hand_def)
qed

lemma in_hand_cong: "pl_workers s = pl_workers s' \<Longrightarrow> in_hand s = in_hand s'"
  by (simp add: in_hand_def)

lemma all_jobs_step: "pipe_step P a s s' \<Longrightarrow> all_jobs s' = all_jobs s"
proof (induction rule: pipe_step.induct)
  case (cancel s)
  then show ?case by (simp add: all_jobs_def in_hand_def)
next
  case (by_producer s s')
  then show ?case by (induction rule: producer_step.induct) (simp_all add: all_jobs_def in_hand_def)
next
  case (by_router s s')
  then show ?case by (induction rule: router_step.induct) (simp_all add: all_jobs_def in_hand_def)
next
  case (by_worker i s s')
  then show ?case by (rule all_jobs_worker)
next
  case (by_monitor s s')
  then show ?case by (induction rule: monitor_step.induct) (simp_all add: all_jobs_def in_hand_def)
next
  case (by_completion s s')
  then show ?case by (induction rule: completion_step.induct) (simp_all add: all_jobs_def in_hand_def)
qed

lemma all_jobs_start: "all_jobs (Run_start P jobs err) = mset jobs"
proof -
  have "in_hand (Run_start P jobs err) = {#}"
    by (simp add: in_hand_def Run_start_def new_worker_def)
  then show ?thesis by (simp add: all_jobs_def) (simp add: Run_start_def)
qed

lemma all_jobs_reachable: "reachable P jobs err s \<Longrightarrow> all_jobs s = mset jobs"
  by (induction rule: reachable.induct) (simp_all add: all_jobs_start all_jobs_step)
section \<open>What the goroutines report\<close>

fun reported :: "producer_pc \<Rightarrow> error option list" where
  "reported (P_closeErr e) = [e]"
| "reported (P_closeRaw e) = [e]"
| "reported (P_end e) = [e]"
| "reported _ = []"

fun producer_value :: "producer_pc \<Rightarrow> error option" where
  "producer_value (P_send js e) = e"
| "producer_value (P_report e) = e"
| "producer_value (P_closeErr e) = e"
| "producer_value (P_closeRaw e) = e"
| "producer_value (P_end e) = e"

fun router_value :: "router_pc \<Rightarrow> error option option" where
  "router_value R_recv = None"
| "router_value (R_send j) = None"
| "router_value (R_closeTcp e) = Some e"
| "router_value (R_closeUdp e) = Some e"
| "router_value (R_report e) = Some e"
| "router_value (R_closeErr e) = Some e"
| "router_value (R_end e) = Some e"

fun routed :: "router_pc \<Rightarrow> error option list" where
  "routed (R_closeErr e) = [e]"
| "routed (R_end e) = [e]"
| "routed _ = []"

text \<open>A report is in its channel until the completion has received it.\<close>

fun producer_msgs :: "completion_pc \<Rightarrow> error option list \<Rightarrow> error option list \<Rightarrow> bool" where
  "producer_msgs C_producer buf rep \<longleftrightarrow> buf = rep"
| "producer_msgs (C_router p) buf rep \<longleftrightarrow> buf = [] \<and> rep = [the p] \<and> p \<noteq> None"
| "producer_msgs (C_done p r) buf rep \<longleftrightarrow> buf = [] \<and> rep = [the p] \<and> p \<noteq> None"
| "producer_msgs (C_worker p r) buf rep \<longleftrightarrow> buf = [] \<and> rep = [the p] \<and> p \<noteq> None"
| "producer_msgs (C_end c) buf rep \<longleftrightarrow> buf = [] \<and> rep \<noteq> []"

fun router_msgs :: "completion_pc \<Rightarrow> error option list \<Rightarrow> error option list \<Rightarrow> bool" where
  "router_msgs C_producer buf rep \<longleftrightarrow> buf = rep"
| "router_msgs (C_router p) buf rep \<longleftrightarrow> buf = rep"
| "router_msgs (C_done p r) buf rep \<longleftrightarrow> buf = [] \<and> rep = [the r] \<and> r \<noteq> None"
| "router_msgs (C_worker p r) buf rep \<longleftrightarrow> buf = [] \<and> rep = [the r] \<and> r \<noteq> None"
| "router_msgs (C_end c) buf rep \<longleftrightarrow> buf = [] \<and> rep \<noteq> []"

fun awaits_workers :: "completion_pc \<Rightarrow> bool" where
  "awaits_workers (C_worker p r) = False"
| "awaits_workers (C_end c) = False"
| "awaits_workers _ = True"

definition producer_inv :: "pipe_params \<Rightarrow> error option \<Rightarrow> pipeline \<Rightarrow> bool" where
  "producer_inv P err s \<longleftrightarrow>
     (producer_value (pl_producer s) = err
      \<or> pl_done s \<and> producer_value (pl_producer s) = Some (pp_ctxErr P))
     \<and> producer_msgs (pl_completion s) (ch_buf (pl_producerErr s)) (reported (pl_producer s))"

fun router_fact :: "error option option \<Rightarrow> bool \<Rightarrow> bool \<Rightarrow> error \<Rightarrow> bool" where
  "router_fact None drained cancelled e = True"
| "router_fact (Some None) drained cancelled e = drained"
| "router_fact (Some (Some e')) drained cancelled e \<longleftrightarrow> cancelled \<and> e' = e"

definition router_inv :: "pipe_params \<Rightarrow> pipeline \<Rightarrow> bool" where
  "router_inv P s \<longleftrightarrow>
     router_fact (router_value (pl_router s)) (ch_closed (pl_raw s) \<and> ch_buf (pl_raw s) = [])
       (pl_done s) (pp_ctxErr P)
     \<and> router_msgs (pl_completion s) (ch_buf (pl_routerErr s)) (routed (pl_router s))
     \<and> (pl_doneClosed s \<or> awaits_workers (pl_completion s))"

lemma router_fact_mono:
  "router_fact v a b e \<Longrightarrow> (a \<Longrightarrow> a') \<Longrightarrow> (b \<Longrightarrow> b') \<Longrightarrow> router_fact v a' b' e"
  by (cases "(v, a, b, e)" rule: router_fact.cases) auto

lemma reported_value: "reported p \<noteq> [] \<Longrightarrow> reported p = [producer_value p]"
  by (cases p) auto

lemma router_fact_False: "router_fact v False b e \<Longrightarrow> router_fact v a b e"
  by (erule router_fact_mono) simp_all

lemma producer_msgs_send: "producer_msgs c buf [] \<Longrightarrow> producer_msgs c (buf @ [e]) [e]"
  by (cases c) auto

lemma router_msgs_send: "router_msgs c buf [] \<Longrightarrow> router_msgs c (buf @ [e]) [e]"
  by (cases c) auto

lemma producer_inv_step:
  assumes "pipe_step P a s s'" "control_inv s" "producer_inv P err s"
  shows "producer_inv P err s'"
  using assms
proof (induction rule: pipe_step.induct)
  case (cancel s)
  then show ?case by (auto simp: producer_inv_def)
next
  case (by_producer s s')
  then show ?case
    by (induction rule: producer_step.induct) (auto simp: producer_inv_def producer_msgs_send)
next
  case (by_router s s')
  then show ?case by (induction rule: router_step.induct) (simp_all add: producer_inv_def)
next
  case (by_worker i s s')
  then show ?case by (induction rule: worker_step.induct) (simp_all add: producer_inv_def)
next
  case (by_monitor s s')
  then show ?case by (induction rule: monitor_step.induct) (simp_all add: producer_inv_def)
next
  case (by_completion s s')
  from by_completion show ?case
  proof (induction rule: completion_step.induct)
    case (complete_producer s p)
    then show ?case
      by (cases "pl_producer s") (auto simp: producer_inv_def control_inv_def received_def)
  qed (auto simp: producer_inv_def)
qed

lemma router_inv_step:
  assumes "pipe_step P a s s'" "control_inv s" "router_inv P s"
  shows "router_inv P s'"
  using assms
proof (induction rule: pipe_step.induct)
  case (cancel s)
  then show ?case by (auto simp: router_inv_def elim: router_fact_mono)
next
  case (by_producer s s')
  then show ?case
    by (induction rule: producer_step.induct)
       (auto simp: router_inv_def control_inv_def intro: router_fact_False)
next
  case (by_router s s')
  then show ?case
    by (induction rule: router_step.induct) (auto simp: router_inv_def router_msgs_send)
next
  case (by_worker i s s')
  then show ?case by (induction rule: worker_step.induct) (simp_all add: router_inv_def)
next
  case (by_monitor s s')
  then show ?case by (induction rule: monitor_step.induct) (auto simp: router_inv_def)
next
  case (by_completion s s')
  from by_completion show ?case
  proof (induction rule: completion_step.induct)
    case (complete_router s p r)
    then show ?case
      by (cases "pl_router s") (auto simp: router_inv_def control_inv_def received_def)
  qed (auto simp: router_inv_def)
qed
section \<open>Workers\<close>

fun stopped :: "worker_pc \<Rightarrow> bool" where
  "stopped W_end = True"
| "stopped (W_report e) = True"
| "stopped _ = False"

text \<open>A worker stops when the context is done, when the limiter fails, or when its channel is closed and
  drained.\<close>

definition may_stop :: "pipe_params \<Rightarrow> pipeline \<Rightarrow> bool \<Rightarrow> bool" where
  "may_stop P s udp \<longleftrightarrow> pl_done s \<or> pp_early P
     \<or> ch_closed (jobs_chan udp s) \<and> ch_buf (jobs_chan udp s) = []"

definition stop_inv :: "pipe_params \<Rightarrow> pipeline \<Rightarrow> bool" where
  "stop_inv P s \<longleftrightarrow> list_all (\<lambda>w. stopped (wk_pc w) \<longrightarrow> may_stop P s (wk_udp w)) (pl_workers s)"

lemma list_all_update: "list_all Q xs \<Longrightarrow> Q x \<Longrightarrow> list_all Q (xs[i := x])"
  by (auto simp: list_all_iff dest!: set_update_subset_insert [THEN subsetD])

lemma stop_inv_mono:
  assumes "stop_inv P s" "pl_workers s' = pl_workers s" "\<And>u. may_stop P s u \<Longrightarrow> may_stop P s' u"
  shows "stop_inv P s'"
  using assms by (auto simp: stop_inv_def list_all_iff)

lemma stop_inv_update:
  assumes "stop_inv P s" "pl_workers s' = (pl_workers s)[i := w]"
    and "\<And>u. may_stop P s u \<Longrightarrow> may_stop P s' u"
    and "stopped (wk_pc w) \<Longrightarrow> may_stop P s' (wk_udp w)"
  shows "stop_inv P s'"
  unfolding stop_inv_def assms(2)
  by (rule list_all_update) (use assms in \<open>auto simp: stop_inv_def list_all_iff\<close>)

lemma stopped_simps [simp]:
  "stopped (stop_pc u e)" "stopped (drained_pc w)"
  by (auto simp: stop_pc_def drained_pc_def split: option.split)

lemma stop_inv_worker:
  assumes "worker_step P i s s'" "stop_inv P s"
  shows "stop_inv P s'"
  using assms
proof (induction rule: worker_step.induct)
  case (work_done s w)
  show ?case
    by (rule stop_inv_update [OF work_done(5)])
       (use work_done in \<open>auto simp: set_pc_def may_stop_def jobs_chan_def\<close>)
next
  case (work_recv s w j js)
  show ?case
    by (rule stop_inv_update [OF work_recv(5)])
       (use work_recv in \<open>auto simp: set_pc_def take_job_def may_stop_def jobs_chan_def\<close>)
next
  case (work_drained s w)
  show ?case
    by (rule stop_inv_update [OF work_drained(6)])
       (use work_drained in \<open>auto simp: set_pc_def may_stop_def jobs_chan_def\<close>)
next
  case (work_limited s w j)
  show ?case
    by (rule stop_inv_update [OF work_limited(5)])
       (use work_limited in \<open>auto simp: set_pc_def may_stop_def jobs_chan_def\<close>)
next
  case (work_go s j)
  show ?case
    by (rule stop_inv_update [OF work_go(3)]) (auto simp: set_pc_def may_stop_def jobs_chan_def)
next
  case (work_unsupported s w j e)
  let ?w = "(pl_workers s ! i)\<lparr>wk_err := (if wk_err (pl_workers s ! i) = None then Some e
     else wk_err (pl_workers s ! i)), wk_pc := W_recv\<rparr>"
  show ?case
    by (rule stop_inv_update [OF work_unsupported(5), where i = i and w = ?w])
       (use work_unsupported(1) in \<open>auto simp: set_pc_def note_err_def Let_def may_stop_def jobs_chan_def\<close>)
next
  case (work_nothing s w j)
  show ?case
    by (rule stop_inv_update [OF work_nothing(5)]) (auto simp: set_pc_def may_stop_def jobs_chan_def)
next
  case (work_found s w j r)
  show ?case
    by (rule stop_inv_update [OF work_found(5)]) (auto simp: set_pc_def may_stop_def jobs_chan_def)
next
  case (work_push s j r)
  show ?case
    by (rule stop_inv_update [OF work_push(3)]) (auto simp: set_pc_def may_stop_def jobs_chan_def)
next
  case (work_report s e)
  have "may_stop P s (wk_udp (pl_workers s ! i))"
    using work_report by (simp add: stop_inv_def list_all_length)
  then show ?case
    by (intro stop_inv_update [OF work_report(3)]) (auto simp: set_pc_def may_stop_def jobs_chan_def)
qed

text \<open>Only a worker changes the workers, and the others keep what lets a worker stop.\<close>

lemma producer_frame:
  "producer_step P s s' \<Longrightarrow> pl_workers s' = pl_workers s"
  "producer_step P s s' \<Longrightarrow> may_stop P s u \<Longrightarrow> may_stop P s' u"
   apply (induction rule: producer_step.induct; simp)
  apply (cases u; induction rule: producer_step.induct; auto simp: may_stop_def jobs_chan_def control_inv_def)
  done

lemma router_frame:
  "router_step P s s' \<Longrightarrow> pl_workers s' = pl_workers s"
  "router_step P s s' \<Longrightarrow> control_inv s \<Longrightarrow> may_stop P s u \<Longrightarrow> may_stop P s' u"
   apply (induction rule: router_step.induct; simp)
  apply (cases u; induction rule: router_step.induct; auto simp: may_stop_def jobs_chan_def control_inv_def)
  done

lemma monitor_frame:
  "monitor_step s s' \<Longrightarrow> pl_workers s' = pl_workers s"
  "monitor_step s s' \<Longrightarrow> may_stop P s u \<Longrightarrow> may_stop P s' u"
   apply (induction rule: monitor_step.induct; simp)
  apply (cases u; induction rule: monitor_step.induct; auto simp: may_stop_def jobs_chan_def control_inv_def)
  done

lemma completion_frame:
  "completion_step P s s' \<Longrightarrow> pl_workers s' = pl_workers s"
  "completion_step P s s' \<Longrightarrow> may_stop P s u \<Longrightarrow> may_stop P s' u"
   apply (induction rule: completion_step.induct; simp)
  apply (cases u; induction rule: completion_step.induct; auto simp: may_stop_def jobs_chan_def control_inv_def)
  done

lemma stop_inv_step:
  assumes "pipe_step P a s s'" "control_inv s" "stop_inv P s"
  shows "stop_inv P s'"
  using assms
proof (induction rule: pipe_step.induct)
  case (cancel s)
  show ?case by (rule stop_inv_mono [OF cancel(3)]) (simp_all add: may_stop_def)
next
  case (by_producer s s')
  show ?case
    by (rule stop_inv_mono [OF by_producer(3) producer_frame]) (use by_producer in auto)
next
  case (by_router s s')
  show ?case
    by (rule stop_inv_mono [OF by_router(3) router_frame]) (use by_router in auto)
next
  case (by_worker i s s')
  then show ?case using stop_inv_worker by blast
next
  case (by_monitor s s')
  show ?case
    by (rule stop_inv_mono [OF by_monitor(3) monitor_frame]) (use by_monitor in auto)
next
  case (by_completion s s')
  show ?case
    by (rule stop_inv_mono [OF by_completion(3) completion_frame]) (use by_completion in auto)
qed

text \<open>The pools.\<close>

definition pools :: "pipe_params \<Rightarrow> pipeline \<Rightarrow> bool" where
  "pools P s \<longleftrightarrow> map wk_udp (pl_workers s)
     = replicate (pp_numWorkers P) False @ replicate (udpWorkers (pp_numWorkers P)) True"

lemma pools_worker: "worker_step P i s s' \<Longrightarrow> map wk_udp (pl_workers s') = map wk_udp (pl_workers s)"
  by (induction rule: worker_step.induct)
     (simp_all add: set_pc_def note_err_def Let_def map_update list_update_same_conv)

lemma pools_step: "pipe_step P a s s' \<Longrightarrow> map wk_udp (pl_workers s') = map wk_udp (pl_workers s)"
  by (induction rule: pipe_step.induct) (simp_all add: producer_frame router_frame monitor_frame completion_frame pools_worker)

lemma pools_reachable: "reachable P jobs err s \<Longrightarrow> pools P s"
proof (induction rule: reachable.induct)
  case reach_start
  show ?case by (simp add: pools_def Run_start_def new_worker_def)
next
  case (reach_step s a s')
  then show ?case by (simp add: pools_def pools_step)
qed
section \<open>A job that is given up leaves an error\<close>

text \<open>A worker has an error to report.\<close>

definition failing :: "worker \<Rightarrow> bool" where
  "failing w \<longleftrightarrow> (wk_udp w \<and> wk_err w \<noteq> None \<and> wk_pc w \<noteq> W_end) \<or> (\<exists>e. wk_pc w = W_report e)"

definition decided :: "completion_pc \<Rightarrow> bool" where
  "decided c \<longleftrightarrow> (\<exists>d. c = C_end d)"

definition loss_inv :: "pipe_params \<Rightarrow> pipeline \<Rightarrow> bool" where
  "loss_inv P s \<longleftrightarrow> pl_dropped s = [] \<or> pl_done s \<or> pp_early P \<or> decided (pl_completion s)
     \<or> ch_buf (pl_workerErr s) \<noteq> [] \<or> list_ex failing (pl_workers s)"

lemma decided_simps [simp]:
  "\<not> decided C_producer" "\<not> decided (C_router p)" "\<not> decided (C_done p r)"
  "\<not> decided (C_worker p r)" "decided (C_end c)"
  by (simp_all add: decided_def)

lemma list_ex_update:
  assumes "list_ex Q xs" "i < length xs" "Q (xs ! i) \<Longrightarrow> Q x"
  shows "list_ex Q (xs[i := x])"
proof -
  obtain k where k: "k < length xs" "Q (xs ! k)" using assms(1) by (auto simp: list_ex_length)
  show ?thesis
  proof (cases "k = i")
    case True
    with k assms show ?thesis by (auto simp: list_ex_length intro: exI [of _ i])
  next
    case False
    with k assms show ?thesis by (auto simp: list_ex_length intro: exI [of _ k])
  qed
qed

lemma failing_set_pc:
  assumes "list_ex failing (pl_workers s)" "i < length (pl_workers s)"
    and "failing (pl_workers s ! i) \<Longrightarrow> failing ((pl_workers s ! i)\<lparr>wk_pc := pc\<rparr>)"
  shows "list_ex failing (pl_workers (set_pc i pc s))"
  using list_ex_update [OF assms] by (simp add: set_pc_def)

lemma loss_inv_worker:
  assumes "worker_step P i s s'" "control_inv s" "loss_inv P s"
  shows "loss_inv P s'"
  using assms
proof (induction rule: worker_step.induct)
  case (work_done s w)
  then show ?case by (simp add: loss_inv_def)
next
  case (work_recv s w j js)
  have "list_ex failing (pl_workers s) \<Longrightarrow>
      list_ex failing (pl_workers (set_pc i (W_wait j) (take_job (wk_udp w) s)))"
    by (rule failing_set_pc) (use work_recv in \<open>auto simp: failing_def\<close>)
  with work_recv show ?case by (auto simp: loss_inv_def)
next
  case (work_drained s w)
  have "list_ex failing (pl_workers s) \<Longrightarrow> list_ex failing (pl_workers (set_pc i (drained_pc w) s))"
    by (rule failing_set_pc)
       (use work_drained in \<open>auto simp: failing_def drained_pc_def split: option.splits\<close>)
  with work_drained show ?case by (auto simp: loss_inv_def)
next
  case (work_limited s w j)
  then show ?case by (auto simp: loss_inv_def)
next
  case (work_go s j)
  have "list_ex failing (pl_workers s) \<Longrightarrow> list_ex failing (pl_workers (set_pc i (W_scan j) s))"
    by (rule failing_set_pc) (use work_go in \<open>auto simp: failing_def\<close>)
  with work_go show ?case by (auto simp: loss_inv_def)
next
  case (work_unsupported s w j e)
  have "wk_udp (pl_workers s ! i)" using work_unsupported by (simp add: outcome_def split: if_splits)
  then have "list_ex failing (pl_workers (set_pc i W_recv (note_err i e s)))"
    using work_unsupported(1)
    by (auto simp: list_ex_length set_pc_def note_err_def Let_def failing_def intro!: exI [of _ i])
  then show ?case by (simp add: loss_inv_def)
next
  case (work_nothing s w j)
  have "list_ex failing (pl_workers s) \<Longrightarrow> list_ex failing (pl_workers (set_pc i W_recv s))"
    by (rule failing_set_pc) (use work_nothing in \<open>auto simp: failing_def\<close>)
  with work_nothing show ?case by (auto simp: loss_inv_def)
next
  case (work_found s w j r)
  have "list_ex failing (pl_workers s) \<Longrightarrow> list_ex failing (pl_workers (set_pc i (W_push j r) s))"
    by (rule failing_set_pc) (use work_found in \<open>auto simp: failing_def\<close>)
  with work_found show ?case by (auto simp: loss_inv_def)
next
  case (work_push s j r)
  have "list_ex failing (pl_workers s) \<Longrightarrow> list_ex failing (pl_workers (set_pc i W_recv s))"
    by (rule failing_set_pc) (use work_push in \<open>auto simp: failing_def\<close>)
  with work_push show ?case by (auto simp: loss_inv_def)
next
  case (work_report s e)
  then have "\<not> can_send 1 (pl_workerErr s) \<Longrightarrow> ch_buf (pl_workerErr s) \<noteq> []"
    by (auto simp: can_send_def)
  then show ?case by (auto simp: loss_inv_def)
qed

lemma loss_inv_step:
  assumes "pipe_step P a s s'" "control_inv s" "loss_inv P s"
  shows "loss_inv P s'"
  using assms
proof (induction rule: pipe_step.induct)
  case (cancel s)
  then show ?case by (simp add: loss_inv_def)
next
  case (by_producer s s')
  then show ?case by (induction rule: producer_step.induct) (auto simp: loss_inv_def)
next
  case (by_router s s')
  then show ?case by (induction rule: router_step.induct) (auto simp: loss_inv_def)
next
  case (by_worker i s s')
  then show ?case by (rule loss_inv_worker)
next
  case (by_monitor s s')
  then show ?case by (induction rule: monitor_step.induct) (auto simp: loss_inv_def)
next
  case (by_completion s s')
  then show ?case by (induction rule: completion_step.induct) (auto simp: loss_inv_def)
qed

section \<open>The results\<close>

definition is_udp :: "scan_job \<Rightarrow> bool" where
  "is_udp j \<longleftrightarrow> job_Protocol j = ''udp''"

text \<open>The result of a job, when it has one.\<close>

definition found :: "pipe_params \<Rightarrow> scan_job \<Rightarrow> scan_result option" where
  "found P j = (case outcome P (is_udp j) j of Inl e \<Rightarrow> None | Inr r \<Rightarrow> r)"

definition worker_ok :: "pipe_params \<Rightarrow> worker \<Rightarrow> bool" where
  "worker_ok P w \<longleftrightarrow> list_all (\<lambda>j. is_udp j = wk_udp w) (held (wk_pc w))
     \<and> (case wk_pc w of W_push j r \<Rightarrow> found P j = Some r | _ \<Rightarrow> True)"

definition results_inv :: "pipe_params \<Rightarrow> pipeline \<Rightarrow> bool" where
  "results_inv P s \<longleftrightarrow> list_all is_udp (ch_buf (pl_udp s))
     \<and> list_all (\<lambda>j. \<not> is_udp j) (ch_buf (pl_tcp s))
     \<and> list_all (worker_ok P) (pl_workers s)
     \<and> pl_results s = List.map_filter (found P) (pl_scanned s)"

lemma worker_ok_free [simp]:
  "worker_ok P (w\<lparr>wk_pc := W_recv\<rparr>)" "worker_ok P (w\<lparr>wk_pc := W_end\<rparr>)"
  "worker_ok P (w\<lparr>wk_pc := stop_pc u e\<rparr>)" "worker_ok P (w\<lparr>wk_pc := drained_pc v\<rparr>)"
  by (auto simp: worker_ok_def stop_pc_def drained_pc_def split: option.split)

lemma results_inv_tail: "list_all Q xs \<Longrightarrow> list_all Q (tl xs)"
  by (cases xs) auto

lemma map_filter_snoc:
  "List.map_filter f (xs @ [x]) = List.map_filter f xs @ (case f x of None \<Rightarrow> [] | Some y \<Rightarrow> [y])"
  by (simp add: map_filter_def split: option.split)

lemma results_inv_worker:
  assumes "worker_step P i s s'" "results_inv P s"
  shows "results_inv P s'"
  using assms
proof (induction rule: worker_step.induct)
  case (work_recv s w j js)
  have "is_udp j = wk_udp w"
    using work_recv by (auto simp: results_inv_def jobs_chan_def split: if_splits)
  with work_recv show ?case
    by (auto simp: results_inv_def set_pc_def worker_ok_def results_inv_tail intro!: list_all_update)
next
  case (work_unsupported s w j e)
  then show ?case
    by (auto simp: results_inv_def set_pc_def note_err_def Let_def intro!: list_all_update)
next
  case (work_go s j)
  have "worker_ok P ((pl_workers s ! i)\<lparr>wk_pc := W_scan j\<rparr>)"
    using work_go by (auto simp: results_inv_def worker_ok_def list_all_length)
  with work_go show ?case by (auto simp: results_inv_def set_pc_def intro!: list_all_update)
next
  case (work_nothing s w j)
  have "worker_ok P w" using work_nothing by (auto simp: results_inv_def list_all_length)
  then have "found P j = None" using work_nothing by (auto simp: worker_ok_def found_def)
  with work_nothing show ?case
    by (auto simp: results_inv_def set_pc_def map_filter_snoc intro!: list_all_update)
next
  case (work_found s w j r)
  have "worker_ok P w" using work_found by (auto simp: results_inv_def list_all_length)
  then have "worker_ok P ((pl_workers s ! i)\<lparr>wk_pc := W_push j r\<rparr>)"
    using work_found by (auto simp: worker_ok_def found_def)
  with work_found show ?case by (auto simp: results_inv_def set_pc_def intro!: list_all_update)
next
  case (work_push s j r)
  have "worker_ok P (pl_workers s ! i)" using work_push by (auto simp: results_inv_def list_all_length)
  then have "found P j = Some r" using work_push by (simp add: worker_ok_def)
  with work_push show ?case
    by (auto simp: results_inv_def set_pc_def map_filter_snoc intro!: list_all_update)
qed (auto simp: results_inv_def set_pc_def intro!: list_all_update)

lemma results_inv_step:
  assumes "pipe_step P a s s'" "results_inv P s"
  shows "results_inv P s'"
  using assms
proof (induction rule: pipe_step.induct)
  case (cancel s)
  then show ?case by (simp add: results_inv_def)
next
  case (by_producer s s')
  then show ?case by (induction rule: producer_step.induct) (auto simp: results_inv_def)
next
  case (by_router s s')
  then show ?case by (induction rule: router_step.induct) (auto simp: results_inv_def is_udp_def)
next
  case (by_worker i s s')
  then show ?case using results_inv_worker by blast
next
  case (by_monitor s s')
  then show ?case by (induction rule: monitor_step.induct) (auto simp: results_inv_def)
next
  case (by_completion s s')
  then show ?case by (induction rule: completion_step.induct) (auto simp: results_inv_def)
qed
section \<open>A completed scan\<close>

text \<open>Everything has been done and nothing is left to do.\<close>

definition clean :: "error option \<Rightarrow> pipeline \<Rightarrow> bool" where
  "clean err s \<longleftrightarrow> err = None \<and> unsent (pl_producer s) = [] \<and> ch_closed (pl_raw s)
     \<and> ch_buf (pl_raw s) = [] \<and> routing (pl_router s) = [] \<and> ch_closed (pl_udp s)
     \<and> ch_buf (pl_tcp s) = [] \<and> ch_buf (pl_udp s) = []
     \<and> list_all (\<lambda>w. wk_pc w = W_end) (pl_workers s) \<and> pl_dropped s = []"

definition clean_inv :: "error option \<Rightarrow> pipeline \<Rightarrow> bool" where
  "clean_inv err s \<longleftrightarrow> (\<forall>c. pl_completion s = C_end c \<and> Successful c \<longrightarrow> clean err s)"

text \<open>The invariants of a scan.\<close>

definition pipe_inv :: "pipe_params \<Rightarrow> scan_job list \<Rightarrow> error option \<Rightarrow> pipeline \<Rightarrow> bool" where
  "pipe_inv P jobs err s \<longleftrightarrow> control_inv s \<and> all_jobs s = mset jobs \<and> producer_inv P err s
     \<and> router_inv P s \<and> stop_inv P s \<and> pools P s \<and> loss_inv P s \<and> results_inv P s"

lemma pipe_inv_start: "pipe_inv P jobs err (Run_start P jobs err)"
  unfolding pipe_inv_def
proof (intro conjI)
  show "control_inv (Run_start P jobs err)"
    by (rule control_inv_reachable) (rule reach_start)
  show "pools P (Run_start P jobs err)"
    by (rule pools_reachable) (rule reach_start)
  show "all_jobs (Run_start P jobs err) = mset jobs" by (rule all_jobs_start)
  show "producer_inv P err (Run_start P jobs err)" by (simp add: producer_inv_def Run_start_def)
  show "router_inv P (Run_start P jobs err)" by (simp add: router_inv_def Run_start_def)
  show "stop_inv P (Run_start P jobs err)"
    by (auto simp: stop_inv_def Run_start_def new_worker_def list_all_iff)
  show "loss_inv P (Run_start P jobs err)" by (simp add: loss_inv_def Run_start_def)
  show "results_inv P (Run_start P jobs err)"
    by (auto simp: results_inv_def Run_start_def new_worker_def worker_ok_def list_all_iff map_filter_def)
qed

lemma pipe_inv_step:
  "pipe_step P a s s' \<Longrightarrow> pipe_inv P jobs err s \<Longrightarrow> pipe_inv P jobs err s'"
  unfolding pipe_inv_def pools_def
  by (intro conjI)
     (simp_all add: control_inv_step all_jobs_step producer_inv_step router_inv_step stop_inv_step
       pools_step loss_inv_step results_inv_step)

lemma pipe_inv_reachable: "reachable P jobs err s \<Longrightarrow> pipe_inv P jobs err s"
  by (induction rule: reachable.induct) (blast intro: pipe_inv_start pipe_inv_step)+

lemma pool_members:
  assumes "pools P s"
  shows "0 < pp_numWorkers P \<Longrightarrow> \<exists>w. w \<in> set (pl_workers s) \<and> \<not> wk_udp w"
    and "\<exists>w. w \<in> set (pl_workers s) \<and> wk_udp w"
proof -
  have m: "set (map wk_udp (pl_workers s)) =
      set (replicate (pp_numWorkers P) False @ replicate (udpWorkers (pp_numWorkers P)) True)"
    using assms unfolding pools_def by (rule arg_cong)
  have u: "0 < udpWorkers (pp_numWorkers P)" by (simp add: udpWorkers_def)
  then have "True \<in> set (map wk_udp (pl_workers s))" unfolding m by simp
  then show "\<exists>w. w \<in> set (pl_workers s) \<and> wk_udp w" by auto
  assume "0 < pp_numWorkers P"
  then have "False \<in> set (map wk_udp (pl_workers s))" unfolding m by simp
  then show "\<exists>w. w \<in> set (pl_workers s) \<and> \<not> wk_udp w" by auto
qed

text \<open>When every worker has ended and the context is not done, both channels are drained.\<close>

lemma drained_when_ended:
  assumes "stop_inv P s" "pools P s" "0 < pp_numWorkers P" "\<not> pp_early P" "\<not> pl_done s"
    and ended: "list_all (\<lambda>w. wk_pc w = W_end) (pl_workers s)"
  shows "ch_closed (jobs_chan u s) \<and> ch_buf (jobs_chan u s) = []"
proof -
  obtain w where w: "w \<in> set (pl_workers s)" "wk_udp w = u"
    using pool_members [OF assms(2)] assms(3) by (cases u) auto
  then have "may_stop P s u"
    using assms(1) ended by (auto simp: stop_inv_def list_all_iff)
  then show ?thesis using assms(4,5) by (simp add: may_stop_def)
qed

lemma clean_at_decision:
  assumes inv: "pipe_inv P jobs err s" and "0 < pp_numWorkers P" "\<not> pp_early P"
    and at: "pl_completion s = C_worker p r" "received (pl_workerErr s) x"
    and ok: "Successful (awaitScannerCompletion (if pl_done s then Some (pp_ctxErr P) else None) p r
      (map_option Some x))"
  shows "clean err s"
proof -
  have c: "control_inv s" "producer_inv P err s" "router_inv P s" "stop_inv P s" "pools P s"
    "loss_inv P s" using inv by (simp_all add: pipe_inv_def)
  have ok': "\<not> pl_done s" "p = Some None" "r = Some None" "x = None"
    using ok by (auto simp: Successful_await split: if_splits)
  have "pl_doneClosed s" using c(3) at(1) by (simp add: router_inv_def)
  then have m: "pl_monitor s = M_end" using c(1) by (cases "pl_monitor s") (auto simp: control_inv_def)
  then have ended: "list_all (\<lambda>w. wk_pc w = W_end) (pl_workers s)" using c(1) by (simp add: control_inv_def)
  have tcp: "ch_closed (pl_tcp s)" "ch_buf (pl_tcp s) = []"
    and udp: "ch_closed (pl_udp s)" "ch_buf (pl_udp s) = []"
    using drained_when_ended [OF c(4,5) assms(2,3) ok'(1) ended, of False]
      drained_when_ended [OF c(4,5) assms(2,3) ok'(1) ended, of True]
    by (simp_all add: jobs_chan_def)
  have rv: "router_value (pl_router s) = Some None"
    using c(3) at(1) ok'(3) by (cases "pl_router s") (auto simp: router_inv_def)
  then have raw: "ch_closed (pl_raw s)" "ch_buf (pl_raw s) = []"
    using c(3) by (simp_all add: router_inv_def)
  have "routing (pl_router s) = []" using rv by (cases "pl_router s") auto
  moreover have "unsent (pl_producer s) = []"
    using c(1) raw(1) by (cases "pl_producer s") (auto simp: control_inv_def)
  moreover have "err = None"
    using c(2) at(1) ok'(1,2) by (cases "pl_producer s") (auto simp: producer_inv_def)
  moreover have "pl_dropped s = []"
    using c(6) at ok' assms(3) ended
    by (auto simp: loss_inv_def received_def list_ex_iff list_all_iff failing_def split: list.splits)
  ultimately show ?thesis using raw tcp udp ended by (simp add: clean_def)
qed

lemma clean_step:
  assumes "pipe_step P a s s'" "control_inv s" "clean err s"
  shows "clean err s'"
  using assms
proof (induction rule: pipe_step.induct)
  case (cancel s)
  then show ?case by (simp add: clean_def)
next
  case (by_producer s s')
  then show ?case by (induction rule: producer_step.induct) (auto simp: clean_def control_inv_def)
next
  case (by_router s s')
  then show ?case by (induction rule: router_step.induct) (auto simp: clean_def control_inv_def)
next
  case (by_worker i s s')
  then show ?case using worker_step_acts [OF by_worker(1)] by (auto simp: clean_def list_all_length)
next
  case (by_monitor s s')
  then show ?case by (induction rule: monitor_step.induct) (auto simp: clean_def)
next
  case (by_completion s s')
  then show ?case by (induction rule: completion_step.induct) (auto simp: clean_def)
qed

lemma completion_kept:
  assumes "pipe_step P a s s'" "pl_completion s = C_end c"
  shows "pl_completion s' = C_end c"
  using assms
proof (induction rule: pipe_step.induct)
  case (by_producer s s')
  then show ?case by (induction rule: producer_step.induct) auto
next
  case (by_router s s')
  then show ?case by (induction rule: router_step.induct) auto
next
  case (by_worker i s s')
  then show ?case by (induction rule: worker_step.induct) auto
next
  case (by_monitor s s')
  then show ?case by (induction rule: monitor_step.induct) auto
next
  case (by_completion s s')
  then show ?case by (induction rule: completion_step.induct) auto
qed auto

text \<open>The completion is decided by its own goroutine only.\<close>

lemma decision:
  assumes "pipe_step P a s s'" "pl_completion s' = C_end c" "\<not> decided (pl_completion s)"
  shows "\<exists>p r x. pl_completion s = C_worker p r \<and> received (pl_workerErr s) x
    \<and> c = awaitScannerCompletion (if pl_done s then Some (pp_ctxErr P) else None) p r (map_option Some x)
    \<and> (\<forall>err. clean err s \<longrightarrow> clean err s')"
  using assms
proof (induction rule: pipe_step.induct)
  case (by_producer s s')
  then show ?case by (induction rule: producer_step.induct) auto
next
  case (by_router s s')
  then show ?case by (induction rule: router_step.induct) auto
next
  case (by_worker i s s')
  then show ?case by (induction rule: worker_step.induct) auto
next
  case (by_monitor s s')
  then show ?case by (induction rule: monitor_step.induct) auto
next
  case (by_completion s s')
  then show ?case by (induction rule: completion_step.induct) (auto simp: clean_def)
qed auto

lemma clean_reachable:
  assumes "reachable P jobs err s" "0 < pp_numWorkers P" "\<not> pp_early P"
    and "pl_completion s = C_end c" "Successful c"
  shows "clean err s"
  using assms
proof (induction rule: reachable.induct)
  case reach_start
  then show ?case by (simp add: Run_start_def)
next
  case (reach_step s a s')
  have inv: "pipe_inv P jobs err s" using pipe_inv_reachable reach_step.hyps(1) .
  show ?case
  proof (cases "decided (pl_completion s)")
    case True
    then obtain d where d: "pl_completion s = C_end d" by (auto simp: decided_def)
    with completion_kept [OF reach_step.hyps(2)] reach_step.prems have "d = c" by simp
    with d reach_step have "clean err s" by simp
    with clean_step [OF reach_step.hyps(2)] inv show ?thesis by (simp add: pipe_inv_def)
  next
    case False
    from decision [OF reach_step.hyps(2) reach_step.prems(3) False] obtain p r x
      where "pl_completion s = C_worker p r" "received (pl_workerErr s) x"
        "c = awaitScannerCompletion (if pl_done s then Some (pp_ctxErr P) else None) p r (map_option Some x)"
        and step: "clean err s \<longrightarrow> clean err s'" by blast
    with clean_at_decision [OF inv reach_step.prems(1,2)] reach_step.prems(4) show ?thesis by blast
  qed
qed
section \<open>Every scan comes to an end\<close>

fun producer_weight :: "producer_pc \<Rightarrow> nat" where
  "producer_weight (P_send js e) = 8 * length js + 4"
| "producer_weight (P_report e) = 3"
| "producer_weight (P_closeErr e) = 2"
| "producer_weight (P_closeRaw e) = 1"
| "producer_weight (P_end e) = 0"

fun router_weight :: "router_pc \<Rightarrow> nat" where
  "router_weight R_recv = 5"
| "router_weight (R_send j) = 11"
| "router_weight (R_closeTcp e) = 4"
| "router_weight (R_closeUdp e) = 3"
| "router_weight (R_report e) = 2"
| "router_weight (R_closeErr e) = 1"
| "router_weight (R_end e) = 0"

fun pc_weight :: "worker_pc \<Rightarrow> nat" where
  "pc_weight W_recv = 2"
| "pc_weight (W_wait j) = 6"
| "pc_weight (W_scan j) = 5"
| "pc_weight (W_push j r) = 4"
| "pc_weight (W_report e) = 1"
| "pc_weight W_end = 0"

fun monitor_weight :: "monitor_pc \<Rightarrow> nat" where
  "monitor_weight M_wait = 4"
| "monitor_weight M_closeResults = 3"
| "monitor_weight M_closeErr = 2"
| "monitor_weight M_closeDone = 1"
| "monitor_weight M_end = 0"

fun completion_weight :: "completion_pc \<Rightarrow> nat" where
  "completion_weight C_producer = 4"
| "completion_weight (C_router p) = 3"
| "completion_weight (C_done p r) = 2"
| "completion_weight (C_worker p r) = 1"
| "completion_weight (C_end c) = 0"

definition workers_weight :: "worker list \<Rightarrow> nat" where
  "workers_weight ws = sum_list (map (\<lambda>w. pc_weight (wk_pc w)) ws)"

definition pipe_measure :: "pipeline \<Rightarrow> nat" where
  "pipe_measure s =
     (if pl_done s then 0 else 1) + producer_weight (pl_producer s)
     + 7 * length (ch_buf (pl_raw s)) + router_weight (pl_router s)
     + 5 * length (ch_buf (pl_tcp s)) + 5 * length (ch_buf (pl_udp s))
     + workers_weight (pl_workers s) + monitor_weight (pl_monitor s)
     + completion_weight (pl_completion s)"

lemma workers_weight_update:
  assumes "i < length ws"
  shows "workers_weight (ws[i := w]) + pc_weight (wk_pc (ws ! i)) = workers_weight ws + pc_weight (wk_pc w)"
proof -
  have "pc_weight (wk_pc (ws ! i)) \<le> sum_list (map (\<lambda>w. pc_weight (wk_pc w)) ws)"
    using assms by (intro member_le_sum_list) auto
  then show ?thesis
    using assms by (simp add: workers_weight_def map_update sum_list_update)
qed

lemma weight_set_pc:
  assumes "i < length (pl_workers s)"
  shows "workers_weight (pl_workers (set_pc i pc s)) + pc_weight (wk_pc (pl_workers s ! i))
    = workers_weight (pl_workers s) + pc_weight pc"
  using workers_weight_update [OF assms, of "(pl_workers s ! i)\<lparr>wk_pc := pc\<rparr>"]
  by (simp add: set_pc_def)

lemma weight_note_err [simp]:
  assumes "i < length (pl_workers s)"
  shows "workers_weight (pl_workers (note_err i e s)) = workers_weight (pl_workers s)"
  using workers_weight_update [OF assms, of "(pl_workers s ! i)\<lparr>wk_err :=
      (if wk_err (pl_workers s ! i) = None then Some e else wk_err (pl_workers s ! i))\<rparr>"]
  by (simp add: note_err_def Let_def)

lemma stop_pc_weight [simp]: "pc_weight (stop_pc u e) \<le> 1" "pc_weight (drained_pc w) \<le> 1"
  by (simp_all add: stop_pc_def drained_pc_def split: option.split)

lemma length_tail: "xs = y # ys \<Longrightarrow> Suc (length (tl xs)) = length xs"
  by simp

lemma worker_decreases: "worker_step P i s s' \<Longrightarrow> pipe_measure s' < pipe_measure s"
proof (induction rule: worker_step.induct)
  case (work_done s w)
  then show ?case
    using weight_set_pc [OF work_done(1), of "stop_pc (wk_udp w) (pp_ctxErr P)"]
      stop_pc_weight(1) [of "wk_udp w" "pp_ctxErr P"]
    by (simp add: pipe_measure_def)
next
  case (work_recv s w j js)
  then show ?case
    using weight_set_pc [of i "take_job (wk_udp w) s" "W_wait j"]
    by (auto simp: pipe_measure_def jobs_chan_def)
next
  case (work_drained s w)
  then show ?case
    using weight_set_pc [OF work_drained(1), of "drained_pc w"] stop_pc_weight(2) [of w]
    by (simp add: pipe_measure_def)
next
  case (work_limited s w j)
  then show ?case
    using weight_set_pc [OF work_limited(1), of "stop_pc (wk_udp w) (pp_waitErr P)"]
      stop_pc_weight(1) [of "wk_udp w" "pp_waitErr P"]
    by (simp add: pipe_measure_def)
next
  case (work_go s j)
  then show ?case using weight_set_pc [OF work_go(1), of "W_scan j"] by (simp add: pipe_measure_def)
next
  case (work_unsupported s w j e)
  then show ?case
    using weight_set_pc [of i "note_err i e s" W_recv]
    by (simp add: pipe_measure_def note_err_worker)
next
  case (work_nothing s w j)
  then show ?case using weight_set_pc [OF work_nothing(1), of W_recv] by (simp add: pipe_measure_def)
next
  case (work_found s w j r)
  then show ?case using weight_set_pc [OF work_found(1), of "W_push j r"] by (simp add: pipe_measure_def)
next
  case (work_push s j r)
  then show ?case using weight_set_pc [OF work_push(1), of W_recv] by (simp add: pipe_measure_def)
next
  case (work_report s e)
  then show ?case using weight_set_pc [OF work_report(1), of W_end] by (simp add: pipe_measure_def)
qed

lemma pipe_decreases: "pipe_step P a s s' \<Longrightarrow> pipe_measure s' < pipe_measure s"
proof (induction rule: pipe_step.induct)
  case (by_producer s s')
  then show ?case by (induction rule: producer_step.induct) (simp_all add: pipe_measure_def)
next
  case (by_router s s')
  then show ?case by (induction rule: router_step.induct) (simp_all add: pipe_measure_def)
next
  case (by_worker i s s')
  then show ?case by (rule worker_decreases)
next
  case (by_monitor s s')
  then show ?case by (induction rule: monitor_step.induct) (simp_all add: pipe_measure_def)
next
  case (by_completion s s')
  then show ?case by (induction rule: completion_step.induct) (simp_all add: pipe_measure_def)
qed (simp add: pipe_measure_def)

section \<open>No scan gets stuck\<close>

text \<open>Some goroutine can act; the arrival of a cancellation does not count.\<close>

definition can_move :: "pipe_params \<Rightarrow> pipeline \<Rightarrow> bool" where
  "can_move P s \<longleftrightarrow> (\<exists>a s'. a \<noteq> Context \<and> pipe_step P a s s')"

lemma can_moveI:
  "producer_step P s s' \<Longrightarrow> can_move P s"
  "router_step P s s' \<Longrightarrow> can_move P s"
  "worker_step P i s s' \<Longrightarrow> can_move P s"
  "monitor_step s s' \<Longrightarrow> can_move P s"
  "completion_step P s s' \<Longrightarrow> can_move P s"
  unfolding can_move_def by (blast intro: pipe_step.intros actor.distinct)+

lemma can_send_room: "buf = ch_buf c \<Longrightarrow> length buf < n \<Longrightarrow> can_send n c"
  by (simp add: can_send_def)

lemma report_room:
  "producer_inv P err s \<Longrightarrow> reported (pl_producer s) = [] \<Longrightarrow> can_send 1 (pl_producerErr s)"
  "router_inv P s \<Longrightarrow> routed (pl_router s) = [] \<Longrightarrow> can_send 1 (pl_routerErr s)"
  by (cases "pl_completion s"; simp add: producer_inv_def router_inv_def can_send_def)+

lemma producer_moves:
  assumes "producer_inv P err s" "\<nexists>e. pl_producer s = P_end e"
    and "can_send (job_cap P) (pl_raw s) \<or> pl_done s"
  shows "can_move P s"
proof (cases "pl_producer s")
  case (P_send js e)
  show ?thesis
  proof (cases js)
    case Nil
    with P_send show ?thesis by (auto intro: can_moveI(1) produced)
  next
    case (Cons j js')
    with P_send assms(3) show ?thesis by (blast intro: can_moveI(1) produce produce_cancelled)
  qed
next
  case (P_report e)
  then have "can_send 1 (pl_producerErr s)" using assms(1) by (intro report_room(1)) simp_all
  with P_report show ?thesis by (blast intro: can_moveI(1) produce_report)
qed (use assms(2) in \<open>blast intro: can_moveI(1) produce_closeErr produce_closeRaw\<close>)+

lemma worker_moves:
  assumes "i < length (pl_workers s)" "wk_pc (pl_workers s ! i) \<noteq> W_end"
    and "wk_pc (pl_workers s ! i) = W_recv \<Longrightarrow> ch_buf (jobs_chan (wk_udp (pl_workers s ! i)) s) \<noteq> []
      \<or> ch_closed (jobs_chan (wk_udp (pl_workers s ! i)) s)"
  shows "can_move P s"
proof (cases "wk_pc (pl_workers s ! i)")
  case W_recv
  show ?thesis
  proof (cases "ch_buf (jobs_chan (wk_udp (pl_workers s ! i)) s)")
    case Nil
    with W_recv assms show ?thesis by (blast intro: can_moveI(3) work_drained)
  next
    case (Cons j js)
    with W_recv assms(1) show ?thesis by (blast intro: can_moveI(3) work_recv)
  qed
next
  case (W_wait j)
  with assms(1) show ?thesis by (blast intro: can_moveI(3) work_go)
next
  case (W_scan j)
  show ?thesis
  proof (cases "outcome P (wk_udp (pl_workers s ! i)) j")
    case (Inl e)
    with W_scan assms(1) show ?thesis by (blast intro: can_moveI(3) work_unsupported)
  next
    case (Inr r)
    with W_scan assms(1) show ?thesis
      by (cases r) (blast intro: can_moveI(3) work_nothing work_found)+
  qed
next
  case (W_push j r)
  with assms(1) show ?thesis by (blast intro: can_moveI(3) work_push)
next
  case (W_report e)
  with assms(1) show ?thesis by (blast intro: can_moveI(3) work_report)
qed (use assms(2) in simp)

text \<open>A channel of jobs that is full is served, or the context is done.\<close>

lemma full_channel_moves:
  assumes inv: "stop_inv P s" "pools P s" "0 < pp_numWorkers P" "\<not> pp_early P"
    and "\<not> can_send (job_cap P) (jobs_chan u s)"
  shows "can_move P s \<or> pl_done s"
proof -
  have full: "\<not> ch_closed (jobs_chan u s)" "ch_buf (jobs_chan u s) \<noteq> []"
    using assms(3,5) by (auto simp: can_send_def job_cap_def)
  obtain w where "w \<in> set (pl_workers s)" "wk_udp w = u"
    using pool_members [OF inv(2)] inv(3) by (cases u) auto
  then obtain i where i: "i < length (pl_workers s)" "wk_udp (pl_workers s ! i) = u"
    by (auto simp: in_set_conv_nth)
  show ?thesis
  proof (cases "stopped (wk_pc (pl_workers s ! i))")
    case True
    then have "may_stop P s u" using inv(1) i by (auto simp: stop_inv_def list_all_length)
    then show ?thesis using inv(4) full by (simp add: may_stop_def)
  next
    case False
    then have "wk_pc (pl_workers s ! i) \<noteq> W_end" by auto
    then show ?thesis using worker_moves [of i s] i full by blast
  qed
qed

lemma router_moves:
  assumes inv: "pipe_inv P jobs err s" "0 < pp_numWorkers P" "\<not> pp_early P"
    and "\<nexists>e. pl_router s = R_end e"
  shows "can_move P s"
proof (cases "pl_router s")
  case R_recv
  show ?thesis
  proof (cases "ch_buf (pl_raw s)")
    case Nil
    show ?thesis
    proof (cases "ch_closed (pl_raw s)")
      case True
      with Nil R_recv show ?thesis by (blast intro: can_moveI(2) route_drained)
    next
      case False
      have "producer_inv P err s" "\<nexists>e. pl_producer s = P_end e"
        using inv(1) False by (auto simp: pipe_inv_def control_inv_def)
      moreover have "can_send (job_cap P) (pl_raw s)"
        using Nil inv(2) by (simp add: can_send_def job_cap_def)
      ultimately show ?thesis by (blast intro: producer_moves)
    qed
  next
    case (Cons j js)
    with R_recv show ?thesis by (blast intro: can_moveI(2) route_recv)
  qed
next
  case (R_send j)
  let ?u = "job_Protocol j = ''udp''"
  have "can_send (job_cap P) (jobs_chan ?u s) \<or> can_move P s \<or> pl_done s"
    using full_channel_moves [of P s ?u] inv by (auto simp: pipe_inv_def)
  then show ?thesis
    using R_send
    by (cases ?u) (auto simp: jobs_chan_def intro: can_moveI(2) route_udp route_tcp route_send_cancelled)
next
  case (R_report e)
  then have "can_send 1 (pl_routerErr s)"
    using inv(1) by (intro report_room(2) [of P]) (simp_all add: pipe_inv_def)
  with R_report show ?thesis by (blast intro: can_moveI(2) route_report)
qed (use assms(4) in \<open>blast intro: can_moveI(2) route_closeTcp route_closeUdp route_closeErr\<close>)+

text \<open>The scan is over: every goroutine has ended.\<close>

definition finished :: "pipeline \<Rightarrow> bool" where
  "finished s \<longleftrightarrow> (\<exists>e. pl_producer s = P_end e) \<and> (\<exists>e. pl_router s = R_end e)
     \<and> list_all (\<lambda>w. wk_pc w = W_end) (pl_workers s) \<and> pl_monitor s = M_end
     \<and> decided (pl_completion s)"

lemma received_some: "ch_buf c \<noteq> [] \<or> ch_closed c \<Longrightarrow> \<exists>x. received c x"
  by (cases "ch_buf c") (auto simp: received_def)

lemma pipe_progress:
  assumes inv: "pipe_inv P jobs err s" and n: "0 < pp_numWorkers P" "\<not> pp_early P"
  shows "finished s \<or> can_move P s"
proof (rule ccontr)
  assume "\<not> (finished s \<or> can_move P s)"
  then have nf: "\<not> finished s" and stuck: "\<not> can_move P s" by simp_all
  have c: "control_inv s" "producer_inv P err s" "router_inv P s"
    using inv by (simp_all add: pipe_inv_def)
  obtain re where router: "pl_router s = R_end re" using router_moves [OF inv n] stuck by blast
  have chans: "ch_closed (pl_tcp s)" "ch_closed (pl_udp s)"
    using c(1) router by (simp_all add: control_inv_def)
  have "pl_done s \<or> ch_closed (pl_raw s)"
    using c(3) router by (cases re) (simp_all add: router_inv_def)
  then obtain pe where producer: "pl_producer s = P_end pe"
    using producer_moves [OF c(2)] stuck c(1)
    by (cases "pl_producer s") (auto simp: control_inv_def)
  have ended: "list_all (\<lambda>w. wk_pc w = W_end) (pl_workers s)"
  proof -
    have "ch_closed (jobs_chan u s)" for u using chans by (simp add: jobs_chan_def)
    then show ?thesis using worker_moves [of _ s P] stuck by (auto simp: list_all_length)
  qed
  have monitor: "pl_monitor s = M_end"
    using stuck ended
    by (cases "pl_monitor s")
       (blast intro: can_moveI(4) monitor_wait monitor_results monitor_err monitor_done)+
  have closed: "pl_doneClosed s" "ch_closed (pl_workerErr s)" "ch_closed (pl_producerErr s)"
    "ch_closed (pl_routerErr s)"
    using c(1) monitor producer router by (simp_all add: control_inv_def)
  obtain x y z where "received (pl_producerErr s) x" "received (pl_routerErr s) y"
    "received (pl_workerErr s) z" using closed received_some by metis
  then have "decided (pl_completion s)"
    using stuck closed(1)
    by (cases "pl_completion s")
       (auto intro: can_moveI(5) complete_producer complete_router complete_done complete_worker)
  with nf producer router ended monitor show False by (simp add: finished_def)
qed
section \<open>A scan that is not cancelled\<close>

text \<open>Every UDP job has a payload.\<close>

definition supported :: "pipe_params \<Rightarrow> scan_job list \<Rightarrow> bool" where
  "supported P jobs \<longleftrightarrow> list_all (\<lambda>j. is_udp j \<longrightarrow> (\<exists>r. pp_udp P j = Inr r)) jobs"

definition calm :: "worker \<Rightarrow> bool" where
  "calm w \<longleftrightarrow> wk_err w = None \<and> (\<forall>e. wk_pc w \<noteq> W_report e)"

definition quiet_inv :: "error option \<Rightarrow> pipeline \<Rightarrow> bool" where
  "quiet_inv err s \<longleftrightarrow> pl_done s
     \<or> list_all calm (pl_workers s) \<and> ch_buf (pl_workerErr s) = []
       \<and> (\<forall>c. pl_completion s = C_end c \<and> err = None \<longrightarrow> Successful c)"

lemma held_job_in:
  assumes "all_jobs s = mset jobs" "i < length (pl_workers s)" "held (wk_pc (pl_workers s ! i)) = [j]"
  shows "j \<in> set jobs"
proof -
  have "pl_workers s ! i \<in># mset (pl_workers s)" using assms(2) by simp
  then have "j \<in># in_hand s" using assms(3) by (force simp: in_hand_def)
  then show ?thesis using assms(1) by (metis all_jobs_def set_mset_mset union_iff)
qed

lemma quiet_worker:
  assumes "worker_step P i s s'" "pipe_inv P jobs err s" "\<not> pp_early P" "supported P jobs"
    and "quiet_inv err s"
  shows "quiet_inv err s'"
  using assms
proof (induction rule: worker_step.induct)
  case (work_unsupported s w j e)
  have j: "j \<in> set jobs"
    using held_job_in [of s jobs i j] work_unsupported by (simp add: pipe_inv_def)
  have "worker_ok P w" using work_unsupported by (auto simp: pipe_inv_def results_inv_def list_all_length)
  then have "is_udp j = wk_udp w" using work_unsupported by (simp add: worker_ok_def)
  with j work_unsupported show ?case
    by (auto simp: supported_def outcome_def list_all_iff split: if_splits)
next
  case (work_drained s w)
  then show ?case
    by (auto simp: quiet_inv_def set_pc_def calm_def drained_pc_def list_all_length nth_list_update)
next
  case (work_report s e)
  then show ?case by (auto simp: quiet_inv_def calm_def list_all_length)
qed (auto simp: quiet_inv_def set_pc_def calm_def list_all_length nth_list_update)

lemma quiet_step:
  assumes "pipe_step P a s s'" "pipe_inv P jobs err s" "\<not> pp_early P" "supported P jobs"
    and "quiet_inv err s"
  shows "quiet_inv err s'"
  using assms
proof (induction rule: pipe_step.induct)
  case (cancel s)
  then show ?case by (simp add: quiet_inv_def)
next
  case (by_producer s s')
  then show ?case by (induction rule: producer_step.induct) (auto simp: quiet_inv_def)
next
  case (by_router s s')
  then show ?case by (induction rule: router_step.induct) (auto simp: quiet_inv_def)
next
  case (by_worker i s s')
  then show ?case by (rule quiet_worker)
next
  case (by_monitor s s')
  then show ?case by (induction rule: monitor_step.induct) (auto simp: quiet_inv_def)
next
  case (by_completion s s')
  then show ?case
  proof (induction rule: completion_step.induct)
    case (complete_worker s p r x)
    show ?case
    proof (cases "pl_done s")
      case False
      have "producer_inv P err s" "router_inv P s" using complete_worker by (simp_all add: pipe_inv_def)
      moreover have "x = None"
        using complete_worker False by (simp add: quiet_inv_def received_def)
      ultimately have "Successful (awaitScannerCompletion None p r (map_option Some x))" if "err = None"
        using complete_worker(1) False that
        by (cases "pl_producer s"; cases "pl_router s"; cases "the r")
           (auto simp: Successful_await producer_inv_def router_inv_def)
      with complete_worker False show ?thesis by (auto simp: quiet_inv_def)
    qed (simp add: quiet_inv_def)
  qed (auto simp: quiet_inv_def)
qed

lemma quiet_reachable:
  assumes "reachable P jobs err s" "\<not> pp_early P" "supported P jobs"
  shows "quiet_inv err s"
  using assms
proof (induction rule: reachable.induct)
  case reach_start
  show ?case by (auto simp: quiet_inv_def Run_start_def new_worker_def calm_def list_all_iff)
next
  case (reach_step s a s')
  then show ?case using quiet_step pipe_inv_reachable by blast
qed

text \<open>A step of a goroutine does not cancel the context.\<close>

lemma keeps_done: "pipe_step P a s s' \<Longrightarrow> a \<noteq> Context \<Longrightarrow> pl_done s' = pl_done s"
proof (induction rule: pipe_step.induct)
  case (by_producer s s')
  from by_producer(1) show ?case by (induction rule: producer_step.induct) simp_all
next
  case (by_router s s')
  from by_router(1) show ?case by (induction rule: router_step.induct) simp_all
next
  case (by_worker i s s')
  from by_worker(1) show ?case by (induction rule: worker_step.induct) simp_all
next
  case (by_monitor s s')
  from by_monitor(1) show ?case by (induction rule: monitor_step.induct) simp_all
next
  case (by_completion s s')
  from by_completion(1) show ?case by (induction rule: completion_step.induct) simp_all
qed simp

text \<open>The steps without cancellation make progress.\<close>

definition own_step :: "pipe_params \<Rightarrow> pipeline \<Rightarrow> pipeline \<Rightarrow> bool" where
  "own_step P s s' \<longleftrightarrow> (\<exists>a. a \<noteq> Context \<and> pipe_step P a s s')"

definition scanning :: "pipe_params \<Rightarrow> scan_job list \<Rightarrow> error option \<Rightarrow> pipeline \<Rightarrow> bool" where
  "scanning P jobs err s \<longleftrightarrow> reachable P jobs err s \<and> 0 < pp_numWorkers P \<and> \<not> pp_early P"

interpretation pipe_run: measured_steps "\<lambda>s s'. \<exists>a. pipe_step P a s s'" pipe_measure
  by unfold_locales (auto intro: pipe_decreases)

interpretation own_run: progressing_steps "own_step P" pipe_measure "scanning P jobs err" finished
proof unfold_locales
  fix s s'
  show "own_step P s s' \<Longrightarrow> pipe_measure s' < pipe_measure s"
    by (auto simp: own_step_def intro: pipe_decreases)
  show "scanning P jobs err s \<Longrightarrow> own_step P s s' \<Longrightarrow> scanning P jobs err s'"
    by (auto simp: own_step_def scanning_def intro: reach_step)
  show "scanning P jobs err s \<Longrightarrow> \<not> finished s \<Longrightarrow> \<exists>t. own_step P s t"
    using pipe_progress [OF pipe_inv_reachable] unfolding scanning_def own_step_def can_move_def by blast
qed

lemma own_steps_done: "(own_step P)\<^sup>*\<^sup>* s s' \<Longrightarrow> pl_done s' = pl_done s"
  by (induction rule: rtranclp_induct) (auto simp: own_step_def dest: keeps_done)

lemma runs_to_end:
  assumes "reachable P jobs err s" "0 < pp_numWorkers P" "\<not> pp_early P"
  shows "\<exists>s'. reachable P jobs err s' \<and> finished s' \<and> pl_done s' = pl_done s"
proof -
  have "scanning P jobs err s" using assms by (simp add: scanning_def)
  moreover from own_run.some_run_ends [OF this] obtain s' where
    "(own_step P)\<^sup>*\<^sup>* s s'" "finished s'" by blast
  ultimately show ?thesis
    using own_run.inv_steps own_steps_done unfolding scanning_def by blast
qed

section \<open>The properties of a scan\<close>

text \<open>C8: in every state a scan can reach, in whatever order its goroutines run and whenever the context is
  cancelled, nothing has been sent on a closed channel and no channel has been closed twice (either would
  crash the program); every job is in exactly one place - not yet sent, in a channel, in the hands of the
  router or a worker, finished or given up; the results are those of the finished jobs, one each; and
  the channel of the results is closed only when every worker has ended.\<close>
theorem Run_safe:
  assumes "reachable P jobs err s"
  shows "\<not> pl_panic s \<and> all_jobs s = mset jobs
    \<and> pl_results s = List.map_filter (found P) (pl_scanned s)
    \<and> (\<not> pl_resultsClosed s \<or> list_all (\<lambda>w. wk_pc w = W_end) (pl_workers s))"
proof -
  have inv: "control_inv s" "all_jobs s = mset jobs" "results_inv P s"
    using pipe_inv_reachable [OF assms] by (simp_all add: pipe_inv_def)
  from inv(1) have "\<not> pl_resultsClosed s \<or> list_all (\<lambda>w. wk_pc w = W_end) (pl_workers s)"
    by (cases "pl_monitor s") (auto simp: control_inv_def)
  with inv show ?thesis by (simp add: control_inv_def results_inv_def)
qed

text \<open>C9: a scan ends. A run has at most as many actions as the measure of its first state, whatever their
  order and whenever the context is cancelled; goroutines stop acting only when all of them have
  ended, without waiting for a cancellation, so there is no deadlock; and from every state some
  order of actions gets there. The limiter is taken to fail only when the context is done (rate and
  burst are at least one and the context has no deadline), and there is at least one worker, as the
  command line is checked for.\<close>
theorem Run_ends:
  assumes "reachable P jobs err s" "0 < pp_numWorkers P" "\<not> pp_early P"
  shows "(\<forall>n s'. ((\<lambda>t t'. \<exists>a. pipe_step P a t t') ^^ n) s s' \<longrightarrow> n \<le> pipe_measure s)
    \<and> ((\<forall>a s'. a \<noteq> Context \<longrightarrow> \<not> pipe_step P a s s') \<longrightarrow> finished s)
    \<and> (\<exists>s'. (own_step P)\<^sup>*\<^sup>* s s' \<and> finished s')"
proof (intro conjI allI impI)
  have s: "scanning P jobs err s" using assms by (simp add: scanning_def)
  then show "\<exists>s'. (own_step P)\<^sup>*\<^sup>* s s' \<and> finished s'" by (rule own_run.some_run_ends)
  show "finished s" if "\<forall>a s'. a \<noteq> Context \<longrightarrow> \<not> pipe_step P a s s'"
    using own_run.progress [OF s] that by (auto simp: own_step_def)
  show "n \<le> pipe_measure s" if "((\<lambda>t t'. \<exists>a. pipe_step P a t t') ^^ n) s s'" for n s'
    using pipe_run.steps_bounded [OF that] by simp
qed

lemma map_filter_perm: "mset xs = mset ys \<Longrightarrow> mset (List.map_filter f xs) = mset (List.map_filter f ys)"
  by (simp add: map_filter_def)

lemma completed_scan:
  assumes "reachable P jobs err s" "0 < pp_numWorkers P" "\<not> pp_early P" "pl_completion s = C_end c"
    and "Successful c"
  shows "mset (pl_scanned s) = mset jobs \<and> pl_dropped s = [] \<and> err = None
    \<and> mset (pl_results s) = mset (List.map_filter (found P) jobs)"
proof -
  have clean: "clean err s" using clean_reachable [OF assms(1-4)] assms(5) by simp
  have inv: "all_jobs s = mset jobs" "results_inv P s"
    using pipe_inv_reachable [OF assms(1)] by (simp_all add: pipe_inv_def)
  have "in_hand s = {#}"
    using clean by (auto simp: clean_def in_hand_def list_all_iff)
  with clean inv(1) have scanned: "mset (pl_scanned s) = mset jobs"
    by (simp add: clean_def all_jobs_def)
  have "pl_results s = List.map_filter (found P) (pl_scanned s)" using inv(2) by (simp add: results_inv_def)
  then have "mset (pl_results s) = mset (List.map_filter (found P) jobs)"
    using map_filter_perm [OF scanned] by simp
  with clean scanned show ?thesis by (simp add: clean_def)
qed

text \<open>C7: the completion tells the truth. A scan reported as completed has finished every job the producer was
  to send, each once, has given up none, and the producer had no error; and a scan that ends without being
  cancelled, whose producer had no error and whose UDP ports all have payloads, is reported as completed.\<close>
theorem Run_completion:
  assumes "reachable P jobs err s" "0 < pp_numWorkers P" "\<not> pp_early P" "pl_completion s = C_end c"
  shows "(Successful c \<longrightarrow> mset (pl_scanned s) = mset jobs \<and> pl_dropped s = [] \<and> err = None
        \<and> mset (pl_results s) = mset (List.map_filter (found P) jobs))
    \<and> (\<not> pl_done s \<and> err = None \<and> supported P jobs \<longrightarrow> Successful c)"
  using completed_scan [OF assms] quiet_reachable [OF assms(1,3)] assms(4)
  by (auto simp: quiet_inv_def)

section \<open>A sample scan\<close>

definition sample_params :: pipe_params where
  "sample_params =
     \<lparr>pp_numWorkers = 1, pp_ctxErr = Sentinel ContextCanceled, pp_waitErr = Sentinel ContextCanceled,
      pp_early = False, pp_tcp = (\<lambda>j. Some (zero_scan_result\<lparr>sr_Port := job_Port j\<rparr>)),
      pp_udp = (\<lambda>j. Inr None)\<rparr>"

lemma sample_params_simps [simp]:
  "0 < pp_numWorkers sample_params" "\<not> pp_early sample_params"
  "supported sample_params jobs"
  by (auto simp: sample_params_def supported_def list_all_iff)

lemma sample_end:
  "\<exists>s. reachable sample_params [sample_job 22] None s \<and> finished s \<and> \<not> pl_done s"
  using runs_to_end [OF reach_start, of sample_params "[sample_job 22]" None]
  by (auto simp: Run_start_def)

lemma Run_safe_witness:
  "\<exists>s. reachable sample_params [sample_job 22] None s \<and> finished s \<and> \<not> pl_panic s
     \<and> all_jobs s = {#sample_job 22#}"
proof -
  obtain s where s: "reachable sample_params [sample_job 22] None s" "finished s"
    using sample_end by blast
  from Run_safe [OF s(1)] s show ?thesis by auto
qed

lemma Run_ends_witness:
  "\<exists>s. (own_step sample_params)\<^sup>*\<^sup>* (Run_start sample_params [sample_job 22] None) s \<and> finished s"
  using Run_ends [OF reach_start [of sample_params "[sample_job 22]" None]] by simp

lemma Run_completion_witness:
  "\<exists>s c. reachable sample_params [sample_job 22] None s \<and> pl_completion s = C_end c \<and> Successful c
     \<and> mset (pl_scanned s) = {#sample_job 22#}"
proof -
  obtain s where s: "reachable sample_params [sample_job 22] None s" "finished s" "\<not> pl_done s"
    using sample_end by blast
  then obtain c where c: "pl_completion s = C_end c" by (auto simp: finished_def decided_def)
  from Run_completion [OF s(1) sample_params_simps(1,2) c] s c show ?thesis by auto
qed
end
