(* ===== verification/Scanning.thy ===== *)
theory Scanning
  imports Dispatcher
begin

text \<open>
  The pipeline of \<^const>\<open>pipe_step\<close> with the workers of \<^const>\<open>Worker\<close> and \<^const>\<open>UDPWorker\<close> in it. A network
  says what a dial of an address finds; the pipeline then reports one service for every address that
  answers, whatever the order of its goroutines. The steps of a worker goroutine, left to themselves, are the
  loop of the function it runs.
\<close>

section \<open>A network\<close>

text \<open>What the workers meet: the first turn of an environment stands for every turn, so that an address answers
  alike whenever it is dialled. (A dial after the context is cancelled fails in the code and not here; what
  is said about results is said of completed scans, and a cancelled one is not completed.)\<close>

record network =
  nw_uni :: "nat \<Rightarrow> nat"
  nw_tls :: tls_env
  nw_tcp :: worker_env
  nw_udp :: worker_env

definition tcp_outcome :: "network \<Rightarrow> scan_job \<Rightarrow> scan_result option" where
  "tcp_outcome nw j = map_option fst (tcp_scan (nw_uni nw) (nw_tls nw) (nw_tcp nw) 0 j)"

definition udp_outcome :: "network \<Rightarrow> scan_job \<Rightarrow> error + scan_result option" where
  "udp_outcome nw j =
     (case udp_request (we_nanos (nw_udp nw) 0) (job_Port j) of
        Inl err \<Rightarrow> Inl err
      | Inr req \<Rightarrow> Inr (udp_scan (nw_udp nw) 0 j))"

definition with_network :: "network \<Rightarrow> pipe_params \<Rightarrow> pipe_params" where
  "with_network nw P = P\<lparr>pp_tcp := tcp_outcome nw, pp_udp := udp_outcome nw\<rparr>"

lemma with_network_simps [simp]:
  "pp_numWorkers (with_network nw P) = pp_numWorkers P" "pp_early (with_network nw P) = pp_early P"
  "pp_tcp (with_network nw P) = tcp_outcome nw" "pp_udp (with_network nw P) = udp_outcome nw"
  by (simp_all add: with_network_def)

section \<open>What the results say\<close>

text \<open>A TCP port listens when it accepts a connection, a UDP port when it answers its probe with what the check of
  the protocol takes.\<close>

definition listening :: "network \<Rightarrow> scan_job \<Rightarrow> bool" where
  "listening nw j =
     (let addr = joinHostPort (job_TargetIP j) (job_Port j) in
      if is_udp j then
        (case udp_request (we_nanos (nw_udp nw) 0) (job_Port j) of
           Inl err \<Rightarrow> False
         | Inr req \<Rightarrow>
             (case we_dial (nw_udp nw) 0 addr of
                Inl err \<Rightarrow> False
              | Inr c \<Rightarrow>
                  (case fst (udp_exchange req c) of
                     None \<Rightarrow> False
                   | Some buf \<Rightarrow> udp_isOpen (job_Port j) req (bytes_of buf))))
      else (case we_dial (nw_tcp nw) 0 addr of Inl err \<Rightarrow> False | Inr c \<Rightarrow> True))"

definition job_key :: "scan_job \<Rightarrow> string \<times> string \<times> int \<times> string \<times> string" where
  "job_key j =
     (job_TargetName j, job_TargetIP j, job_Port j, if is_udp j then ''udp'' else ''tcp'', ''open'')"

definition result_key :: "scan_result \<Rightarrow> string \<times> string \<times> int \<times> string \<times> string" where
  "result_key r = (sr_TargetName r, sr_TargetIP r, sr_Port r, sr_Protocol r, sr_State r)"

lemma about_job_key: "about_job (if is_udp j then ''udp'' else ''tcp'') j r \<Longrightarrow> result_key r = job_key j"
  by (simp add: about_job_def result_key_def job_key_def)

lemma found_key:
  "map_option result_key (found (with_network nw P) j) = (if listening nw j then Some (job_key j) else None)"
proof (cases "is_udp j")
  case True
  have "result_key (udp_result j buf) = job_key j" for buf
    using True by (intro about_job_key) (simp add: about_job_def udp_result_def)
  with True show ?thesis
    by (auto simp: found_def outcome_def udp_outcome_def udp_scan_def listening_def Let_def
        split: sum.split option.split)
next
  case False
  have "result_key (fst (scan_conn (nw_uni nw) (nw_tls nw) j c)) = job_key j" for c
    using False scan_conn_about [of j "nw_uni nw" "nw_tls nw" c] by (intro about_job_key) simp
  with False show ?thesis
    by (auto simp: found_def outcome_def tcp_outcome_def tcp_scan_def listening_def Let_def
        split: sum.split) (metis fst_conv prod.exhaust)
qed

lemma map_filter_key:
  assumes "\<And>x. map_option k (f x) = (if P x then Some (g x) else None)"
  shows "map k (List.map_filter f xs) = map g (filter P xs)"
proof (induction xs)
  case (Cons x xs)
  with assms [of x] show ?case by (cases "f x") (auto simp: map_filter_simps split: if_splits)
qed (simp add: map_filter_simps)

section \<open>Finished jobs were supported\<close>

definition scanned_ok :: "pipe_params \<Rightarrow> pipeline \<Rightarrow> bool" where
  "scanned_ok P s \<longleftrightarrow> supported P (pl_scanned s)"

lemma supported_snoc:
  "supported P (js @ [j]) \<longleftrightarrow> supported P js \<and> (is_udp j \<longrightarrow> (\<exists>r. pp_udp P j = Inr r))"
  by (auto simp: supported_def)

lemma scanned_ok_worker:
  assumes "worker_step P i s s'" "results_inv P s" "scanned_ok P s"
  shows "scanned_ok P s'"
  using assms
proof (induction rule: worker_step.induct)
  case (work_nothing s w j)
  then have "worker_ok P w" by (auto simp: results_inv_def list_all_length)
  with work_nothing show ?case
    by (auto simp: scanned_ok_def supported_snoc worker_ok_def set_pc_def outcome_def split: if_splits)
next
  case (work_push s j r)
  then have "worker_ok P (pl_workers s ! i)" by (auto simp: results_inv_def list_all_length)
  with work_push show ?case
    by (auto simp: scanned_ok_def supported_snoc worker_ok_def set_pc_def found_def outcome_def
        split: if_splits sum.splits)
qed (auto simp: scanned_ok_def set_pc_def take_job_def note_err_def Let_def)

lemma scanned_ok_step:
  assumes "pipe_step P a s s'" "results_inv P s" "scanned_ok P s"
  shows "scanned_ok P s'"
  using assms
proof (induction rule: pipe_step.induct)
  case (by_worker i s s')
  then show ?case by (rule scanned_ok_worker)
next
  case (by_producer s s')
  then show ?case by (induction rule: producer_step.induct) (auto simp: scanned_ok_def)
next
  case (by_router s s')
  then show ?case by (induction rule: router_step.induct) (auto simp: scanned_ok_def)
next
  case (by_monitor s s')
  then show ?case by (induction rule: monitor_step.induct) (auto simp: scanned_ok_def)
next
  case (by_completion s s')
  then show ?case by (induction rule: completion_step.induct) (auto simp: scanned_ok_def)
qed (simp add: scanned_ok_def)

lemma scanned_ok_reachable: "reachable P jobs err s \<Longrightarrow> scanned_ok P s"
proof (induction rule: reachable.induct)
  case reach_start
  show ?case by (simp add: scanned_ok_def supported_def Run_start_def)
next
  case (reach_step s a s')
  then show ?case using scanned_ok_step pipe_inv_reachable by (auto simp: pipe_inv_def)
qed

lemma supported_mset: "mset js = mset ks \<Longrightarrow> supported P js \<longleftrightarrow> supported P ks"
  using mset_eq_setD [of js ks] by (simp add: supported_def list_all_iff)

lemma udp_outcome_supported: "(\<exists>r. udp_outcome nw j = Inr r) \<longleftrightarrow> job_Port j \<in> {53, 123, 161}"
proof (cases "unsupported j")
  case True
  then show ?thesis
    by (simp add: udp_outcome_def udp_request_unsupported) (simp add: unsupported_def dom_UDPPayloads)
next
  case False
  then obtain req where "udp_request (we_nanos (nw_udp nw) 0) (job_Port j) = Inr req"
    using udp_request_supported by blast
  with False show ?thesis by (simp add: udp_outcome_def unsupported_def dom_UDPPayloads)
qed

lemma supported_ports:
  "supported (with_network nw P) jobs \<longleftrightarrow> (\<forall>j\<in>set jobs. is_udp j \<longrightarrow> job_Port j \<in> {53, 123, 161})"
  by (simp add: supported_def list_all_iff udp_outcome_supported)

lemma network_results:
  assumes "reachable (with_network nw P) jobs err s" "0 < pp_numWorkers P" "\<not> pp_early P"
    and "pl_completion s = C_end c" "Successful c"
  shows "mset (map result_key (pl_results s)) = mset (map job_key (filter (listening nw) jobs))
    \<and> (\<forall>j\<in>set jobs. is_udp j \<longrightarrow> job_Port j \<in> {53, 123, 161})"
proof -
  have fin: "mset (pl_scanned s) = mset jobs"
    "mset (pl_results s) = mset (List.map_filter (found (with_network nw P)) jobs)"
    using completed_scan [OF assms(1) _ _ assms(4,5)] assms(2,3) by simp_all
  have "mset (map result_key (pl_results s))
      = mset (map result_key (List.map_filter (found (with_network nw P)) jobs))"
    using fin(2) by simp
  moreover have "supported (with_network nw P) jobs"
    using scanned_ok_reachable [OF assms(1)] supported_mset [OF fin(1)] by (simp add: scanned_ok_def)
  ultimately show ?thesis
    using map_filter_key [of result_key "found (with_network nw P)" "listening nw" job_key jobs, OF found_key] by (simp add: supported_ports)
qed

section \<open>A worker goroutine is its function\<close>

text \<open>One job, from the receive to the next.\<close>

definition turn_err :: "(error + scan_result option) \<Rightarrow> error option \<Rightarrow> error option" where
  "turn_err out err = (case out of Inl e \<Rightarrow> (if err = None then Some e else err) | Inr _ \<Rightarrow> err)"

definition turn_results :: "(error + scan_result option) \<Rightarrow> scan_result list" where
  "turn_results out = (case out of Inr (Some r) \<Rightarrow> [r] | _ \<Rightarrow> [])"

definition at_receive :: "nat \<Rightarrow> bool \<Rightarrow> error option \<Rightarrow> pipeline \<Rightarrow> bool" where
  "at_receive i udp err s \<longleftrightarrow> i < length (pl_workers s)
     \<and> pl_workers s ! i = \<lparr>wk_udp = udp, wk_pc = W_recv, wk_err = err\<rparr>"

lemma worker_turn:
  assumes "at_receive i udp err s" "ch_buf (jobs_chan udp s) = j # js"
  shows "\<exists>s'. (worker_step P i)\<^sup>*\<^sup>* s s' \<and> at_receive i udp (turn_err (outcome P udp j) err) s'
    \<and> jobs_chan udp s' = ch_tail (jobs_chan udp s)
    \<and> pl_results s' = pl_results s @ turn_results (outcome P udp j)"
proof -
  let ?s1 = "set_pc i (W_wait j) (take_job udp s)"
  let ?s2 = "set_pc i (W_scan j) ?s1"
  have w: "i < length (pl_workers s)" "pl_workers s ! i = \<lparr>wk_udp = udp, wk_pc = W_recv, wk_err = err\<rparr>"
    using assms(1) by (simp_all add: at_receive_def)
  have t: "pl_workers (take_job udp s) = pl_workers s" "pl_results (take_job udp s) = pl_results s"
    "jobs_chan udp (take_job udp s) = ch_tail (jobs_chan udp s)"
    by (simp_all add: take_job_def jobs_chan_def)
  have "worker_step P i s ?s1" using work_recv [OF w(1) refl, of j js P] w assms(2) by simp
  moreover have "worker_step P i ?s1 ?s2" by (rule work_go) (use w t in \<open>simp_all add: set_pc_def\<close>)
  ultimately have go: "(worker_step P i)\<^sup>*\<^sup>* s ?s2" by simp
  have s2: "i < length (pl_workers ?s2)"
    "pl_workers ?s2 ! i = \<lparr>wk_udp = udp, wk_pc = W_scan j, wk_err = err\<rparr>"
    "jobs_chan udp ?s2 = ch_tail (jobs_chan udp s)" "pl_results ?s2 = pl_results s"
    using w t by (simp_all add: set_pc_def jobs_chan_def)
  note free = at_receive_def turn_err_def turn_results_def set_pc_def note_err_def jobs_chan_def Let_def
  consider (err) e where "outcome P udp j = Inl e" | (none) "outcome P udp j = Inr None"
    | (some) r where "outcome P udp j = Inr (Some r)"
    by (metis sum.exhaust option.exhaust)
  then show ?thesis
  proof cases
    case err
    let ?s = "(set_pc i W_recv (note_err i e ?s2))\<lparr>pl_dropped := pl_dropped ?s2 @ [j]\<rparr>"
    have "worker_step P i ?s2 ?s" using work_unsupported [OF s2(1) refl, of j P e] s2(2) err by simp
    with go have "(worker_step P i)\<^sup>*\<^sup>* s ?s" by simp
    moreover have "at_receive i udp (turn_err (outcome P udp j) err) ?s" using s2(1,2) err by (simp add: free)
    moreover have "jobs_chan udp ?s = jobs_chan udp ?s2" "pl_results ?s = pl_results ?s2"
      by (simp_all add: free)
    ultimately show ?thesis using s2(3,4) err by (intro exI [of _ ?s]) (simp add: turn_results_def)
  next
    case none
    let ?s = "(set_pc i W_recv ?s2)\<lparr>pl_scanned := pl_scanned ?s2 @ [j]\<rparr>"
    have "worker_step P i ?s2 ?s" using work_nothing [OF s2(1) refl, of j P] s2(2) none by simp
    with go have "(worker_step P i)\<^sup>*\<^sup>* s ?s" by simp
    moreover have "at_receive i udp (turn_err (outcome P udp j) err) ?s" using s2(1,2) none by (simp add: free)
    moreover have "jobs_chan udp ?s = jobs_chan udp ?s2" "pl_results ?s = pl_results ?s2"
      by (simp_all add: free)
    ultimately show ?thesis using s2(3,4) none by (intro exI [of _ ?s]) (simp add: turn_results_def)
  next
    case some
    let ?s3 = "set_pc i (W_push j r) ?s2"
    let ?s = "(set_pc i W_recv ?s3)\<lparr>pl_scanned := pl_scanned ?s3 @ [j], pl_results := pl_results ?s3 @ [r],
          pl_panic := pl_panic ?s3 \<or> pl_resultsClosed ?s3\<rparr>"
    have "worker_step P i ?s2 ?s3" using work_found [OF s2(1) refl, of j P r] s2(2) some by simp
    moreover have "worker_step P i ?s3 ?s" by (rule work_push) (use s2(1,2) in \<open>simp_all add: set_pc_def\<close>)
    ultimately have "(worker_step P i)\<^sup>*\<^sup>* s ?s" using go by simp
    moreover have "at_receive i udp (turn_err (outcome P udp j) err) ?s" using s2(1,2) some by (simp add: free)
    moreover have "jobs_chan udp ?s = jobs_chan udp ?s2" "pl_results ?s = pl_results ?s2 @ [r]"
      by (simp_all add: free)
    ultimately show ?thesis using s2(3,4) some by (intro exI [of _ ?s]) (simp add: turn_results_def)
  qed
qed

text \<open>All the jobs of a closed channel, and the end.\<close>

lemma worker_drain:
  assumes "at_receive i udp err s" "ch_closed (jobs_chan udp s)"
  shows "\<exists>s'. (worker_step P i)\<^sup>*\<^sup>* s s' \<and> ch_buf (jobs_chan udp s') = []
    \<and> pl_results s' = pl_results s @ concat (map (\<lambda>j. turn_results (outcome P udp j)) (ch_buf (jobs_chan udp s)))
    \<and> wk_pc (pl_workers s' ! i) = drained_pc
        \<lparr>wk_udp = udp, wk_pc = W_recv,
         wk_err = fold (\<lambda>j. turn_err (outcome P udp j)) (ch_buf (jobs_chan udp s)) err\<rparr>"
  using assms
proof (induction "ch_buf (jobs_chan udp s)" arbitrary: s err)
  case Nil
  let ?w = "\<lparr>wk_udp = udp, wk_pc = W_recv, wk_err = err\<rparr>"
  have w: "i < length (pl_workers s)" "pl_workers s ! i = ?w"
    using Nil.prems by (simp_all add: at_receive_def)
  have "worker_step P i s (set_pc i (drained_pc ?w) s)"
    using work_drained [OF w(1) refl, of P] w(2) Nil by simp
  moreover have "jobs_chan udp (set_pc i (drained_pc ?w) s) = jobs_chan udp s"
    "pl_results (set_pc i (drained_pc ?w) s) = pl_results s"
    "wk_pc (pl_workers (set_pc i (drained_pc ?w) s) ! i) = drained_pc ?w"
    using w(1) by (simp_all add: set_pc_def jobs_chan_def)
  ultimately show ?case
    using Nil by (intro exI [of _ "set_pc i (drained_pc ?w) s"]) simp
next
  case (Cons j js)
  from worker_turn [OF Cons.prems(1) Cons.hyps(2) [symmetric], of P] obtain t where
    t: "(worker_step P i)\<^sup>*\<^sup>* s t" "at_receive i udp (turn_err (outcome P udp j) err) t"
      "jobs_chan udp t = ch_tail (jobs_chan udp s)"
      "pl_results t = pl_results s @ turn_results (outcome P udp j)" by blast
  have js: "ch_buf (jobs_chan udp s) = j # js" using Cons.hyps(2) by simp
  have "js = ch_buf (jobs_chan udp t)" "ch_closed (jobs_chan udp t)"
    using t(3) js Cons.prems(2) by simp_all
  from Cons.hyps(1) [OF this(1) t(2) this(2)] this(1) obtain s' where
    "(worker_step P i)\<^sup>*\<^sup>* t s'" "ch_buf (jobs_chan udp s') = []"
    "pl_results s' = pl_results t @ concat (map (\<lambda>j. turn_results (outcome P udp j)) js)"
    "wk_pc (pl_workers s' ! i) = drained_pc \<lparr>wk_udp = udp, wk_pc = W_recv,
       wk_err = fold (\<lambda>j. turn_err (outcome P udp j)) js (turn_err (outcome P udp j) err)\<rparr>" by auto
  with t js show ?case by (intro exI [of _ s']) (auto intro: rtranclp_trans)
qed

text \<open>Every turn of an environment like its first.\<close>

definition steady :: "worker_env \<Rightarrow> bool" where
  "steady env \<longleftrightarrow>
     (\<forall>n. runs env n \<and> we_dial env n = we_dial env 0 \<and> we_nanos env n = we_nanos env 0)"

lemma steady_turns: "steady env \<Longrightarrow> turns env n jobs = length jobs"
  by (rule turns_all) (simp add: steady_def)

lemma steady_scan:
  assumes "steady env"
  shows "(\<lambda>(i, j). tcp_scan uni tls env i j) = (\<lambda>(i, j). tcp_scan uni tls env 0 j)"
    "(\<lambda>(i, j). udp_scan env i j) = (\<lambda>(i, j). udp_scan env 0 j)"
proof -
  have same: "we_dial env n = we_dial env 0" "we_nanos env n = we_nanos env 0" for n
    using assms by (auto simp: steady_def)
  have "tcp_scan uni tls env n j = tcp_scan uni tls env 0 j" "udp_scan env n j = udp_scan env 0 j" for n j
    unfolding tcp_scan_def udp_scan_def same [of n] by (rule refl)+
  then show "(\<lambda>(i, j). tcp_scan uni tls env i j) = (\<lambda>(i, j). tcp_scan uni tls env 0 j)"
    "(\<lambda>(i, j). udp_scan env i j) = (\<lambda>(i, j). udp_scan env 0 j)" by (metis (full_types))+
qed

lemma map_filter_enumerate:
  "List.map_filter (\<lambda>(i, j). f j) (enumerate n xs) = List.map_filter f xs"
  by (induction xs arbitrary: n) (simp_all add: map_filter_simps split: option.split)

lemma map_map_filter: "map g (List.map_filter f xs) = List.map_filter (\<lambda>x. map_option g (f x)) xs"
  by (induction xs) (simp_all add: map_filter_simps split: option.split)

lemma concat_turn_results:
  assumes "\<And>j. turn_results (out j) = (case f j of None \<Rightarrow> [] | Some r \<Rightarrow> [r])"
  shows "concat (map (\<lambda>j. turn_results (out j)) js) = List.map_filter f js"
  by (induction js) (simp_all add: map_filter_simps assms split: option.split)

lemma fold_turn_err:
  assumes "\<And>j. turn_err (out j) None = (if bad j then Some e else None)"
  shows "fold (\<lambda>j. turn_err (out j)) js err
    = (if err = None \<and> (\<exists>j\<in>set js. bad j) then Some e else err)"
proof (induction js arbitrary: err)
  case (Cons j js)
  have "turn_err (out j) (Some x) = Some x" for x by (simp add: turn_err_def split: sum.split)
  with assms [of j] Cons [of "turn_err (out j) err"] show ?case by (cases err) simp_all
qed simp

lemma tcp_results:
  "turn_results (outcome (with_network nw P) False j)
     = (case tcp_outcome nw j of None \<Rightarrow> [] | Some r \<Rightarrow> [r])"
  by (simp add: turn_results_def outcome_def split: option.split)

lemma udp_results:
  "turn_results (outcome (with_network nw P) True j)
     = (case udp_scan (nw_udp nw) 0 j of None \<Rightarrow> [] | Some r \<Rightarrow> [r])"
  by (auto simp: turn_results_def outcome_def udp_outcome_def udp_scan_def split: sum.split option.split)

lemma udp_err:
  "turn_err (outcome (with_network nw P) True j) None
     = (if unsupported j then Some (Errorf ''unsupported UDP payload for port'') else None)"
  using udp_request_unsupported [of j] udp_request_supported [of j "we_nanos (nw_udp nw) 0"]
  by (auto simp: turn_err_def outcome_def udp_outcome_def)

lemma Worker_steady:
  assumes "steady env"
  shows "fst (Worker uni tls env n jobs) = List.map_filter (\<lambda>j. map_option fst (tcp_scan uni tls env 0 j)) jobs"
proof -
  obtain rs cs left where run: "Worker uni tls env n jobs = (rs, cs, left)" by (metis prod.exhaust)
  have "rs = map fst (List.map_filter (\<lambda>(i, j). tcp_scan uni tls env 0 j) (enumerate n jobs))"
    using Worker_reference [OF run] by (simp add: steady_turns [OF assms] steady_scan(1) [OF assms])
  then show ?thesis
    using run by (simp only: map_filter_enumerate map_map_filter fst_conv)
qed

text \<open>A goroutine whose channel has been closed with jobs in it, alone with them, does what the function
  does on these jobs: the same results, and at the end the same error.\<close>
lemma Worker_goroutine:
  assumes "steady (nw_tcp nw)" "at_receive i False err s" "ch_closed (pl_tcp s)"
  shows "\<exists>s'. (worker_step (with_network nw P) i)\<^sup>*\<^sup>* s s' \<and> ch_buf (pl_tcp s') = []
    \<and> wk_pc (pl_workers s' ! i) = W_end
    \<and> pl_results s' = pl_results s
        @ fst (Worker (nw_uni nw) (nw_tls nw) (nw_tcp nw) 0 (ch_buf (pl_tcp s)))"
  using worker_drain [OF assms(2), of "with_network nw P"] assms(3)
  by (simp add: jobs_chan_def drained_pc_def Worker_steady [OF assms(1)]
      concat_turn_results [OF tcp_results] tcp_outcome_def conj_commute)

lemma UDPWorker_goroutine:
  assumes "steady (nw_udp nw)" "dials_open (nw_udp nw)" "at_receive i True None s" "ch_closed (pl_udp s)"
    and run: "UDPWorker (nw_udp nw) 0 None (ch_buf (pl_udp s)) = (e, rs, cs, left)"
  shows "\<exists>s'. (worker_step (with_network nw P) i)\<^sup>*\<^sup>* s s' \<and> ch_buf (pl_udp s') = []
    \<and> wk_pc (pl_workers s' ! i) = (case e of None \<Rightarrow> W_end | Some err \<Rightarrow> W_report err)
    \<and> pl_results s' = pl_results s @ rs"
proof -
  let ?js = "ch_buf (pl_udp s)"
  have "\<not> we_done (nw_udp nw) (0 + length ?js)" using assms(1) by (simp add: steady_def runs_def)
  with UDPWorker_reference [OF assms(2) run]
  have "rs = List.map_filter (udp_scan (nw_udp nw) 0) ?js"
    "e = (if \<exists>job\<in>set ?js. unsupported job then Some (Errorf ''unsupported UDP payload for port'') else None)"
    by (simp_all add: steady_turns [OF assms(1)] steady_scan(2) [OF assms(1)] map_filter_enumerate)
  moreover obtain s' where "(worker_step (with_network nw P) i)\<^sup>*\<^sup>* s s'" "ch_buf (pl_udp s') = []"
    "pl_results s' = pl_results s @ List.map_filter (udp_scan (nw_udp nw) 0) ?js"
    "wk_pc (pl_workers s' ! i) = drained_pc \<lparr>wk_udp = True, wk_pc = W_recv,
       wk_err = if \<exists>job\<in>set ?js. unsupported job
                then Some (Errorf ''unsupported UDP payload for port'') else None\<rparr>"
    using worker_drain [OF assms(3), of "with_network nw P"] assms(4)
    by (auto simp: jobs_chan_def concat_turn_results [OF udp_results] fold_turn_err [OF udp_err])
  ultimately show ?thesis by (intro exI [of _ s']) (simp add: drained_pc_def)
qed

section \<open>The services a scan reports\<close>

text \<open>C10: a scan reports what is there. When it is reported as completed, its results are one for every
  job whose port listens - a TCP port that accepts the connection, whatever the probes made of it, a UDP
  port whose answer passed the check of its protocol - with the job's target, address, port and protocol,
  and nothing else; and no UDP port without a payload was among the jobs. A scan that ends without being
  cancelled, whose targets all resolved and whose UDP ports are 53, 123 or 161, does report all of them.\<close>
theorem Run_reports:
  assumes "reachable (with_network nw P) jobs err s" "0 < pp_numWorkers P" "\<not> pp_early P"
    and "pl_completion s = C_end c"
  defines "complete \<equiv> mset (map result_key (pl_results s)) = mset (map job_key (filter (listening nw) jobs))"
    and "ports_ok \<equiv> \<forall>j\<in>set jobs. is_udp j \<longrightarrow> job_Port j \<in> {53, 123, 161}"
  shows "(Successful c \<longrightarrow> complete \<and> ports_ok \<and> err = None)
    \<and> (\<not> pl_done s \<and> err = None \<and> ports_ok \<longrightarrow> Successful c \<and> complete)"
proof -
  have early: "\<not> pp_early (with_network nw P)" "0 < pp_numWorkers (with_network nw P)"
    using assms(2,3) by simp_all
  have succ: "complete \<and> ports_ok \<and> err = None" if "Successful c"
    using network_results [OF assms(1-4) that] completed_scan [OF assms(1) early(2,1) assms(4) that]
    by (simp add: complete_def ports_ok_def)
  moreover have "Successful c" if "\<not> pl_done s \<and> err = None \<and> ports_ok"
  proof -
    have "supported (with_network nw P) jobs" using that by (simp add: supported_ports ports_ok_def)
    from quiet_reachable [OF assms(1) early(1) this] that assms(4) show ?thesis
      by (auto simp: quiet_inv_def)
  qed
  ultimately show ?thesis by blast
qed

definition sample_network :: network where
  "sample_network = \<lparr>nw_uni = id, nw_tls = sample_tls, nw_tcp = sample_worker, nw_udp = sample_worker\<rparr>"

lemma mset_one: "mset xs = mset (map f [x]) \<Longrightarrow> xs = [f x]"
  by simp

lemma sample_key: "job_key (sample_job 22) = (''h'', ''192.0.2.1'', 22, ''tcp'', ''open'')"
  by (simp add: job_key_def sample_job_def is_udp_def)

lemma Run_reports_witness:
  "\<exists>s. reachable (with_network sample_network sample_params) [sample_job 22] None s
     \<and> map result_key (pl_results s) = [(''h'', ''192.0.2.1'', 22, ''tcp'', ''open'')]"
proof -
  let ?P = "with_network sample_network sample_params"
  obtain s where s: "reachable ?P [sample_job 22] None s" "finished s" "\<not> pl_done s"
    using runs_to_end [OF reach_start, of ?P "[sample_job 22]" None] by (auto simp: Run_start_def)
  then obtain c where c: "pl_completion s = C_end c" by (auto simp: finished_def decided_def)
  have "\<not> is_udp (sample_job 22)" and lis: "filter (listening sample_network) [sample_job 22] = [sample_job 22]"
    by (simp_all add: is_udp_def sample_job_def listening_def sample_network_def sample_worker_def)
  then have "\<forall>j\<in>set [sample_job 22]. is_udp j \<longrightarrow> job_Port j \<in> {53, 123, 161}" by simp
  with s(3) have "mset (map result_key (pl_results s))
      = mset (map job_key (filter (listening sample_network) [sample_job 22]))"
    by (intro conjunct2 [OF mp [OF conjunct2 [OF Run_reports [OF s(1) sample_params_simps(1,2) c]]]] conjI)
       simp_all
  then have "map result_key (pl_results s) = [job_key (sample_job 22)]" unfolding lis by (rule mset_one)
  with s(1) show ?thesis unfolding sample_key by (intro exI conjI)
qed

end
