(* ===== verification/LegacyState.thy ===== *)
theory LegacyState
  imports Models GoJson Bolt
begin

text \<open>
  \<^verbatim>\<open>internal/scanner/state.go\<close>: the state manager that keeps one hash per port in the bucket
  \<^verbatim>\<open>PortStates\<close> and prints the results whose hash changed. Results are collected in a buffer that is
  written in one transaction when it holds 1000 of them, when the ticker fires and when the channel is
  closed. The channel and the ticker are a list of events, in the order the \<^verbatim>\<open>select\<close> takes them.
  \<^verbatim>\<open>xxhash\<close> is an argument. (The runtime of \<^verbatim>\<open>main.go\<close> no longer starts it.)
\<close>

section \<open>One result\<close>

definition portStates :: string where
  "portStates = ''PortStates''"

definition fmt_strings :: "string list \<Rightarrow> string" where
  "fmt_strings ss = ''['' @ strings_Join ss '' '' @ '']''"

definition legacy_payload :: "scan_result \<Rightarrow> string" where
  "legacy_payload r =
     sr_State r @ ''|'' @ sr_Banner r @ ''|'' @ sr_CertSubject r @ ''|'' @ sr_CertIssuer r
     @ ''|'' @ fmt_strings (sr_SANs r)"

definition uint64_le :: "64 word \<Rightarrow> string" where
  "uint64_le w = map (\<lambda>i. char_of (unat w div 256 ^ i mod 256)) [0..<8]"

definition target_key :: "scan_result \<Rightarrow> string" where
  "target_key r = sr_TargetIP r @ '':'' @ strconv_Itoa (sr_Port r) @ ''/'' @ sr_Protocol r"

definition legacy_hash :: "(string \<Rightarrow> 64 word) \<Rightarrow> scan_result \<Rightarrow> string" where
  "legacy_hash sum64 r = uint64_le (sum64 (legacy_payload r))"

text \<open>The previous state of a delta; \<^const>\<open>None\<close> when there is none to report.\<close>

definition port_delta :: "string option \<Rightarrow> string \<Rightarrow> string option" where
  "port_delta oldHash newHash =
     (case oldHash of
        None \<Rightarrow> Some ''UNKNOWN''
      | Some old \<Rightarrow> if old \<noteq> newHash then Some ''MUTATED'' else None)"

text \<open>\<^verbatim>\<open>deltaPayload\<close> as JSON: the fields of the embedded result, without the empty optional ones.\<close>

definition opt_field :: "string \<Rightarrow> string \<Rightarrow> (string \<times> json) list" where
  "opt_field name s = (if s = [] then [] else [(name, JStr s)])"

definition delta_json :: "scan_result \<times> string \<Rightarrow> json" where
  "delta_json d =
     (case d of (r, prevState) \<Rightarrow>
       JObj ([(''target'', JStr (sr_TargetName r)), (''ip'', JStr (sr_TargetIP r)),
              (''port'', json_int (sr_Port r)), (''protocol'', JStr (sr_Protocol r)),
              (''state'', JStr (sr_State r))]
         @ opt_field ''banner'' (sr_Banner r) @ opt_field ''os_hint'' (sr_OSHint r)
         @ opt_field ''tls_subject'' (sr_CertSubject r) @ opt_field ''tls_issuer'' (sr_CertIssuer r)
         @ (if sr_SANs r = [] then [] else [(''tls_sans'', json_strings (Some (sr_SANs r)))])
         @ opt_field ''tls_version'' (sr_TLSVersion r) @ opt_field ''cipher_suite'' (sr_CipherSuite r)
         @ [(''cert_verified'', JBool (sr_CertVerified r))]
         @ opt_field ''cert_not_before'' (sr_CertNotBefore r)
         @ opt_field ''cert_not_after'' (sr_CertNotAfter r)
         @ [(''previous_state'', JStr prevState), (''event'', JStr ''port_state_delta'')]))"

definition delta_line :: "scan_result \<times> string \<Rightarrow> string" where
  "delta_line d = json_text (delta_json d) @ [CHR 0x0A]"

section \<open>A flush\<close>

fun apply_batch ::
  "('db, 'tx) bolt \<Rightarrow> (string \<Rightarrow> 64 word) \<Rightarrow> scan_result list
     \<Rightarrow> ('tx, (scan_result \<times> string) list) txm" where
  "apply_batch B sum64 [] = returnT []"
| "apply_batch B sum64 (r # batch) =
     bindT (readT (bolt_get B [portStates] (target_key r))) (\<lambda>oldHash.
       case port_delta oldHash (legacy_hash sum64 r) of
         None \<Rightarrow> apply_batch B sum64 batch
       | Some prevState \<Rightarrow>
           bindT (execT (bolt_put B [portStates] (target_key r) (legacy_hash sum64 r))) (\<lambda>_.
           bindT (apply_batch B sum64 batch) (\<lambda>emissions. returnT ((r, prevState) # emissions))))"

definition flush_tx ::
  "('db, 'tx) bolt \<Rightarrow> (string \<Rightarrow> 64 word) \<Rightarrow> scan_result list
     \<Rightarrow> ('tx, (scan_result \<times> string) list) txm" where
  "flush_tx B sum64 batch =
     bindT (execT (bolt_create_if B [] portStates)) (\<lambda>_. apply_batch B sum64 batch)"

definition flush ::
  "('db, 'tx) bolt \<Rightarrow> (string \<Rightarrow> 64 word) \<Rightarrow> bool \<Rightarrow> scan_result list \<Rightarrow> 'db
     \<Rightarrow> (error option \<times> string list) \<times> 'db" where
  "flush B sum64 jsonMode batch db =
     (if length batch = 0 then ((None, []), db)
      else (case db_Update B (flush_tx B sum64 batch) db of
              (Inl err, db) \<Rightarrow> ((Some err, []), db)
            | (Inr emissions, db) \<Rightarrow>
                ((None, if jsonMode then map delta_line emissions else []), db)))"

section \<open>The loop\<close>

datatype manager_event = Got scan_result | Tick

record manager =
  mg_openPorts :: int
  mg_buffer :: "scan_result list"
  mg_stateErr :: "error option"
  mg_stdout :: "string list"

definition new_manager :: manager where
  "new_manager = \<lparr>mg_openPorts = 0, mg_buffer = [], mg_stateErr = None, mg_stdout = []\<rparr>"

definition maxBatchSize :: nat where
  "maxBatchSize = 1000"

definition flush_buffer ::
  "('db, 'tx) bolt \<Rightarrow> (string \<Rightarrow> 64 word) \<Rightarrow> bool \<Rightarrow> manager \<times> 'db \<Rightarrow> manager \<times> 'db" where
  "flush_buffer B sum64 jsonMode st =
     (case st of (m, db) \<Rightarrow>
       if mg_stateErr m = None then
         (case flush B sum64 jsonMode (mg_buffer m) db of
            ((err, out), db) \<Rightarrow> (m\<lparr>mg_stateErr := err, mg_stdout := mg_stdout m @ out\<rparr>, db))
       else (m, db))"

definition drop_buffer :: "manager \<times> 'db \<Rightarrow> manager \<times> 'db" where
  "drop_buffer st = (case st of (m, db) \<Rightarrow> (m\<lparr>mg_buffer := []\<rparr>, db))"

fun manager_step ::
  "('db, 'tx) bolt \<Rightarrow> (string \<Rightarrow> 64 word) \<Rightarrow> bool \<Rightarrow> manager_event \<Rightarrow> manager \<times> 'db
     \<Rightarrow> manager \<times> 'db" where
  "manager_step B sum64 jsonMode (Got result) (m, db) =
     (let m = m\<lparr>mg_openPorts := (if sr_State result = ''OPEN'' then mg_openPorts m + 1 else mg_openPorts m),
                mg_buffer := mg_buffer m @ [result]\<rparr>
      in if length (mg_buffer m) \<ge> maxBatchSize
         then drop_buffer (flush_buffer B sum64 jsonMode (m, db))
         else (m, db))"
| "manager_step B sum64 jsonMode Tick (m, db) = drop_buffer (flush_buffer B sum64 jsonMode (m, db))"

fun manager_loop ::
  "('db, 'tx) bolt \<Rightarrow> (string \<Rightarrow> 64 word) \<Rightarrow> bool \<Rightarrow> manager_event list \<Rightarrow> manager \<times> 'db
     \<Rightarrow> manager \<times> 'db" where
  "manager_loop B sum64 jsonMode [] st = flush_buffer B sum64 jsonMode st"
| "manager_loop B sum64 jsonMode (e # es) st =
     manager_loop B sum64 jsonMode es (manager_step B sum64 jsonMode e st)"

text \<open>The number of open ports, the error, what was printed, and the database.\<close>

definition StateManager ::
  "('db, 'tx) bolt \<Rightarrow> (string \<Rightarrow> 64 word) \<Rightarrow> bool \<Rightarrow> manager_event list \<Rightarrow> 'db
     \<Rightarrow> (int \<times> error option) \<times> string list \<times> 'db" where
  "StateManager B sum64 jsonMode events db =
     (case manager_loop B sum64 jsonMode events (new_manager, db) of
        (m, db) \<Rightarrow> ((mg_openPorts m, mg_stateErr m), mg_stdout m, db))"

section \<open>The reference: one result at a time\<close>

text \<open>The hash of every port, and what one result does to it.\<close>

type_synonym port_hashes = "string \<rightharpoonup> string"

definition hashes_of :: "store \<Rightarrow> port_hashes" where
  "hashes_of s = (\<lambda>k. bval (s [portStates, k]))"

fun track ::
  "(string \<Rightarrow> 64 word) \<Rightarrow> scan_result list \<Rightarrow> port_hashes
     \<Rightarrow> (scan_result \<times> string) list \<times> port_hashes" where
  "track sum64 [] m = ([], m)"
| "track sum64 (r # rs) m =
     (let new = legacy_hash sum64 r in
      case track sum64 rs (m(target_key r \<mapsto> new)) of
        (ds, m') \<Rightarrow>
          ((case port_delta (m (target_key r)) new of None \<Rightarrow> ds | Some prev \<Rightarrow> (r, prev) # ds), m'))"

lemma track_append:
  "track sum64 (xs @ ys) m =
     (fst (track sum64 xs m) @ fst (track sum64 ys (snd (track sum64 xs m))),
      snd (track sum64 ys (snd (track sum64 xs m))))"
  by (induction xs arbitrary: m) (auto simp: Let_def split: prod.splits option.splits)

lemma port_delta_None: "port_delta old new = None \<longleftrightarrow> old = Some new"
  by (auto simp: port_delta_def split: option.split)

text \<open>A body that leaves everything outside the bucket alone.\<close>

definition outside :: "store \<Rightarrow> store \<Rightarrow> bool" where
  "outside s s' \<longleftrightarrow> (\<forall>p. p \<noteq> [portStates] \<and> (\<forall>k. p \<noteq> [portStates, k]) \<longrightarrow> s' p = s p)"

lemma outside_trans: "outside s s' \<Longrightarrow> outside s' s'' \<Longrightarrow> outside s s''"
  by (simp add: outside_def)

lemma apply_batch_spec:
  assumes "apply_batch (spec_bolt l) sum64 batch (w, s) = Inr (es, (w', s'))"
  shows "track sum64 batch (hashes_of s) = (es, hashes_of s') \<and> outside s s'"
  using assms
proof (induction batch arbitrary: w s es)
  case Nil
  then show ?case by (simp add: returnT_def outside_def)
next
  case (Cons r batch)
  let ?k = "target_key r" and ?h = "legacy_hash sum64 r"
  show ?case
  proof (cases "port_delta (hashes_of s ?k) ?h")
    case None
    with Cons.prems have "apply_batch (spec_bolt l) sum64 batch (w, s) = Inr (es, (w', s'))"
      by (simp add: bindT_def readT_def spec_get_def hashes_of_def)
    moreover have "(hashes_of s)(?k \<mapsto> ?h) = hashes_of s"
      using None by (simp add: port_delta_None fun_upd_idem)
    ultimately show ?thesis using Cons.IH None by (simp add: Let_def)
  next
    case (Some prev)
    let ?s = "s([portStates, ?k] \<mapsto> BVal ?h)"
    obtain es' where es: "es = (r, prev) # es'"
      "apply_batch (spec_bolt l) sum64 batch (True, ?s) = Inr (es', (w', s'))"
      using Cons.prems Some
      by (auto simp: bindT_eq_Inr readT_def execT_def returnT_def spec_get_def spec_put_def hashes_of_def
          split: if_splits)
    have h: "hashes_of ?s = (hashes_of s)(?k \<mapsto> ?h)"
      by (auto simp: hashes_of_def fun_eq_iff)
    have o: "outside s ?s" by (simp add: outside_def)
    from Cons.IH [OF es(2)] have ih: "track sum64 batch ((hashes_of s)(?k \<mapsto> ?h)) = (es', hashes_of s')"
      "outside ?s s'" unfolding h by blast+
    show ?thesis
      using ih(1) outside_trans [OF o ih(2)] Some es(1) by (simp add: Let_def del: fun_upd_apply)
  qed
qed

lemma flush_spec:
  assumes "flush_tx (spec_bolt l) sum64 batch (True, s) = Inr (es, (w', s'))" "store_wf s"
  shows "track sum64 batch (hashes_of s) = (es, hashes_of s') \<and> outside s s'"
proof -
  obtain t where t: "spec_create_if l [] portStates (True, s) = Inr t"
    "apply_batch (spec_bolt l) sum64 batch t = Inr (es, (w', s'))"
    using assms(1) by (auto simp: flush_tx_def bindT_eq_Inr execT_def split: sum.splits)
  have "t = (True, s) \<or> s [portStates] = None \<and> t = (True, s([portStates] \<mapsto> BBucket))"
    using t(1) by (auto simp: spec_create_if_def spec_create_def split: if_splits option.splits bentry.splits)
  then have "hashes_of (snd t) = hashes_of s" "outside s (snd t)"
    by (auto simp: hashes_of_def outside_def fun_eq_iff)
  with apply_batch_spec [of l sum64 batch "fst t" "snd t" es w' s'] t(2) outside_trans show ?thesis
    by auto
qed

context bbolt
begin

lemma sim_apply_batch: "simT txv (apply_batch B sum64 batch) (apply_batch spec sum64 batch)"
proof (induction batch)
  case (Cons r batch)
  then show ?case unfolding apply_batch.simps by (intro simI sim_ops)
qed (simp add: simT_return)

lemma sim_flush_tx: "simT txv (flush_tx B sum64 batch) (flush_tx spec sum64 batch)"
  unfolding flush_tx_def by (intro simI sim_ops sim_apply_batch)

lemma wf_apply_batch: "wfT (apply_batch spec sum64 batch)"
proof (induction batch)
  case (Cons r batch)
  then show ?case unfolding apply_batch.simps by (intro wfTI)
qed (simp add: wfTI)

lemma wf_flush_tx: "wfT (flush_tx spec sum64 batch)"
  unfolding flush_tx_def by (intro wfTI wf_apply_batch)

lemma flush_result:
  assumes "flush B sum64 jsonMode batch db = ((err, out), db')" "store_wf (dbv db)"
  shows "outside (dbv db) (dbv db') \<and> store_wf (dbv db')
    \<and> (case err of
         Some e \<Rightarrow> out = [] \<and> dbv db' = dbv db
       | None \<Rightarrow> (\<exists>ds. track sum64 batch (hashes_of (dbv db)) = (ds, hashes_of (dbv db'))
             \<and> out = (if jsonMode then map delta_line ds else [])))"
proof (cases "batch = []")
  case True
  with assms show ?thesis by (auto simp: flush_def outside_def)
next
  case False
  obtain r d where u: "db_Update B (flush_tx B sum64 batch) db = (r, d)" by force
  have d: "d = db'" using assms(1) False u by (cases r) (auto simp: flush_def)
  have wf: "store_wf (dbv db')"
    using Update_wf [OF sim_flush_tx wf_flush_tx assms(2), of sum64 batch] u d by simp
  show ?thesis
  proof (cases r)
    case (Inl e)
    with u d Update_Inl have "dbv db' = dbv db" by blast
    with assms False u Inl d show ?thesis by (auto simp: flush_def outside_def)
  next
    case (Inr es)
    obtain w where "flush_tx spec sum64 batch (True, dbv db) = Inr (es, (w, dbv db'))"
      using Update_Inr [OF sim_flush_tx, of sum64 batch db es db'] u Inr d by auto
    from flush_spec [OF this assms(2)] assms(1) False u Inr d wf show ?thesis
      by (auto simp: flush_def)
  qed
qed

end

section \<open>Batches do not matter\<close>

definition results_of :: "manager_event list \<Rightarrow> scan_result list" where
  "results_of events = List.map_filter (\<lambda>e. case e of Got r \<Rightarrow> Some r | Tick \<Rightarrow> None) events"

lemma results_of_simps [simp]:
  "results_of [] = []" "results_of (Got r # es) = r # results_of es" "results_of (Tick # es) = results_of es"
  by (simp_all add: results_of_def map_filter_simps)

definition count_open :: "scan_result list \<Rightarrow> int" where
  "count_open rs = int (length (filter (\<lambda>r. sr_State r = ''OPEN'') rs))"

text \<open>Of the results seen all but \<open>rest\<close> have been tracked, starting from the store \<open>s0\<close>.\<close>

definition tracked ::
  "(string \<Rightarrow> 64 word) \<Rightarrow> bool \<Rightarrow> store \<Rightarrow> scan_result list \<Rightarrow> manager \<Rightarrow> store
     \<Rightarrow> scan_result list \<Rightarrow> bool" where
  "tracked sum64 jsonMode s0 seen m s rest \<longleftrightarrow>
     outside s0 s \<and> store_wf s \<and> mg_openPorts m = count_open seen
     \<and> (\<exists>complete ds. seen = complete @ rest
          \<and> track sum64 complete (hashes_of s0) = (ds, hashes_of s)
          \<and> mg_stdout m = (if jsonMode then map delta_line ds else []))"

text \<open>Without an error the rest is what is in the buffer; after one it is not empty.\<close>

definition manager_inv ::
  "(string \<Rightarrow> 64 word) \<Rightarrow> bool \<Rightarrow> store \<Rightarrow> scan_result list \<Rightarrow> manager \<Rightarrow> store \<Rightarrow> bool" where
  "manager_inv sum64 jsonMode s0 seen m s \<longleftrightarrow>
     (\<exists>rest. tracked sum64 jsonMode s0 seen m s rest
        \<and> (if mg_stateErr m = None then rest = mg_buffer m else rest \<noteq> []))"

lemma tracked_cong:
  "mg_openPorts m' = mg_openPorts m \<Longrightarrow> mg_stdout m' = mg_stdout m
     \<Longrightarrow> tracked sum64 jsonMode s0 seen m' s rest = tracked sum64 jsonMode s0 seen m s rest"
  by (simp add: tracked_def)

lemma manager_inv_got:
  assumes "manager_inv sum64 jsonMode s0 seen m s"
  shows "manager_inv sum64 jsonMode s0 (seen @ [r])
    (m\<lparr>mg_openPorts := (if sr_State r = ''OPEN'' then mg_openPorts m + 1 else mg_openPorts m),
       mg_buffer := mg_buffer m @ [r]\<rparr>) s"
  using assms
  by (fastforce simp: manager_inv_def tracked_def count_open_def split: if_splits)

context bbolt
begin

lemma flush_buffer_result:
  assumes "manager_inv sum64 jsonMode s0 seen m (dbv db)"
    and "flush_buffer B sum64 jsonMode (m, db) = (m', db')"
  shows "\<exists>rest. tracked sum64 jsonMode s0 seen m' (dbv db') rest \<and> (mg_stateErr m' = None \<longleftrightarrow> rest = [])"
proof (cases "mg_stateErr m")
  case (Some e)
  with assms show ?thesis by (auto simp: manager_inv_def flush_buffer_def)
next
  case None
  obtain err out d where f: "flush B sum64 jsonMode (mg_buffer m) db = ((err, out), d)"
    by (metis prod.exhaust)
  have m': "m' = m\<lparr>mg_stateErr := err, mg_stdout := mg_stdout m @ out\<rparr>" "d = db'"
    using assms(2) None f by (simp_all add: flush_buffer_def)
  obtain complete ds where t: "seen = complete @ mg_buffer m" "outside s0 (dbv db)" "store_wf (dbv db)"
    "mg_openPorts m = count_open seen"
    "track sum64 complete (hashes_of s0) = (ds, hashes_of (dbv db))"
    "mg_stdout m = (if jsonMode then map delta_line ds else [])"
    using assms(1) None by (auto simp: manager_inv_def tracked_def)
  note res = flush_result [OF f t(3)]
  show ?thesis
  proof (cases err)
    case (Some e)
    then have "mg_buffer m \<noteq> []" using f by (auto simp: flush_def split: if_splits)
    moreover have "tracked sum64 jsonMode s0 seen m' (dbv db') (mg_buffer m)"
      using t res Some unfolding tracked_def by (auto simp: m')
    ultimately show ?thesis using Some m'(1) by fastforce
  next
    case err: None
    then obtain ds' where ds': "track sum64 (mg_buffer m) (hashes_of (dbv db)) = (ds', hashes_of (dbv d))"
      "out = (if jsonMode then map delta_line ds' else [])" using res by auto
    have "track sum64 seen (hashes_of s0) = (ds @ ds', hashes_of (dbv db'))"
      using t(1,5) ds'(1) m'(2) by (simp add: track_append)
    then have "tracked sum64 jsonMode s0 seen m' (dbv db') []"
      using t res ds'(2) outside_trans unfolding tracked_def by (auto simp: m')
    then show ?thesis using err m'(1) by fastforce
  qed
qed

lemma flush_drop_inv:
  assumes "manager_inv sum64 jsonMode s0 seen m (dbv db)"
    and "drop_buffer (flush_buffer B sum64 jsonMode (m, db)) = (m', db')"
  shows "manager_inv sum64 jsonMode s0 seen m' (dbv db')"
proof -
  obtain m1 where m1: "flush_buffer B sum64 jsonMode (m, db) = (m1, db')" "m' = m1\<lparr>mg_buffer := []\<rparr>"
    using assms(2) by (auto simp: drop_buffer_def split: prod.splits)
  obtain rest where r: "tracked sum64 jsonMode s0 seen m1 (dbv db') rest"
      "mg_stateErr m1 = None \<longleftrightarrow> rest = []"
    using flush_buffer_result [OF assms(1) m1(1)] by (elim exE conjE)
  have "tracked sum64 jsonMode s0 seen m' (dbv db') rest"
    unfolding m1(2) using r(1) by (subst tracked_cong [of _ m1]) simp_all
  moreover have "mg_stateErr m' = mg_stateErr m1" "mg_buffer m' = []" unfolding m1(2) by simp_all
  ultimately show ?thesis
    unfolding manager_inv_def using r(2) by (intro exI [of _ rest]) simp
qed

lemma manager_step_inv:
  assumes "manager_inv sum64 jsonMode s0 seen m (dbv db)"
    and "manager_step B sum64 jsonMode e (m, db) = (m', db')"
  shows "manager_inv sum64 jsonMode s0 (seen @ results_of [e]) m' (dbv db')"
proof (cases e)
  case (Got r)
  with assms(2) flush_drop_inv manager_inv_got [OF assms(1), of r] show ?thesis
    by (auto simp: Let_def split: if_splits)
next
  case Tick
  with assms flush_drop_inv show ?thesis by simp
qed

lemma manager_loop_result:
  assumes "manager_inv sum64 jsonMode s0 seen m (dbv db)"
    and "manager_loop B sum64 jsonMode es (m, db) = (m', db')"
  shows "\<exists>rest. tracked sum64 jsonMode s0 (seen @ results_of es) m' (dbv db') rest
    \<and> (mg_stateErr m' = None \<longleftrightarrow> rest = [])"
  using assms
proof (induction es arbitrary: seen m db)
  case Nil
  with flush_buffer_result show ?case by simp
next
  case (Cons e es)
  obtain m1 db1 where s: "manager_step B sum64 jsonMode e (m, db) = (m1, db1)" by force
  have "results_of (e # es) = results_of [e] @ results_of es" by (cases e) simp_all
  then show ?case
    using Cons.IH [OF manager_step_inv [OF Cons.prems(1) s]] Cons.prems(2) s by simp
qed

end

text \<open>C40: batching is invisible. However the ticks fall between the results, what the state manager leaves in
  the database and what it prints are those of a reference that handles the results one by one: each
  port has the hash of its last result, and a line is printed for each result that found no hash or
  another one, in order. After a failed transaction nothing more is written or printed, so the
  database and the output are those of a proper initial part of the results and the error is
  returned; without one they are those of all of them. Nothing outside the bucket changes.\<close>
theorem StateManager_batches:
  assumes B: "bbolt B dbv txv" and wf: "store_wf (dbv db)"
    and run: "StateManager B sum64 jsonMode events db = ((openPorts, err), out, db')"
  shows "openPorts = count_open (results_of events) \<and> outside (dbv db) (dbv db')
    \<and> (\<exists>complete rest ds. results_of events = complete @ rest \<and> (err = None \<longleftrightarrow> rest = [])
        \<and> track sum64 complete (hashes_of (dbv db)) = (ds, hashes_of (dbv db'))
        \<and> out = (if jsonMode then map delta_line ds else []))"
proof -
  have "manager_inv sum64 jsonMode (dbv db) [] new_manager (dbv db)"
    using wf by (simp add: manager_inv_def tracked_def new_manager_def outside_def count_open_def)
  moreover obtain m where "manager_loop B sum64 jsonMode events (new_manager, db) = (m, db')"
    "openPorts = mg_openPorts m" "err = mg_stateErr m" "out = mg_stdout m"
    using run by (auto simp: StateManager_def split: prod.splits)
  ultimately show ?thesis
    using bbolt.manager_loop_result [OF B] by (fastforce simp: tracked_def)
qed

definition sample_legacy :: scan_result where
  "sample_legacy = zero_scan_result\<lparr>sr_TargetIP := ''h'', sr_Port := 22, sr_Protocol := ''tcp'', sr_State := ''open''\<rparr>"

lemma StateManager_batches_witness:
  "\<exists>out s. StateManager (spec_bolt (External ''x'')) (\<lambda>_. 7) True [Got sample_legacy, Tick, Got sample_legacy]
       Map.empty = ((0, None), out, s)
     \<and> out = [delta_line (sample_legacy, ''UNKNOWN'')]"
proof -
  let ?B = "spec_bolt (External ''x'')"
  obtain n err out s where run: "StateManager ?B (\<lambda>_. 7) True
      [Got sample_legacy, Tick, Got sample_legacy] Map.empty = ((n, err), out, s)"
    by (metis prod.exhaust)
  have wf: "store_wf (id Map.empty)" by (simp add: store_wf_def)
  have key: "target_key sample_legacy \<noteq> []" "length (target_key sample_legacy) \<le> maxKeySize"
    by (simp_all add: target_key_def sample_legacy_def strconv_Itoa_def maxKeySize_def nat_to_dec.simps)
  have len: "length (legacy_hash (\<lambda>_. 7) sample_legacy) \<le> maxValueSize"
    by (simp add: legacy_hash_def uint64_le_def maxValueSize_def)
  have "err = None"
    using run key len
    by (auto simp: StateManager_def new_manager_def Let_def maxBatchSize_def flush_buffer_def flush_def
        drop_buffer_def db_Update_def spec_bolt_def flush_tx_def bindT_def execT_def readT_def returnT_def
        spec_create_if_def spec_create_def spec_get_def spec_put_def port_delta_def portStates_def
        spec_ops sample_legacy_def maxKeySize_def)
  with StateManager_batches [OF spec_store.bbolt_axioms wf run] run show ?thesis
    by (auto simp: hashes_of_def port_delta_def Let_def count_open_def sample_legacy_def zero_scan_result_def)
qed

end
