(* ===== verification/StateTyping.thy ===== *)
theory StateTyping
  imports Promotion
begin

text \<open>
  What the operations of the state have in common: a database that only they have written is valid.
  Its buckets nest, its schema is the current one, and every record in it, of a baseline or of a scan,
  is one that a load accepts.
\<close>

section \<open>Valid databases\<close>

definition state_valid :: "store \<Rightarrow> bool" where
  "state_valid s \<longleftrightarrow> store_wf s
     \<and> (s = Map.empty
        \<or> schema_ok s
          \<and> (\<forall>sc. s (baseline_path sc) = Some BBucket \<longrightarrow> records_valid sc False s (baseline_path sc))
          \<and> (\<forall>sc sn. s (scan_path sc sn) = Some BBucket \<longrightarrow> records_valid sc True s (scan_path sc sn)))"

text \<open>The operations, with their arguments, and the database they leave.\<close>

datatype state_op =
    Op_Initialize utc_time
  | Op_Ensure string string
  | Op_Create string string
  | Op_Save string string service_identity service_observation
  | Op_Promote string string scan_completion
  | Op_Finalize string string scan_completion

fun run_op :: "('db, 'tx) bolt \<Rightarrow> range_env \<Rightarrow> state_op \<Rightarrow> 'db \<Rightarrow> 'db" where
  "run_op B rng (Op_Initialize now) db = snd (InitializeStateSchema B now db)"
| "run_op B rng (Op_Ensure sc sn) db = snd (EnsureCurrentScan B sc sn db)"
| "run_op B rng (Op_Create sc sn) db = snd (CreateCurrentScanExclusive B sc sn db)"
| "run_op B rng (Op_Save sc sn identity observation) db =
     snd (SaveCurrentService B sc sn identity observation db)"
| "run_op B rng (Op_Promote sc sn completion) db = snd (PromoteCurrentScan B rng sc sn completion db)"
| "run_op B rng (Op_Finalize sc sn completion) db = snd (FinalizeCurrentScan B rng sc sn completion db)"

fun op_ok :: "state_op \<Rightarrow> bool" where
  "op_ok (Op_Initialize now) = utc_ok now"
| "op_ok (Op_Save sc sn identity observation) = plain_observation identity observation"
| "op_ok _ = True"

section \<open>The store of each operation is valid\<close>

lemma no_children: "store_wf s \<Longrightarrow> s p \<noteq> Some BBucket \<Longrightarrow> p \<noteq> [] \<Longrightarrow> s (p @ [k]) = None"
  using store_wf_parent by (fastforce simp: is_bucket_def)

lemma records_valid_none: "(\<And>k. s (p @ [k]) = None) \<Longrightarrow> records_valid sc cur s p"
  by (simp add: records_valid_def children_def)

text \<open>A bucket of records that was not touched, or is new and empty.\<close>

lemma records_valid_frame:
  assumes "store_wf s" "p \<noteq> []" "s p = Some BBucket \<longrightarrow> records_valid sc cur s p"
    and "\<And>k. s' (p @ [k]) = s (p @ [k])"
  shows "records_valid sc cur s' p"
proof (cases "s p = Some BBucket")
  case True
  with assms(3) records_valid_cong [of s' p s sc cur] assms(4) show ?thesis by simp
next
  case False
  with no_children [OF assms(1) False assms(2)] assms(4) show ?thesis
    by (intro records_valid_none) simp
qed

lemma path_ne [simp]: "baseline_path sc \<noteq> []" "scan_path sc sn \<noteq> []"
  by (simp_all add: path_defs)

lemma state_valid_fresh: "utc_ok now \<Longrightarrow> state_valid (fresh_store now)"
  by (simp add: state_valid_def schema_ok_fresh) (simp add: fresh_store_def path_defs)

lemma schema_not_empty: "schema_ok s \<Longrightarrow> s \<noteq> Map.empty"
  by (auto simp: schema_ok_def)

lemma state_validI:
  assumes "store_wf s" "schema_ok s"
    and "\<And>sc. records_valid sc False s (baseline_path sc)"
    and "\<And>sc sn. records_valid sc True s (scan_path sc sn)"
  shows "state_valid s"
  using assms by (simp add: state_valid_def)

lemma state_validD:
  assumes "state_valid s" "schema_ok s"
  shows "store_wf s" "s (baseline_path sc) = Some BBucket \<longrightarrow> records_valid sc False s (baseline_path sc)"
    "s (scan_path sc sn) = Some BBucket \<longrightarrow> records_valid sc True s (scan_path sc sn)"
  using assms schema_not_empty by (auto simp: state_valid_def)

text \<open>Every bucket of records is one that was not touched or not there, except those that are named.\<close>

lemma state_valid_step:
  assumes s: "state_valid s" "schema_ok s" and s': "store_wf s'" "schema_ok s'"
    and base: "\<And>sc. records_valid sc False s' (baseline_path sc)
        \<or> (\<forall>k. s' (baseline_path sc @ [k]) = s (baseline_path sc @ [k]))"
    and scan: "\<And>sc sn. records_valid sc True s' (scan_path sc sn)
        \<or> (\<forall>k. s' (scan_path sc sn @ [k]) = s (scan_path sc sn @ [k]))"
  shows "state_valid s'"
proof (rule state_validI [OF s'])
  note d = state_validD [OF s]
  show "records_valid sc False s' (baseline_path sc)" for sc
    using base [of sc] records_valid_frame [OF d(1) path_ne(1) d(2)] by blast
  show "records_valid sc True s' (scan_path sc sn)" for sc sn
    using scan [of sc sn] records_valid_frame [OF d(1) path_ne(2) d(3)] by blast
qed

lemma with_scan_children:
  "with_scan sc sn s (baseline_path sc' @ [k]) = s (baseline_path sc' @ [k])"
  "with_scan sc sn s (scan_path sc' sn' @ [k]) = s (scan_path sc' sn' @ [k])"
  by (auto simp: with_scan_def with_scans_def path_defs layout_defs)

lemma state_valid_with_scan:
  assumes "state_valid s" "schema_ok s" "store_wf (with_scan sc sn s)"
  shows "state_valid (with_scan sc sn s)"
  using assms by (intro state_valid_step [OF assms(1,2)]) (simp_all add: with_scan_children)

lemma state_valid_saved:
  assumes "state_valid s" "schema_ok s" "store_wf (saved_store sc sn k (marshal_record r) s)"
    and "entry_record sc True k (Some (BVal (marshal_record r))) \<noteq> None"
  shows "state_valid (saved_store sc sn k (marshal_record r) s)"
proof (rule state_valid_step [OF assms(1,2,3)])
  let ?s = "saved_store sc sn k (marshal_record r) s"
  show "schema_ok ?s" using assms(2) by simp
  show "records_valid sc' False ?s (baseline_path sc')
      \<or> (\<forall>j. ?s (baseline_path sc' @ [j]) = s (baseline_path sc' @ [j]))" for sc'
    using saved_store_frame(1) by blast
  show "records_valid sc' True ?s (scan_path sc' sn')
      \<or> (\<forall>j. ?s (scan_path sc' sn' @ [j]) = s (scan_path sc' sn' @ [j]))" for sc' sn'
  proof (cases "(sc', sn') = (sc, sn)")
    case True
    have at: "?s (scan_path sc sn @ [j]) = (if j = k then Some (BVal (marshal_record r)) else s (scan_path sc sn @ [j]))"
      for j by (simp add: saved_store_def with_scan_at_scan)
    have "records_valid sc True s (scan_path sc sn)"
      using records_valid_frame [OF state_validD(1) path_ne(2) state_validD(3), OF assms(1,2) assms(1,2)] by blast
    then have "records_valid sc True ?s (scan_path sc sn)"
      using assms(4) by (auto simp: records_valid_def records_at_def children_def at)
    with True show ?thesis by simp
  next
    case False
    then show ?thesis using saved_store_frame(2) by blast
  qed
qed

lemma state_valid_promoted:
  assumes "state_valid s" "schema_ok s" "store_wf (promoted sc sn nb s)"
    and "\<And>k r. nb k = Some r \<Longrightarrow> record_ok sc False k r"
  shows "state_valid (promoted sc sn nb s)"
proof (rule state_valid_step [OF assms(1,2,3)])
  let ?s = "promoted sc sn nb s"
  show "schema_ok ?s"
    using assms(2) by (simp add: schema_ok_def promoted_frame path_defs)
  show "records_valid sc' False ?s (baseline_path sc')
      \<or> (\<forall>j. ?s (baseline_path sc' @ [j]) = s (baseline_path sc' @ [j]))" for sc'
  proof (cases "sc' = sc")
    case False
    then have "\<not> prefix (baseline_path sc) (baseline_path sc' @ [j])"
      "\<not> prefix (scan_path sc sn) (baseline_path sc' @ [j])" for j
      by (simp_all add: path_defs)
    then show ?thesis by (simp add: promoted_frame)
  qed (use promoted_records(2) assms(4) in blast)
  show "records_valid sc' True ?s (scan_path sc' sn')
      \<or> (\<forall>j. ?s (scan_path sc' sn' @ [j]) = s (scan_path sc' sn' @ [j]))" for sc' sn'
  proof (cases "(sc', sn') = (sc, sn)")
    case True
    then show ?thesis by (auto intro!: records_valid_none promoted_scan)
  next
    case False
    then have "\<not> prefix (baseline_path sc) (scan_path sc' sn' @ [j])"
      "\<not> prefix (scan_path sc sn) (scan_path sc' sn' @ [j])" for j
      by (auto simp: path_defs layout_defs)
    then show ?thesis by (simp add: promoted_frame)
  qed
qed

lemma state_valid_discard:
  assumes "state_valid s" "schema_ok s"
  shows "state_valid (discard sc sn s)"
proof (cases "s (scan_path sc sn) = Some BBucket")
  case True
  have wf: "store_wf s" using state_validD(1) [OF assms] .
  let ?s = "drop_tree (scan_path sc sn) s"
  have "state_valid ?s"
  proof (rule state_valid_step [OF assms store_wf_drop_tree [OF wf path_ne(2)]])
    show "schema_ok ?s" using assms(2) by (simp add: schema_ok_def drop_tree_apply path_defs)
    show "records_valid sc' False ?s (baseline_path sc')
      \<or> (\<forall>j. ?s (baseline_path sc' @ [j]) = s (baseline_path sc' @ [j]))" for sc'
      by (simp add: drop_tree_apply path_defs layout_defs)
    show "records_valid sc' True ?s (scan_path sc' sn')
      \<or> (\<forall>j. ?s (scan_path sc' sn' @ [j]) = s (scan_path sc' sn' @ [j]))" for sc' sn'
    proof (cases "(sc', sn') = (sc, sn)")
      case True
      then show ?thesis by (auto intro!: records_valid_none simp: drop_tree_apply)
    next
      case False
      then show ?thesis by (auto simp: drop_tree_apply path_defs)
    qed
  qed
  with True show ?thesis by (simp add: discard_def)
qed (use assms in \<open>simp add: discard_def\<close>)

section \<open>Every operation keeps the database valid\<close>

context bbolt
begin

lemma Ensure_wf: "store_wf (dbv db) \<Longrightarrow> store_wf (dbv (snd (EnsureCurrentScan B sc sn db)))"
  using Update_wf [OF sim_Ensure wfT_Ensure] by (simp add: EnsureCurrentScan_def)

lemma Save_wf:
  assumes "store_wf (dbv db)"
  shows "store_wf (dbv (snd (SaveCurrentService B sc sn i obs db)))"
  using assms Update_wf [OF sim_Save wfT_Save assms]
  by (simp add: SaveCurrentService_def split: sum.split prod.split)

lemma Promote_wf:
  assumes "store_wf (dbv db)"
  shows "store_wf (dbv (snd (PromoteCurrentScan B rng sc sn cmp db)))"
  using assms Update_wf [OF sim_Promote wfT_Promote assms] by (simp add: PromoteCurrentScan_def)

lemma Initialize_valid:
  assumes "state_valid (dbv db)" "utc_ok now"
  shows "state_valid (dbv (snd (InitializeStateSchema B now db)))"
proof (cases "InitializeStateSchema B now db")
  case (Pair r db')
  have "store_wf (dbv db)" using assms(1) by (simp add: state_valid_def)
  from Initialize_result [OF this assms(2) Pair] assms state_valid_fresh Pair show ?thesis
    by (cases r) (auto split: if_splits)
qed

lemma scan_opened_valid:
  assumes "state_valid (dbv db)" "store_wf (dbv db')"
    and "dbv db' = dbv db \<or> schema_ok (dbv db) \<and> dbv db' = with_scan sc sn (dbv db)"
  shows "state_valid (dbv db')"
  using assms state_valid_with_scan [of "dbv db" sc sn] by auto

lemma Ensure_valid:
  assumes "state_valid (dbv db)"
  shows "state_valid (dbv (snd (EnsureCurrentScan B sc sn db)))"
proof (cases "EnsureCurrentScan B sc sn db")
  case (Pair r db')
  have "store_wf (dbv db')" using Ensure_wf [of db sc sn] assms Pair by (simp add: state_valid_def)
  with Ensure_result [OF Pair] scan_opened_valid [OF assms, of db' sc sn] Pair show ?thesis
    by (cases r) auto
qed

lemma Create_valid:
  assumes "state_valid (dbv db)"
  shows "state_valid (dbv (snd (CreateCurrentScanExclusive B sc sn db)))"
proof (cases "CreateCurrentScanExclusive B sc sn db")
  case (Pair r db')
  have "store_wf (dbv db')" using Exclusive_wf [of db sc sn] assms Pair by (simp add: state_valid_def)
  with Exclusive_result [OF Pair] scan_opened_valid [OF assms, of db' sc sn] Pair show ?thesis
    by (cases r) auto
qed

lemma Save_valid:
  assumes "state_valid (dbv db)" "plain_observation i obs"
  shows "state_valid (dbv (snd (SaveCurrentService B sc sn i obs db)))"
proof (cases "SaveCurrentService B sc sn i obs db")
  case (Pair r db')
  have wf: "store_wf (dbv db')" using Save_wf [of db sc sn i obs] assms Pair by (simp add: state_valid_def)
  show ?thesis
  proof (cases r)
    case (Inl e)
    with Save_result [OF Pair] assms(1) Pair show ?thesis by simp
  next
    case (Inr u)
    with Save_result [OF Pair] obtain rec k where rk: "serviceRecordFromObservation i obs = Inr (rec, k)"
      "id_ScopeID i = sc" "schema_ok (dbv db)"
      "dbv db' = saved_store sc sn k (marshal_record rec) (dbv db)" by auto
    have "entry_record sc True k (Some (BVal (marshal_record rec))) \<noteq> None"
      using entry_record_stored [OF recordFromObservation_Inr(2) [OF rk(1)]]
        stored_record_plain [OF rk(1) assms(2)] rk(2) by simp
    with state_valid_saved [OF assms(1) rk(3)] wf rk(4) Pair show ?thesis by simp
  qed
qed

lemma Promote_valid:
  assumes "state_valid (dbv db)" "ranges_ok rng"
  shows "state_valid (dbv (snd (PromoteCurrentScan B rng sc sn cmp db)))"
proof (cases "PromoteCurrentScan B rng sc sn cmp db")
  case (Pair r db')
  have wf0: "store_wf (dbv db)" using assms by (simp add: state_valid_def)
  have wf: "store_wf (dbv db')" using Promote_wf [OF wf0, of rng sc sn cmp] Pair by simp
  show ?thesis
  proof (cases r)
    case (Inl e)
    with Promote_result [OF wf0 assms(2) Pair] assms(1) Pair show ?thesis by simp
  next
    case (Inr ch)
    with Promote_result [OF wf0 assms(2) Pair] have d: "reconcilable sc sn (dbv db)"
      "dbv db' = promoted sc sn (merged (committed sc (dbv db)) (observed sc sn (dbv db))) (dbv db)"
      by simp_all
    then have "schema_ok (dbv db)" by (simp add: reconcilable_def)
    with state_valid_promoted [OF assms(1) this _ merged_ok] wf d(2) Pair show ?thesis by simp
  qed
qed

lemma discard_valid:
  assumes "state_valid (dbv db)"
  shows "state_valid (dbv (snd (discardCurrentScan B sc sn db)))"
proof (cases "discardCurrentScan B sc sn db")
  case (Pair r db')
  have "store_wf (dbv db)" using assms by (simp add: state_valid_def)
  from discard_result [OF this Pair] assms state_valid_discard [of "dbv db" sc sn] Pair show ?thesis
    by (cases r) auto
qed

lemma Finalize_valid:
  assumes "state_valid (dbv db)" "ranges_ok rng"
  shows "state_valid (dbv (snd (FinalizeCurrentScan B rng sc sn cmp db)))"
  using assms Promote_valid [OF assms, of sc sn cmp] discard_valid [OF assms(1), of sc sn]
  by (auto simp: FinalizeCurrentScan_def Let_def split: sum.splits prod.splits)

lemma run_op_valid:
  "state_valid (dbv db) \<Longrightarrow> ranges_ok rng \<Longrightarrow> op_ok op \<Longrightarrow> state_valid (dbv (run_op B rng op db))"
  by (cases op)
    (simp_all add: Initialize_valid Ensure_valid Create_valid Save_valid Promote_valid Finalize_valid)

lemma run_ops_valid:
  "state_valid (dbv db) \<Longrightarrow> ranges_ok rng \<Longrightarrow> list_all op_ok ops
     \<Longrightarrow> state_valid (dbv (fold (run_op B rng) ops db))"
  by (induction ops arbitrary: db) (simp_all add: run_op_valid)

end

lemma state_valid_reconcilable:
  assumes "state_valid s" "s (scan_path sc sn) = Some BBucket"
  shows "reconcilable sc sn s"
proof -
  have "s \<noteq> Map.empty" using assms(2) by auto
  with assms show ?thesis by (simp add: state_valid_def reconcilable_def)
qed

text \<open>C14: the state is typed. Starting from an empty database, whatever operations are performed in
  whatever order, and whether they succeed, fail or are rolled back, the buckets stay nested, the
  schema stays the one this code writes, and every record of every baseline and of every scan
  stays one that a load accepts; so every scan in such a database can be compared with its
  baseline. (The names of a certificate are taken to be valid UTF-8, as \<^verbatim>\<open>crypto/x509\<close> has them; a banner may
  hold any bytes.)\<close>
theorem written_state_valid:
  assumes "bbolt B dbv txv" "ranges_ok rng" "dbv db = Map.empty" "list_all op_ok ops"
  shows "state_valid (dbv (fold (run_op B rng) ops db))
    \<and> (\<forall>sc sn. dbv (fold (run_op B rng) ops db) (scan_path sc sn) = Some BBucket
         \<longrightarrow> reconcilable sc sn (dbv (fold (run_op B rng) ops db)))"
proof -
  have "state_valid (dbv db)" using assms(3) by (simp add: state_valid_def)
  then show ?thesis
    using bbolt.run_ops_valid [OF assms(1) _ assms(2,4)] state_valid_reconcilable by blast
qed

lemma written_state_valid_witness:
  "state_valid (fold (run_op (spec_bolt (External ''x'')) sorted_ranges)
     [Op_Initialize sample_time, Op_Save ''s'' ''a'' sample_identity sample_observation,
      Op_Finalize ''s'' ''a'' ok_completion] Map.empty)"
proof -
  have "plain_observation sample_identity sample_observation"
    by (simp add: plain_observation_def sample_observation_def sample_identity_def normalizeServiceIP_sample)
  then have "list_all op_ok [Op_Initialize sample_time, Op_Save ''s'' ''a'' sample_identity sample_observation,
      Op_Finalize ''s'' ''a'' ok_completion]" by simp
  from written_state_valid [OF spec_store.bbolt_axioms ranges_ok_sorted _ this] show ?thesis by simp
qed

end
