(* ===== verification/Spec2Isabelle.thy ===== *)
theory Spec2Isabelle
  imports Program Scanning LegacyState StateTyping
begin

text \<open>
  TcpRecon scans ports, keeps the services it found in a bbolt database, and prints what changed since
  the last completed scan as lines of JSON. This development models its Go code, all of
  \<^verbatim>\<open>cmd/tcprecon\<close> and \<^verbatim>\<open>internal\<close>, and proves what its parts promise.

  \<^bold>\<open>How the program works.\<close> \<^verbatim>\<open>main\<close> checks its flags and starts \<^verbatim>\<open>runLifecycleRuntime\<close>. That copies the
  target list to a temporary file, opens the database and checks its schema, names the scope of the scan
  by a hash of its targets and ports, reserves a fresh bucket for the scan, and starts \<^verbatim>\<open>scanner.Run\<close>:
  a producer turns targets into jobs, a router divides them between TCP and UDP workers, a monitor closes the
  channels when the workers are done, and one more goroutine decides how the scan ended. The results are
  written to the scan's bucket as they arrive. At the end the scan is compared with the baseline of its
  scope, the baseline is replaced in one transaction, and an event is printed per change; a scan
  that failed is thrown away.

  \<^bold>\<open>The theories\<close>, in the order of the imports, with the code they model.

  \<^item> \<^verbatim>\<open>Prelude\<close>, \<^verbatim>\<open>GoErrors\<close>, \<^verbatim>\<open>GoStrings\<close>, \<^verbatim>\<open>GoTime\<close>, \<^verbatim>\<open>GoJson\<close>, \<^verbatim>\<open>NetAddr\<close>, \<^verbatim>\<open>NetConn\<close>, \<^verbatim>\<open>Sha256\<close>: the error monad
    \<open>error + 'a\<close> and what the code uses of Go's library: \<^verbatim>\<open>errors.Is\<close> and \<^verbatim>\<open>Join\<close>, UTF-8 and
    \<^verbatim>\<open>strings\<close>, RFC 3339 times, \<^verbatim>\<open>encoding/json\<close> (writer, reader and their round trip), \<^verbatim>\<open>net\<close> and
    \<^verbatim>\<open>netip\<close> addresses, connections that deliver their bytes in pieces, SHA-256. All of it is executable.
  \<^item> \<^verbatim>\<open>Models\<close> (\<^verbatim>\<open>models/types.go\<close>), \<^verbatim>\<open>Risk\<close> (\<^verbatim>\<open>risk/policy.go\<close>), \<^verbatim>\<open>Enrichment\<close> (\<^verbatim>\<open>enrichment/*.go\<close>): the records, the
    score of a service, and the inventory rules with their longest-prefix match; Go's interface \<^verbatim>\<open>Matcher\<close> is
    a locale, which the emitter uses and the matcher of the rules provides.
  \<^item> \<^verbatim>\<open>TargetParser\<close> (\<^verbatim>\<open>utils/*.go\<close>), \<^verbatim>\<open>TargetPreparation\<close> (\<^verbatim>\<open>target_preparation.go\<close>): target lines, blocks of addresses,
    port ranges, the producer of jobs, and the copy of the target list.
  \<^item> \<^verbatim>\<open>Scope\<close>, \<^verbatim>\<open>ServiceIdentity\<close> (\<^verbatim>\<open>scope.go\<close>, \<^verbatim>\<open>service_identity.go\<close>, \<^verbatim>\<open>address.go\<close>): the canonical forms and the keys
    made from them.
  \<^item> \<^verbatim>\<open>Bolt\<close>: the operations of bbolt, which is not in the repository, as a record that the definitions
    take as an argument, and their documented behaviour as the locale \<^verbatim>\<open>bbolt\<close> over an abstract
    store of paths; the abstract store interprets it. \<^verbatim>\<open>simT\<close> and \<^verbatim>\<open>wfT\<close> carry facts about transaction
    bodies from the abstract store to any implementation.
  \<^item> \<^verbatim>\<open>StateSchema\<close>, \<^verbatim>\<open>StateScan\<close>, \<^verbatim>\<open>StateRecords\<close>, \<^verbatim>\<open>Reconcile\<close>, \<^verbatim>\<open>Promotion\<close> (the files \<^verbatim>\<open>state_*.go\<close>): schema, buckets of
    scans, service records, comparison, promotion and disposal. The views \<^verbatim>\<open>committed\<close> and \<^verbatim>\<open>observed\<close>
    read the maps of records that a store stands for, and the operations are specified on them.
    \<^verbatim>\<open>StateTyping\<close> puts them together: a database only they have written is always valid.
  \<^item> \<^verbatim>\<open>Completion\<close> (\<^verbatim>\<open>scan_completion.go\<close>, \<^verbatim>\<open>awaitScannerCompletion\<close>): how the outcomes of the goroutines make one.
  \<^item> \<^verbatim>\<open>Payloads\<close>, \<^verbatim>\<open>Banners\<close>, \<^verbatim>\<open>TlsProbe\<close>, \<^verbatim>\<open>Workers\<close> (files of the same names, \<^verbatim>\<open>udp_worker.go\<close>): the probes and the two
    worker loops, with a log of what is done to each connection.
  \<^item> \<^verbatim>\<open>Steps\<close>: two contracts for step relations, with a weight and with progress, as locales.
  \<^item> \<^verbatim>\<open>Dispatcher\<close> (\<^verbatim>\<open>dispatcher.go\<close>): channels as buffers with a closed flag, one program counter per goroutine,
    and a step relation in which any goroutine, or the cancellation of the context, may be next. Sending
    on a closed channel and closing it again set a flag, which is never set.
  \<^item> \<^verbatim>\<open>Scanning\<close>: the workers put into the pipeline. A \<^verbatim>\<open>network\<close> says what a dial finds; the results of a
    completed scan are one for every port that listens; and the steps of a worker goroutine are the loop of
    \<^const>\<open>Worker\<close> or \<^const>\<open>UDPWorker\<close>.
  \<^item> \<^verbatim>\<open>LifecycleEmitter\<close> (\<^verbatim>\<open>lifecycle_emitter.go\<close>): the event of a change and its line of JSON.
  \<^item> \<^verbatim>\<open>Reservation\<close>, \<^verbatim>\<open>Execution\<close>, \<^verbatim>\<open>Lifecycle\<close>, \<^verbatim>\<open>Program\<close> (\<^verbatim>\<open>runtime_*.go\<close>, \<^verbatim>\<open>main.go\<close>): the run, from the flags to the
    exit status, with every action on files, database and output in order. The attempts of a reservation
    rest on the locale \<^verbatim>\<open>scan_creator\<close>, which every database with the contract of bbolt provides.
  \<^item> \<^verbatim>\<open>LegacyState\<close> (\<^verbatim>\<open>state.go\<close>): the older state manager, which nothing starts any more.

  \<^bold>\<open>What is proved.\<close> The theorem below follows one run from the command line to the new baseline. Under it:
  the pipeline neither deadlocks nor panics, ends, and reports a scan as completed only when every job is
  done; a promotion replaces the baseline by the merge with what was observed, or does nothing, and the
  changes it reports are exactly the difference; the comparison, the emitter, the records and the
  identifiers have their specifications with round trips; scopes and services are told apart up to
  collisions of SHA-256; the parsers, the producer and the workers are equal to references that know
  nothing of buffers, pieces and cancellation; files, sockets and the database are closed on every path.

  \<^bold>\<open>Conventions.\<close> A definition has the name of the Go function where Isabelle allows it. A fallible function
  returns \<open>error + 'a\<close>; error values keep their sentinels and what they wrap, the texts of messages are
  constant prefixes. The environment is an argument: clock, entropy, DNS, HTTP, dialler, TLS handshake, file system,
  \<^verbatim>\<open>xxhash\<close>, the order of Go's maps, the order an unstable sort leaves ties in, and \<^verbatim>\<open>ctx.Err()\<close> as a
  function of how often it was asked. Go's \<^verbatim>\<open>int\<close> is \<^typ>\<open>int\<close> where the values are ports, counts and scores;
  bytes, addresses, hashes and DNS fields are words.

  \<^bold>\<open>Bytes and text.\<close> Banners are raw bytes, and \<^verbatim>\<open>encoding/json\<close> writes U+FFFD for what is not valid UTF-8. A record
  in the database is therefore \<^const>\<open>record_sanitize\<close> of the record that was saved, and \<^const>\<open>observe_all\<close>, the
  records a list of results leaves, is defined with it; the theorems on baselines hold for any bytes.

  \<^bold>\<open>Termination.\<close> Recursion is structural or has a measure. Two things may not end: \<^verbatim>\<open>expandCIDR\<close> is a \<^verbatim>\<open>while\<close> loop
  whose result is an option, \<^const>\<open>None\<close> exactly for the block of length 0; and the JSON reader has
  fuel, for which the length of the text is enough. The pipeline has no fuel: every step lowers a measure.

  \<^bold>\<open>Assumptions.\<close> The contract of bbolt is the locale. The limiter is taken to fail only when the context is done
  (rate and burst are positive and the context has no deadline); a handshake does not close the
  connection it is given, and a dialled connection is open.

  \<^bold>\<open>Not modelled:\<close> flag parsing, the set-up of the logger, the signal handler, debug messages, elapsed time in
  messages, and the bodies of third-party packages (bbolt, \<^verbatim>\<open>x/time/rate\<close>, \<^verbatim>\<open>xxhash\<close>, \<^verbatim>\<open>crypto/tls\<close>). The scheduler of Go is the
  choice of the next step; time-outs are outcomes of the operations that may time out.
\<close>

section \<open>From the command line to the baseline\<close>

text \<open>
  \<^verbatim>\<open>scanner.Run\<close> as the runtime sees it: the goroutines of \<^const>\<open>pipe_step\<close> on the jobs and with the
  error of \<^const>\<open>StreamTargets\<close>, until all of them have ended. Cancellation is part of the pipeline, so
  the producer is given here as it runs without one. \<^const>\<open>None\<close>: the producer never returns.
\<close>

definition background :: ctx_env where
  "background = \<lparr>ctx_err = (\<lambda>_. None), take_done = (\<lambda>_. False)\<rparr>"

definition Run_jobs ::
  "(string \<Rightarrow> error + string list) \<Rightarrow> string \<Rightarrow> int list \<Rightarrow> int list
     \<Rightarrow> (scan_job list \<times> error option) option" where
  "Run_jobs lookupIP targetStream tcpPorts udpPorts =
     map_option (\<lambda>r. (sent (snd r), fst r))
       (StreamTargets background lookupIP targetStream None tcpPorts udpPorts \<lparr>looks = 0, sent = []\<rparr>)"

definition scanner_run ::
  "pipe_params \<Rightarrow> (string \<Rightarrow> error + string list) \<Rightarrow> string \<Rightarrow> int list \<Rightarrow> int list \<Rightarrow> pipeline
     \<Rightarrow> bool" where
  "scanner_run P lookupIP targetStream tcpPorts udpPorts s \<longleftrightarrow>
     (case Run_jobs lookupIP targetStream tcpPorts udpPorts of
        None \<Rightarrow> False
      | Some (jobs, err) \<Rightarrow> reachable P jobs err s \<and> finished s)"

definition run_output :: "pipeline \<Rightarrow> scan_result list \<times> scan_completion option" where
  "run_output s =
     (pl_results s, case pl_completion s of C_end c \<Rightarrow> Some c | _ \<Rightarrow> None)"

lemma Run_jobs_prepared:
  assumes "prepare_targets os flags ctxErr env = (Inr prepared, es)"
    and "Run_jobs lookupIP (prepared_Reader prepared) tcp udp = Some (jobs, err)"
  shows "jobs = concat (map (line_jobs lookupIP tcp udp) (prepared_Targets prepared))
    \<and> (err = None \<longleftrightarrow> (\<forall>t\<in>set (prepared_Targets prepared). line_error lookupIP t = None))"
proof -
  obtain r :: target_reader and lines where l: "scanner_Lines (tr_text r) (tr_err r) = (lines, None)"
    "ps_targets prepared = List.map_filter ParseTargetLine lines"
    "ps_content prepared = spool_text (ps_targets prepared)"
    using prepare_targets_Inr [OF assms(1)] by blast
  have "scanner_Lines (prepared_Reader prepared) None = (prepared_Targets prepared, None)"
    using scanner_Lines_spool [OF l(1,2)] l(3) by (simp add: prepared_Reader_def prepared_Targets_def)
  then obtain q where q: "stream_lines background lookupIP tcp udp None (prepared_Targets prepared) None
      \<lparr>looks = 0, sent = []\<rparr> = Some q" "jobs = sent (snd q)" "err = fst q"
    using assms(2) by (auto simp: Run_jobs_def StreamTargets_def)
  have "ctx_err background t = None" for t by (simp add: background_def)
  with stream_lines_spec [OF q(1)] q(2,3) show ?thesis
    by (auto simp: first_error_None scan_error_def)
qed

text \<open>C1: the whole program. When it exits with status 0 and its scanner was a run of the goroutines, in any
  order of their steps, then every target resolved, every port of every address of every target was
  scanned, once, and none was given up; the results are one for every port that listens; and the baseline
  of the scope is now the old one overlaid with the records of these results, in which, as in every
  stored string, invalid UTF-8 is replaced by U+FFFD.\<close>
theorem exit_zero_scanned_all:
  assumes B: "bbolt B dbv txv" "ranges_ok (re_ranges env)" "utc_ok (re_now env)"
    and wf: "\<And>path db. re_open env path = Inr db \<Longrightarrow> store_wf (dbv db)"
    and run: "main_program B os sortFunc flags prepCtx env = (0, out, state)"
    and config: "main_config os sortFunc flags = Inr config"
    and prep: "prepare_targets os flags prepCtx (re_spool env) = (Inr prepared, es)"
    and scan: "scanner_run (with_network nw P) lookupIP (prepared_Reader prepared) (rc_TCPPorts config) (rc_UDPPorts config) s"
      "pp_numWorkers P = nat (cl_workers flags)" "\<not> pp_early P"
      "start_scanner env config (prepared_Reader prepared) = run_output s"
  defines "jobs \<equiv> concat (map (line_jobs lookupIP (rc_TCPPorts config) (rc_UDPPorts config))
      (prepared_Targets prepared))"
    and "sc \<equiv> run_scope config env prepared"
  shows "(\<forall>t\<in>set (prepared_Targets prepared). line_error lookupIP t = None)
    \<and> mset (pl_scanned s) = mset jobs \<and> pl_dropped s = []
    \<and> mset (map result_key (pl_results s)) = mset (map job_key (filter (listening nw) jobs))
    \<and> (\<exists>db db'. re_open env (rc_DBPath config) = Inr db \<and> state = Some db'
        \<and> committed sc (dbv db') = merged (committed sc (dbv db)) (observe_all sc (pl_results s) Map.empty))"
proof -
  obtain res actions db db' where m: "re_open env (rc_DBPath config) = Inr db" "state = Some db'"
    "0 < cl_workers flags" "Successful (rx_Completion (ro_Execution res))"
    "run_commits (re_ranges env) sc (fst (run_output s)) (snd (run_output s)) res (dbv db) (dbv db')"
    using main_program_result [OF B _ run] wf config prep scan(4) unfolding sc_def by auto
  then obtain c where c: "snd (run_output s) = Some c" "Successful c"
    and base: "committed sc (dbv db') = merged (committed sc (dbv db)) (observe_all sc (pl_results s) Map.empty)"
    by (auto simp: run_commits_def run_output_def)
  obtain jobs' err where j: "Run_jobs lookupIP (prepared_Reader prepared) (rc_TCPPorts config)
      (rc_UDPPorts config) = Some (jobs', err)" "reachable (with_network nw P) jobs' err s"
    using scan(1) by (auto simp: scanner_run_def split: option.splits)
  note jobs' = Run_jobs_prepared [OF prep j(1), folded jobs_def]
  have "pl_completion s = C_end c"
    using c(1) by (simp add: run_output_def split: completion_pc.splits)
  moreover have "0 < pp_numWorkers P" using scan(2) m(3) by simp
  ultimately have "mset (pl_scanned s) = mset jobs'" "pl_dropped s = []" "err = None"
    "mset (map result_key (pl_results s)) = mset (map job_key (filter (listening nw) jobs'))"
    using completed_scan [OF j(2) _ _ _ c(2)] network_results [OF j(2) _ scan(3) _ c(2)] scan(3)
    by simp_all
  with jobs' m(1,2) base show ?thesis by blast
qed

section \<open>A sample run\<close>

definition closed_network :: network where
  "closed_network =
     sample_network\<lparr>nw_tcp := sample_worker\<lparr>we_dial := (\<lambda>_ _. Inl (External ''refused''))\<rparr>\<rparr>"

abbreviation closed_port_params :: pipe_params where
  "closed_port_params \<equiv> with_network closed_network sample_params"

lemma sample_prepared_simps:
  "prepared_Reader sample_prepared = ''h'' @ [CHR 0x0A]" "prepared_Targets sample_prepared = [''h'']"
  by (simp_all add: sample_prepared_def prepared_Reader_def prepared_Targets_def)

lemma sample_jobs:
  "Run_jobs (\<lambda>_. Inr [''192.0.2.1'']) (prepared_Reader sample_prepared) [22] []
     = Some ([\<lparr>job_TargetIP = ''192.0.2.1'', job_TargetName = ''h'', job_Port = 22, job_Protocol = ''tcp''\<rparr>],
         None)"
proof -
  have "scanner_Lines (''h'' @ [CHR 0x0A]) None = ([''h''], None)"
    by (simp add: scanner_Lines_def max_token_size_def drop_cr_def line_chars)
  then show ?thesis
    by (simp add: Run_jobs_def StreamTargets_def sample_prepared_simps sample_target resolve_target_def
        dispatchJobs_def port_jobs_def send_job_def look_def background_def)
qed

text \<open>A scan of a closed port: it completes, with no results.\<close>

lemma sample_scan:
  "\<exists>s. scanner_run closed_port_params (\<lambda>_. Inr [''192.0.2.1'']) (prepared_Reader sample_prepared) [22] [] s
     \<and> run_output s = ([], Some ok_completion)"
proof -
  let ?P = closed_port_params
  let ?js = "[\<lparr>job_TargetIP = ''192.0.2.1'', job_TargetName = ''h'', job_Port = 22, job_Protocol = ''tcp''\<rparr>]"
  have P: "0 < pp_numWorkers ?P" "\<not> pp_early ?P" "supported ?P ?js"
    by (auto simp: supported_def is_udp_def)
  obtain s where s: "reachable ?P ?js None s" "finished s" "\<not> pl_done s"
    using runs_to_end [OF reach_start P(1,2), of ?js None] by (auto simp: Run_start_def)
  then obtain c where c: "pl_completion s = C_end c" by (auto simp: finished_def decided_def)
  then have "Successful c" using quiet_reachable [OF s(1) P(2)] P(3) s(3) by (auto simp: quiet_inv_def)
  then have "c = ok_completion" by (simp add: Successful_def ok_completion_def)
  moreover have "pl_results s = []"
  proof -
    have "\<not> listening closed_network j" if "j \<in> set ?js" for j
      using that by (simp add: listening_def is_udp_def closed_network_def)
    then have "filter (listening closed_network) ?js = []" by simp
    with network_results [OF s(1) _ _ c \<open>Successful c\<close>] show ?thesis by simp
  qed
  ultimately show ?thesis
    using s c by (intro exI [of _ s]) (simp add: scanner_run_def sample_jobs run_output_def)
qed

lemma exit_zero_scanned_all_witness:
  "\<exists>s out db'. main_program (spec_bolt (External ''x'')) sample_os id sample_cli (\<lambda>_. None) sample_run
      = (0, out, Some db')
    \<and> scanner_run closed_port_params (\<lambda>_. Inr [''192.0.2.1'']) (prepared_Reader sample_prepared) [22] [] s
    \<and> map job_Port (pl_scanned s) = [22]"
proof -
  obtain outc actions db' where run: "main_program (spec_bolt (External ''x'')) sample_os id sample_cli
      (\<lambda>_. None) sample_run = (0, Some (outc, actions), Some db')"
    using sample_exits by blast
  obtain s where s: "scanner_run closed_port_params (\<lambda>_. Inr [''192.0.2.1''])
      (prepared_Reader sample_prepared) [22] [] s" "run_output s = ([], Some ok_completion)"
    using sample_scan by blast
  have prep: "prepare_targets sample_os sample_cli (\<lambda>_. None) (re_spool sample_run)
      = (Inr sample_prepared, [SourceClose, SpoolSeek])"
    using sample_prepares by (simp add: sample_run_def)
  have jobs: "line_jobs (\<lambda>_. Inr [''192.0.2.1'']) [22] [] ''h''
      = [\<lparr>job_TargetIP = ''192.0.2.1'', job_TargetName = ''h'', job_Port = 22, job_Protocol = ''tcp''\<rparr>]"
    by (simp add: line_jobs_def sample_target resolve_target_def ip_jobs_def port_jobs_def)
  have "mset (pl_scanned s) = {#\<lparr>job_TargetIP = ''192.0.2.1'', job_TargetName = ''h'', job_Port = 22,
      job_Protocol = ''tcp''\<rparr>#}"
    using exit_zero_scanned_all [OF spec_store.bbolt_axioms _ _ sample_run_wf run sample_config_ok prep,
        where P = sample_params and nw = closed_network and lookupIP = "\<lambda>_. Inr [''192.0.2.1'']" and s = s] s
    by (simp add: sample_run_def start_scanner_def ranges_ok_sorted sample_prepared_simps jobs
        sample_params_def sample_cli_def)
  with run s(1) show ?thesis by auto
qed

end
